(* ===== verification/Prelude.thy ===== *)
theory Prelude
  imports Main "HOL-Library.Word" "HOL-Library.Multiset" "HOL-Library.List_Lexorder"
    "HOL-Library.Product_Lexorder" "HOL-Library.Monad_Syntax"
begin

text \<open>
  Shared vocabulary of the loregd development: bytes and machine words, the
  little-endian codec of Go's \<open>encoding/binary\<close> that every wire format uses, and
  the generic facts on lists and sorting that several components share.

  Go strings and byte slices are lists of 8-bit words; Go's string comparison is
  the lexicographic order on them (List_Lexorder).  A Go \<open>[16]byte\<close> GUID is a
  byte list that the decoders and the stores keep at length 16.
\<close>

type_synonym byte = "8 word"
type_synonym bytes = "8 word list"
type_synonym u8 = "8 word"
type_synonym u16 = "16 word"
type_synonym u32 = "32 word"
type_synonym u64 = "64 word"
type_synonym guid = "8 word list"

text \<open>Collections: codec laws, statement semantics, and the invariant rules.\<close>

named_theorems codec_simps \<open>decoding an encoded field returns it\<close>
named_theorems sql_simps \<open>what one SQL statement does to the tables\<close>
named_theorems inv_intros \<open>operations that keep an invariant\<close>

section \<open>Go byte strings from HOL strings\<close>

definition str :: "string \<Rightarrow> bytes" where
  "str s = map (\<lambda>c. of_nat (of_char c)) s"

section \<open>Little-endian words\<close>

fun le_nat_bytes :: "nat \<Rightarrow> nat \<Rightarrow> bytes" where
  "le_nat_bytes 0 k = []"
| "le_nat_bytes (Suc n) k = word_of_nat (k mod 256) # le_nat_bytes n (k div 256)"

fun le_nat :: "bytes \<Rightarrow> nat" where
  "le_nat [] = 0"
| "le_nat (b # bs) = unat b + 256 * le_nat bs"

definition le_bytes :: "nat \<Rightarrow> 'a::len word \<Rightarrow> bytes" where
  "le_bytes n w = le_nat_bytes n (unat w)"

definition le_word :: "bytes \<Rightarrow> 'a::len word" where
  "le_word bs = word_of_nat (le_nat bs)"

lemma length_le_nat_bytes [simp]: "length (le_nat_bytes n k) = n"
  by (induction n arbitrary: k) auto

lemma length_le_bytes [simp]: "length (le_bytes n w) = n"
  by (simp add: le_bytes_def)

lemma unat_byte_less [simp]: "unat (b :: byte) < 256"
  using unsigned_less [of b] by simp

lemma word_of_nat_unat: "word_of_nat (unat w) = (w :: 'a::len word)"
  by simp

lemma unat_byte_of_nat: "k < 256 \<Longrightarrow> unat (word_of_nat k :: byte) = k"
  by (simp add: unat_of_nat)

lemma le_nat_le_nat_bytes: "le_nat (le_nat_bytes n k) = k mod 256 ^ n"
proof (induction n arbitrary: k)
  case (Suc n)
  have "k mod 256 ^ Suc n = k mod 256 + 256 * (k div 256 mod 256 ^ n)"
    by (simp add: mod_mult2_eq)
  with Suc show ?case by (simp add: unat_of_nat)
qed simp

lemma le_nat_less: "le_nat bs < 256 ^ length bs"
proof (induction bs)
  case (Cons b bs)
  have "unat b \<le> 255" using unat_byte_less [of b] by linarith
  with Cons show ?case by simp
qed simp

lemma le_nat_bytes_le_nat: "le_nat_bytes (length bs) (le_nat bs) = bs"
  by (induction bs) (auto simp: div_add1_eq)

lemma le_word_le_bytes_gen:
  assumes "(2::nat) ^ LENGTH('a) \<le> 256 ^ n"
  shows "le_word (le_bytes n (w :: 'a::len word)) = w"
proof -
  have "unat w < 2 ^ LENGTH('a)" by (rule unsigned_less)
  with assms have "unat w < 256 ^ n" by linarith
  then show ?thesis by (simp add: le_bytes_def le_word_def le_nat_le_nat_bytes)
qed

lemma le_word_le_bytes [simp]:
  "le_word (le_bytes 2 (a :: 16 word)) = a"
  "le_word (le_bytes 4 (b :: 32 word)) = b"
  "le_word (le_bytes 8 (c :: 64 word)) = c"
  by (rule le_word_le_bytes_gen, simp)+

lemma le_bytes_le_word_gen:
  assumes "256 ^ length bs \<le> (2::nat) ^ LENGTH('a)"
  shows "le_bytes (length bs) (le_word bs :: 'a::len word) = bs"
proof -
  have "le_nat bs < 2 ^ LENGTH('a)"
    using assms le_nat_less [of bs] by linarith
  then have "unat (le_word bs :: 'a word) = le_nat bs"
    by (simp add: le_word_def unat_of_nat)
  then show ?thesis by (simp add: le_bytes_def le_nat_bytes_le_nat)
qed

lemma le_bytes_le_word:
  "length bs = 2 \<Longrightarrow> le_bytes 2 (le_word bs :: 16 word) = bs"
  "length bs = 4 \<Longrightarrow> le_bytes 4 (le_word bs :: 32 word) = bs"
  "length bs = 8 \<Longrightarrow> le_bytes 8 (le_word bs :: 64 word) = bs"
  using le_bytes_le_word_gen [of bs, where 'a = 16] le_bytes_le_word_gen [of bs, where 'a = 32]
    le_bytes_le_word_gen [of bs, where 'a = 64] by auto

section \<open>Lists with a key\<close>

text \<open>Where all elements have the same key and keys are distinct, there is one element.\<close>

lemma only_row:
  assumes "distinct (map k xs)" and "r \<in> set xs" and "\<forall>a \<in> set xs. k a = g"
  shows "xs = [r]"
proof (cases xs)
  case (Cons a as)
  have "as = []" using assms(1,3) unfolding Cons by (cases as) auto
  with Cons assms(2) show ?thesis by simp
qed (use assms(2) in simp)

section \<open>Sorting\<close>

text \<open>
  A stable sort by a key that is injective on the elements has only one result
  for all arrangements of the same elements: this is what makes a response
  independent of the row order of an unordered query.
\<close>

lemma sort_key_arrangement:
  assumes "mset xs = mset ys" and "inj_on k (set xs)"
  shows "sort_key k xs = sort_key k ys"
  using assms by (intro sort_key_inj_key_eq) simp_all

lemma mset_map_eq: "mset xs = mset ys \<Longrightarrow> mset (map f xs) = mset (map f ys)"
  by (metis mset_map)

lemma mset_filter_eq: "mset xs = mset ys \<Longrightarrow> mset (filter P xs) = mset (filter P ys)"
  by (simp add: mset_filter)

lemma take_drop_split: "take m (drop n xs) @ drop (m + n) xs = drop n xs"
  by (metis append_take_drop_id drop_drop)

lemma filter_filter_neg [simp]: "filter P (filter (\<lambda>x. \<not> P x) xs) = []"
  by (induction xs) auto

lemma distinct_map_filter_key: "distinct (map k xs) \<Longrightarrow> distinct (map k (filter P xs))"
  by (induction xs) auto

end
