(* ===== verification/Rsi_Wire.thy ===== *)
theory Rsi_Wire
  imports Prelude
begin

unbundle bit_operations_syntax

text \<open>
  The RSI wire layer: \<open>internal/rsi/constants.go\<close> and \<open>internal/rsi/wire.go\<close>.
  An encoder is the byte list written so far; a decoder is the borrowed buffer and
  the offset of the next unread byte, and each of its reads is an \<open>option\<close>: \<open>None\<close>
  is the short-read error.  The lemmas show that every field decodes to what was
  encoded, that a truncated field is an error, that framing is exact and that the
  streaming and the message-oriented header readers agree.
\<close>

section \<open>Constants\<close>

definition op_lookup :: u16 where "op_lookup = 0x01"
definition op_create_entry :: u16 where "op_create_entry = 0x02"
definition op_hide_entry :: u16 where "op_hide_entry = 0x03"
definition op_delete_entry :: u16 where "op_delete_entry = 0x04"
definition op_enum_children :: u16 where "op_enum_children = 0x05"
definition op_create_key :: u16 where "op_create_key = 0x10"
definition op_read_key :: u16 where "op_read_key = 0x11"
definition op_write_key :: u16 where "op_write_key = 0x12"
definition op_drop_key :: u16 where "op_drop_key = 0x13"
definition op_query_values :: u16 where "op_query_values = 0x20"
definition op_set_value :: u16 where "op_set_value = 0x21"
definition op_delete_value_entry :: u16 where "op_delete_value_entry = 0x22"
definition op_set_blanket_tombstone :: u16 where "op_set_blanket_tombstone = 0x23"
definition op_begin_transaction :: u16 where "op_begin_transaction = 0x30"
definition op_commit_transaction :: u16 where "op_commit_transaction = 0x31"
definition op_abort_transaction :: u16 where "op_abort_transaction = 0x32"
definition op_flush :: u16 where "op_flush = 0x40"
definition op_delete_layer :: u16 where "op_delete_layer = 0x50"
definition response_bit :: u16 where "response_bit = 0x8000"

lemmas op_defs = op_lookup_def op_create_entry_def op_hide_entry_def op_delete_entry_def
  op_enum_children_def op_create_key_def op_read_key_def op_write_key_def op_drop_key_def
  op_query_values_def op_set_value_def op_delete_value_entry_def op_set_blanket_tombstone_def
  op_begin_transaction_def op_commit_transaction_def op_abort_transaction_def op_flush_def
  op_delete_layer_def

definition status_ok :: u32 where "status_ok = 0"
definition status_not_found :: u32 where "status_not_found = 1"
definition status_already_exists :: u32 where "status_already_exists = 2"
definition status_storage_error :: u32 where "status_storage_error = 3"
definition status_not_empty :: u32 where "status_not_empty = 4"
definition status_too_large :: u32 where "status_too_large = 5"
definition status_txn_busy :: u32 where "status_txn_busy = 6"
definition status_invalid :: u32 where "status_invalid = 7"
definition status_cas_failed :: u32 where "status_cas_failed = 8"
definition status_txn_not_supported :: u32 where "status_txn_not_supported = 9"

lemmas status_defs = status_ok_def status_not_found_def status_already_exists_def
  status_storage_error_def status_not_empty_def status_too_large_def status_txn_busy_def
  status_invalid_def status_cas_failed_def status_txn_not_supported_def

definition request_header_size :: nat where "request_header_size = 22"
definition response_header_size :: nat where "response_header_size = 14"
definition max_request_size :: nat where "max_request_size = 16 * 1024 * 1024"

definition write_key_field_sd :: u32 where "write_key_field_sd = 0x01"
definition write_key_field_last_write_time :: u32 where "write_key_field_last_write_time = 0x02"

definition target_guid_type :: u8 where "target_guid_type = 0"
definition target_hidden_type :: u8 where "target_hidden_type = 1"

definition txn_read_write :: u32 where "txn_read_write = 0"
definition txn_read_only :: u32 where "txn_read_only = 1"

section \<open>Encoder\<close>

type_synonym encoder = bytes

definition new_encoder :: encoder where "new_encoder = []"

definition put_uint8 :: "u8 \<Rightarrow> encoder \<Rightarrow> encoder" where
  "put_uint8 v e = e @ [v]"

definition put_uint16 :: "u16 \<Rightarrow> encoder \<Rightarrow> encoder" where
  "put_uint16 v e = e @ le_bytes 2 v"

definition put_uint32 :: "u32 \<Rightarrow> encoder \<Rightarrow> encoder" where
  "put_uint32 v e = e @ le_bytes 4 v"

definition put_uint64 :: "u64 \<Rightarrow> encoder \<Rightarrow> encoder" where
  "put_uint64 v e = e @ le_bytes 8 v"

definition put_guid :: "guid \<Rightarrow> encoder \<Rightarrow> encoder" where
  "put_guid g e = e @ g"

definition put_bytes :: "bytes \<Rightarrow> encoder \<Rightarrow> encoder" where
  "put_bytes b e = e @ b"

definition put_bool :: "bool \<Rightarrow> encoder \<Rightarrow> encoder" where
  "put_bool v e = (if v then put_uint8 1 e else put_uint8 0 e)"

definition put_string :: "bytes \<Rightarrow> encoder \<Rightarrow> encoder" where
  "put_string s e = put_uint32 (word_of_nat (length s)) e @ s"

definition put_blob :: "bytes \<Rightarrow> encoder \<Rightarrow> encoder" where
  "put_blob b e = put_uint32 (word_of_nat (length b)) e @ b"

lemmas put_defs = put_uint8_def put_uint16_def put_uint32_def put_uint64_def put_guid_def
  put_bytes_def put_bool_def put_string_def put_blob_def new_encoder_def

section \<open>Decoder\<close>

record decoder =
  dbuf :: bytes
  doff :: nat

definition new_decoder :: "bytes \<Rightarrow> decoder" where
  "new_decoder buf = \<lparr>dbuf = buf, doff = 0\<rparr>"

definition remaining :: "decoder \<Rightarrow> int" where
  "remaining d = int (length (dbuf d)) - int (doff d)"

text \<open>\<open>need\<close> is true where the source's check returns no error.\<close>

definition need :: "decoder \<Rightarrow> nat \<Rightarrow> bool" where
  "need d n \<longleftrightarrow> \<not> doff d + n > length (dbuf d)"

definition advance :: "nat \<Rightarrow> decoder \<Rightarrow> decoder" where
  "advance n d = d\<lparr>doff := doff d + n\<rparr>"

definition slice :: "decoder \<Rightarrow> nat \<Rightarrow> bytes" where
  "slice d n = take n (drop (doff d) (dbuf d))"

definition dec_uint8 :: "decoder \<Rightarrow> (u8 \<times> decoder) option" where
  "dec_uint8 d = (if need d 1 then Some (dbuf d ! doff d, advance 1 d) else None)"

definition dec_bool :: "decoder \<Rightarrow> (bool \<times> decoder) option" where
  "dec_bool d = do { (v, d) \<leftarrow> dec_uint8 d; Some (v \<noteq> 0, d) }"

definition dec_uint16 :: "decoder \<Rightarrow> (u16 \<times> decoder) option" where
  "dec_uint16 d = (if need d 2 then Some (le_word (slice d 2), advance 2 d) else None)"

definition dec_uint32 :: "decoder \<Rightarrow> (u32 \<times> decoder) option" where
  "dec_uint32 d = (if need d 4 then Some (le_word (slice d 4), advance 4 d) else None)"

definition dec_uint64 :: "decoder \<Rightarrow> (u64 \<times> decoder) option" where
  "dec_uint64 d = (if need d 8 then Some (le_word (slice d 8), advance 8 d) else None)"

definition dec_guid :: "decoder \<Rightarrow> (guid \<times> decoder) option" where
  "dec_guid d = (if need d 16 then Some (slice d 16, advance 16 d) else None)"

definition dec_string :: "decoder \<Rightarrow> (bytes \<times> decoder) option" where
  "dec_string d = do {
     (n, d) \<leftarrow> dec_uint32 d;
     if need d (unat n) then Some (slice d (unat n), advance (unat n) d) else None }"

definition dec_blob :: "decoder \<Rightarrow> (bytes \<times> decoder) option" where
  "dec_blob d = do {
     (n, d) \<leftarrow> dec_uint32 d;
     if need d (unat n) then Some (slice d (unat n), advance (unat n) d) else None }"


section \<open>The laws of a field codec\<close>

definition unread :: "decoder \<Rightarrow> bytes" where
  "unread d = drop (doff d) (dbuf d)"

lemma unread_new [simp]: "unread (new_decoder buf) = buf"
  by (simp add: unread_def new_decoder_def)

lemma unread_advance [simp]: "unread (advance n d) = drop n (unread d)"
  by (simp add: unread_def advance_def add.commute)

lemma advance_simps [simp]:
  "doff (advance n d) = doff d + n" "dbuf (advance n d) = dbuf d"
  "advance m (advance n d) = advance (n + m) d" "advance 0 d = d"
  by (auto simp: advance_def)

lemma slice_unread: "slice d n = take n (unread d)"
  by (simp add: slice_def unread_def)

lemma need_unread: "0 < n \<Longrightarrow> need d n \<longleftrightarrow> n \<le> length (unread d)"
  by (auto simp: need_def unread_def)

lemma need_advance: "0 < n \<Longrightarrow> n \<le> length (unread d) \<Longrightarrow> need (advance n d) k \<longleftrightarrow> n + k \<le> length (unread d)"
  by (auto simp: need_def unread_def)

lemma unat_length32: "k < 2 ^ 32 \<Longrightarrow> unat (word_of_nat k :: u32) = k"
  by (simp add: unat_of_nat)

text \<open>
  A decoder is local when it only moves the offset, within the buffer, and its result
  depends on nothing but the bytes it consumed.
\<close>

definition valid_dec :: "decoder \<Rightarrow> bool" where
  "valid_dec d \<longleftrightarrow> doff d \<le> length (dbuf d)"

lemma valid_new [simp]: "valid_dec (new_decoder buf)"
  by (simp add: valid_dec_def new_decoder_def)

lemma valid_advance: "valid_dec d \<Longrightarrow> n \<le> length (unread d) \<Longrightarrow> valid_dec (advance n d)"
  by (auto simp: valid_dec_def unread_def)

lemma need_valid: "valid_dec d \<Longrightarrow> need d n \<longleftrightarrow> n \<le> length (unread d)"
  by (auto simp: valid_dec_def need_def unread_def)

definition local_dec :: "(decoder \<Rightarrow> ('a \<times> decoder) option) \<Rightarrow> bool" where
  "local_dec f \<longleftrightarrow> (\<forall>d x d'. f d = Some (x, d') \<longrightarrow>
     (\<exists>n \<le> length (unread d). d' = advance n d \<and>
        (\<forall>e r. valid_dec e \<longrightarrow> unread e = take n (unread d) @ r \<longrightarrow> f e = Some (x, advance n e))))"

lemma local_decD:
  assumes "local_dec f" and "f d = Some (x, d')"
  obtains n where "n \<le> length (unread d)" and "d' = advance n d"
    and "\<And>e r. valid_dec e \<Longrightarrow> unread e = take n (unread d) @ r \<Longrightarrow> f e = Some (x, advance n e)"
  using assms unfolding local_dec_def by blast

lemma local_return [inv_intros]: "local_dec (\<lambda>d. Some (x, d))"
  by (auto simp: local_dec_def intro: exI [of _ 0])

lemma local_fail [inv_intros]: "local_dec (\<lambda>d. None)"
  by (simp add: local_dec_def)

lemma local_if [inv_intros]:
  "local_dec f \<Longrightarrow> local_dec g \<Longrightarrow> local_dec (\<lambda>d. if P then f d else g d)"
  by (cases P) simp_all

lemma local_bind [inv_intros]:
  assumes f: "local_dec f" and g: "\<And>x. local_dec (g x)"
  shows "local_dec (\<lambda>d. f d \<bind> (\<lambda>(x, d). g x d))"
  unfolding local_dec_def
proof (intro allI impI)
  fix d y d2
  assume "f d \<bind> (\<lambda>(x, d). g x d) = Some (y, d2)"
  then obtain x d1 where 1: "f d = Some (x, d1)" and 2: "g x d1 = Some (y, d2)"
    by (auto simp: bind_eq_Some_conv)
  from f 1 obtain n where n: "n \<le> length (unread d)" "d1 = advance n d"
    and fn: "\<And>e r. valid_dec e \<Longrightarrow> unread e = take n (unread d) @ r \<Longrightarrow> f e = Some (x, advance n e)"
    by (rule local_decD) blast
  from g 2 obtain m where m: "m \<le> length (unread d1)" "d2 = advance m d1"
    and gm: "\<And>e r. valid_dec e \<Longrightarrow> unread e = take m (unread d1) @ r \<Longrightarrow> g x e = Some (y, advance m e)"
    by (rule local_decD) blast
  show "\<exists>k \<le> length (unread d). d2 = advance k d \<and> (\<forall>e r. valid_dec e \<longrightarrow> unread e = take k (unread d) @ r
      \<longrightarrow> f e \<bind> (\<lambda>(x, d). g x d) = Some (y, advance k e))"
  proof (intro exI [of _ "n + m"] conjI allI impI)
    show "n + m \<le> length (unread d)" "d2 = advance (n + m) d" using n m by auto
    fix e r assume v: "valid_dec e" and e: "unread e = take (n + m) (unread d) @ r"
    then have "f e = Some (x, advance n e)" using fn [of e] by (simp add: take_add)
    moreover have "valid_dec (advance n e)" using v e n by (intro valid_advance) auto
    moreover have "unread (advance n e) = take m (unread d1) @ r" using e n by (simp add: take_add)
    ultimately show "f e \<bind> (\<lambda>(x, d). g x d) = Some (y, advance (n + m) e)"
      using gm [of "advance n e"] by simp
  qed
qed

text \<open>
  What the handlers rely on when they decode a payload, and the kernel when it decodes a
  response: a well-formed field decodes to itself whatever follows it, and the decoder is
  local.  Everything else about truncation and ambiguity follows.
\<close>

locale field_codec =
  fixes enc :: "'a \<Rightarrow> bytes"
    and dec :: "decoder \<Rightarrow> ('a \<times> decoder) option"
    and ok :: "'a \<Rightarrow> bool"
  assumes dec_enc: "ok x \<Longrightarrow> unread d = enc x @ r \<Longrightarrow> dec d = Some (x, advance (length (enc x)) d)"
    and dec_local: "local_dec dec"
begin

lemma dec_new: "ok x \<Longrightarrow> dec (new_decoder (enc x @ r)) = Some (x, advance (length (enc x)) (new_decoder (enc x @ r)))"
  by (simp add: dec_enc)

lemma dec_step:
  assumes "unread d = enc x @ r" and "ok x"
    and "\<And>d'. unread d' = r \<Longrightarrow> d' = advance (length (enc x)) d \<Longrightarrow> k x d' = res"
  shows "dec d \<bind> (\<lambda>(x, d). k x d) = res"
  using assms by (simp add: dec_enc)

lemma dec_step_if:
  assumes "unread d = (if c then enc x else []) @ r" and "if c then ok x else x = z"
    and "\<And>d'. unread d' = r \<Longrightarrow> d' = advance (length (if c then enc x else [])) d \<Longrightarrow> k x d' = res"
  shows "(if c then dec d else Some (z, d)) \<bind> (\<lambda>(x, d). k x d) = res"
  using assms by (cases c) (simp_all add: dec_enc)

lemma enc_prefix_free:
  assumes "ok x" and "ok y" and "enc x @ r = enc y @ s"
  shows "x = y \<and> r = s"
  using dec_new [OF assms(1), of r] dec_new [OF assms(2), of s] assms(3) by auto

lemma enc_inject: "ok x \<Longrightarrow> ok y \<Longrightarrow> enc x = enc y \<Longrightarrow> x = y"
  using enc_prefix_free [of x y "[]" "[]"] by simp

lemma dec_truncated:
  assumes "ok x" and "k < length (enc x)" and "unread d = take k (enc x)"
  shows "dec d = None"
proof (cases "dec d")
  case (Some p)
  then obtain y d' where y: "dec d = Some (y, d')" by (cases p) simp
  with dec_local obtain n where n: "n \<le> length (unread d)"
    and ext: "\<And>e r. valid_dec e \<Longrightarrow> unread e = take n (unread d) @ r \<Longrightarrow> dec e = Some (y, advance n e)"
    by (rule local_decD) blast
  let ?e = "new_decoder (enc x)"
  have "unread ?e = take n (unread d) @ drop n (enc x)"
    using n assms(2,3) by (simp add: min_def)
  then have "dec ?e = Some (y, advance n ?e)" by (intro ext) simp_all
  with dec_new [OF assms(1), of "[]"] have "advance n ?e = advance (length (enc x)) ?e" by simp
  then have "doff (advance n ?e) = doff (advance (length (enc x)) ?e)" by simp
  with n assms(2,3) show ?thesis by simp
qed

lemma dec_bounds: "dec d = Some (x, d') \<Longrightarrow> doff d \<le> length (dbuf d) \<Longrightarrow>
    dbuf d' = dbuf d \<and> doff d \<le> doff d' \<and> doff d' \<le> length (dbuf d)"
  using dec_local by (auto elim!: local_decD simp: unread_def)

end

section \<open>The fields satisfy them\<close>

lemma dec_uint8_unread:
  "dec_uint8 d = (if unread d = [] then None else Some (hd (unread d), advance 1 d))"
  by (auto simp: dec_uint8_def unread_def need_def hd_drop_conv_nth)

lemma dec_fixed_unread:
  "dec_uint16 d = (if 2 \<le> length (unread d) then Some (le_word (take 2 (unread d)), advance 2 d) else None)"
  "dec_uint32 d = (if 4 \<le> length (unread d) then Some (le_word (take 4 (unread d)), advance 4 d) else None)"
  "dec_uint64 d = (if 8 \<le> length (unread d) then Some (le_word (take 8 (unread d)), advance 8 d) else None)"
  "dec_guid d = (if 16 \<le> length (unread d) then Some (take 16 (unread d), advance 16 d) else None)"
  by (simp_all add: dec_uint16_def dec_uint32_def dec_uint64_def dec_guid_def need_unread slice_unread)

lemma local_fixed:
  assumes "\<And>d. f d = (if n \<le> length (unread d) then Some (g (take n (unread d)), advance n d) else None)"
  shows "local_dec f"
  unfolding local_dec_def using assms by (auto intro!: exI [of _ n] split: if_splits)

lemma local_fields [inv_intros]:
  "local_dec dec_uint16" "local_dec dec_uint32" "local_dec dec_uint64" "local_dec dec_guid"
  by (rule local_fixed, rule dec_fixed_unread)+

lemma local_uint8 [inv_intros]: "local_dec dec_uint8"
  by (rule local_fixed [where n = 1 and g = hd])
    (auto simp: dec_uint8_unread Suc_le_eq hd_take)

lemma local_take [inv_intros]:
  "local_dec (\<lambda>d. if need d n then Some (slice d n, advance n d) else None)"
  unfolding local_dec_def
proof (intro allI impI)
  fix d x d' assume "(if need d n then Some (slice d n, advance n d) else None) = Some (x, d')"
  then have *: "n \<le> length (unread d)" "x = take n (unread d)" "d' = advance n d"
    by (auto simp: need_def unread_def slice_unread split: if_splits)
  show "\<exists>m \<le> length (unread d). d' = advance m d \<and> (\<forall>e r. valid_dec e \<longrightarrow>
      unread e = take m (unread d) @ r \<longrightarrow>
      (if need e n then Some (slice e n, advance n e) else None) = Some (x, advance m e))"
    using * by (intro exI [of _ n]) (auto simp: need_valid slice_unread)
qed

lemma local_strings [inv_intros]: "local_dec dec_string" "local_dec dec_blob"
  unfolding dec_string_def [abs_def] dec_blob_def [abs_def] by (intro inv_intros)+

lemma local_bool [inv_intros]: "local_dec dec_bool"
  unfolding dec_bool_def [abs_def] by (intro inv_intros)

lemma dec_string_unread:
  "dec_string d = (if 4 \<le> length (unread d) \<and> 4 + unat (le_word (take 4 (unread d)) :: u32) \<le> length (unread d)
     then let n = unat (le_word (take 4 (unread d)) :: u32) in Some (take n (drop 4 (unread d)), advance (4 + n) d)
     else None)"
  "dec_blob d = dec_string d"
  by (auto simp: dec_string_def dec_blob_def dec_fixed_unread need_advance slice_unread Let_def)

lemma dec_bool_unread:
  "dec_bool d = (if unread d = [] then None else Some (hd (unread d) \<noteq> 0, advance 1 d))"
  by (simp add: dec_bool_def dec_uint8_unread)

lemmas dec_unread [codec_simps] = dec_uint8_unread dec_bool_unread dec_fixed_unread dec_string_unread
  unat_length32 put_defs Let_def

interpretation uint8_codec: field_codec "\<lambda>v. put_uint8 v new_encoder" dec_uint8 "\<lambda>_. True"
  by unfold_locales (auto simp: put_defs dec_uint8_unread intro: inv_intros)

interpretation uint16_codec: field_codec "\<lambda>v. put_uint16 v new_encoder" dec_uint16 "\<lambda>_. True"
  by unfold_locales (auto simp: put_defs dec_fixed_unread intro: inv_intros)

interpretation uint32_codec: field_codec "\<lambda>v. put_uint32 v new_encoder" dec_uint32 "\<lambda>_. True"
  by unfold_locales (auto simp: put_defs dec_fixed_unread intro: inv_intros)

interpretation uint64_codec: field_codec "\<lambda>v. put_uint64 v new_encoder" dec_uint64 "\<lambda>_. True"
  by unfold_locales (auto simp: put_defs dec_fixed_unread intro: inv_intros)

interpretation bool_codec: field_codec "\<lambda>v. put_bool v new_encoder" dec_bool "\<lambda>_. True"
  by unfold_locales (auto simp: codec_simps intro: inv_intros)

interpretation guid_codec: field_codec "\<lambda>g. put_guid g new_encoder" dec_guid "\<lambda>g. length g = 16"
  by unfold_locales (auto simp: put_defs dec_fixed_unread intro: inv_intros)

interpretation string_codec: field_codec "\<lambda>s. put_string s new_encoder" dec_string "\<lambda>s. length s < 2 ^ 32"
  by unfold_locales (auto simp: codec_simps intro: inv_intros)

interpretation blob_codec: field_codec "\<lambda>s. put_blob s new_encoder" dec_blob "\<lambda>s. length s < 2 ^ 32"
  by unfold_locales (auto simp: codec_simps intro: inv_intros)

lemmas dec_steps = uint8_codec.dec_step uint16_codec.dec_step uint32_codec.dec_step
  uint64_codec.dec_step bool_codec.dec_step guid_codec.dec_step string_codec.dec_step
  blob_codec.dec_step

section \<open>Request framing\<close>

text \<open>
  The first four fields are the out-of-band lifetime metadata; the data frame carries
  the other four.
\<close>

record request_header =
  session :: u64
  deadlineNS :: u64
  lifetimeNS :: u64
  leaseNS :: u64
  totalLen :: u32
  requestID :: u64
  opCode :: u16
  txnID :: u64

datatype frame_error =
    Read_total_len
  | Total_len_below_header u32
  | Total_len_above_maximum u32
  | Read_message_body
  | Message_below_header nat
  | Total_len_mismatch u32 nat

definition parse_request :: "bytes \<Rightarrow> frame_error + request_header \<times> bytes" where
  "parse_request msg =
     (if length msg < request_header_size then Inl (Message_below_header (length msg))
      else let total = le_word (take 4 msg) :: u32 in
        if max_request_size < unat total then Inl (Total_len_above_maximum total)
        else if unat total \<noteq> length msg then Inl (Total_len_mismatch total (length msg))
        else Inr (\<lparr>session = 0, deadlineNS = 0, lifetimeNS = 0, leaseNS = 0, totalLen = total,
            requestID = le_word (take 8 (drop 4 msg)), opCode = le_word (take 2 (drop 12 msg)),
            txnID = le_word (take 8 (drop 14 msg))\<rparr>, drop request_header_size msg))"

text \<open>\<open>io.ReadFull\<close> on a byte stream: all \<open>n\<close> bytes, or an error.\<close>

definition read_full :: "nat \<Rightarrow> bytes \<Rightarrow> (bytes \<times> bytes) option" where
  "read_full n r = (if n \<le> length r then Some (take n r, drop n r) else None)"

definition read_request_header :: "bytes \<Rightarrow> frame_error + (request_header \<times> bytes) \<times> bytes" where
  "read_request_header r =
     (case read_full 4 r of
        None \<Rightarrow> Inl Read_total_len
      | Some (len_buf, r) \<Rightarrow>
          let total = le_word len_buf :: u32 in
          if unat total < request_header_size then Inl (Total_len_below_header total)
          else if max_request_size < unat total then Inl (Total_len_above_maximum total)
          else (case read_full (unat total - 4) r of
              None \<Rightarrow> Inl Read_message_body
            | Some (body, r) \<Rightarrow>
                (case parse_request (len_buf @ body) of
                   Inl e \<Rightarrow> Inl e
                 | Inr hp \<Rightarrow> Inr (hp, r))))"

text \<open>The frame a sender builds for a header and a payload.\<close>

definition request_frame :: "request_header \<Rightarrow> bytes \<Rightarrow> bytes" where
  "request_frame h payload = le_bytes 4 (word_of_nat (request_header_size + length payload) :: u32)
     @ le_bytes 8 (requestID h) @ le_bytes 2 (opCode h) @ le_bytes 8 (txnID h) @ payload"

lemmas size_defs = request_header_size_def response_header_size_def max_request_size_def

lemma length_request_frame [simp]: "length (request_frame h p) = 22 + length p"
  by (simp add: request_frame_def)

lemma request_frame_fields:
  assumes "22 + length p \<le> 16777216"
  shows "unat (le_word (take 4 (request_frame h p)) :: u32) = 22 + length p"
    "le_word (take 8 (drop 4 (request_frame h p))) = requestID h"
    "le_word (take 2 (drop 12 (request_frame h p))) = opCode h"
    "le_word (take 8 (drop 14 (request_frame h p))) = txnID h"
    "drop 22 (request_frame h p) = p"
  using assms unat_length32 [of "22 + length p"] by (simp_all add: request_frame_def size_defs)

lemma request_frame_split:
  fixes msg :: bytes
  assumes "22 \<le> length msg" and "unat (le_word (take 4 msg) :: u32) = length msg"
    and "requestID h = le_word (take 8 (drop 4 msg))" and "opCode h = le_word (take 2 (drop 12 msg))"
    and "txnID h = le_word (take 8 (drop 14 msg))"
  shows "msg = request_frame h (drop 22 msg)"
proof -
  have f4: "le_bytes 4 (le_word (take 4 msg) :: u32) = take 4 msg" and
    f8: "le_bytes 8 (le_word (take 8 (drop 4 msg)) :: u64) = take 8 (drop 4 msg)" and
    f2: "le_bytes 2 (le_word (take 2 (drop 12 msg)) :: u16) = take 2 (drop 12 msg)" and
    f8': "le_bytes 8 (le_word (take 8 (drop 14 msg)) :: u64) = take 8 (drop 14 msg)"
    using assms(1) by (auto intro!: le_bytes_le_word)
  have "(word_of_nat (length msg) :: u32) = le_word (take 4 msg)"
    using word_of_nat_unat [of "le_word (take 4 msg) :: u32"] assms(2) by simp
  then have "request_frame h (drop 22 msg) =
      take 4 msg @ take 8 (drop 4 msg) @ take 2 (drop 12 msg) @ take 8 (drop 14 msg) @ drop 22 msg"
    using assms(1,3-5) f4 f8 f2 f8' by (simp add: request_frame_def size_defs)
  also have "\<dots> = msg"
    using take_drop_split [of 8 14 msg] take_drop_split [of 2 12 msg] take_drop_split [of 8 4 msg]
      take_drop_split [of 4 0 msg] by simp
  finally show ?thesis by simp
qed

definition frame_header :: "request_header \<Rightarrow> bytes \<Rightarrow> bool" where
  "frame_header h payload \<longleftrightarrow> request_header_size + length payload \<le> max_request_size \<and>
     totalLen h = word_of_nat (request_header_size + length payload) \<and>
     session h = 0 \<and> deadlineNS h = 0 \<and> lifetimeNS h = 0 \<and> leaseNS h = 0"

lemma parse_request_frame:
  "frame_header h p \<Longrightarrow> parse_request (request_frame h p) = Inr (h, p)"
  using request_frame_fields [of p h]
    word_of_nat_unat [of "le_word (take 4 (request_frame h p)) :: u32"]
  by (cases h) (auto simp: parse_request_def frame_header_def size_defs Let_def)

lemma parse_request_Inr:
  assumes "parse_request msg = Inr (h, p)"
  shows "msg = request_frame h p \<and> frame_header h p"
proof -
  from assms have 1: "22 \<le> length msg" "length msg \<le> max_request_size" and p: "p = drop 22 msg"
    and t: "unat (le_word (take 4 msg) :: u32) = length msg" "totalLen h = le_word (take 4 msg)"
    and f: "requestID h = le_word (take 8 (drop 4 msg))" "opCode h = le_word (take 2 (drop 12 msg))"
      "txnID h = le_word (take 8 (drop 14 msg))"
    and z: "session h = 0 \<and> deadlineNS h = 0 \<and> lifetimeNS h = 0 \<and> leaseNS h = 0"
    by (auto simp: parse_request_def size_defs Let_def split: if_splits)
  have "msg = request_frame h p" unfolding p by (rule request_frame_split) (use 1 t f in auto)
  moreover have "totalLen h = word_of_nat (length msg)"
    using t word_of_nat_unat [of "totalLen h"] by simp
  ultimately show ?thesis using 1 z p by (auto simp: frame_header_def size_defs)
qed

text \<open>
  C35. Framing is exact: \<open>ParseRequest\<close> accepts a message exactly when it is the frame of
  its header and payload, within the 16 MiB limit, with no lifetime metadata taken from
  the wire.
\<close>

theorem parse_request_exact:
  "parse_request msg = Inr (h, p) \<longleftrightarrow> msg = request_frame h p \<and> frame_header h p"
  using parse_request_frame parse_request_Inr by blast

lemma parse_total_len:
  assumes "parse_request msg = Inr (h, p)"
  shows "unat (le_word (take 4 msg) :: u32) = length msg" "22 \<le> length msg"
    "length msg \<le> max_request_size"
  using assms by (auto simp: parse_request_def size_defs Let_def split: if_splits)

text \<open>
  The streaming reader and the message parser agree: \<open>ReadRequestHeader\<close> returns a
  header and a payload exactly when the stream starts with a message that
  \<open>ParseRequest\<close> accepts with them, and it leaves the stream right behind that message.
\<close>

theorem read_request_header_agrees:
  "read_request_header r = Inr ((h, p), rest) \<longleftrightarrow>
     (\<exists>msg. r = msg @ rest \<and> parse_request msg = Inr (h, p))"
proof
  assume *: "read_request_header r = Inr ((h, p), rest)"
  let ?n = "unat (le_word (take 4 r) :: u32)"
  from * have n: "4 \<le> length r" "22 \<le> ?n" "?n - 4 \<le> length (drop 4 r)"
    and parse: "parse_request (take 4 r @ take (?n - 4) (drop 4 r)) = Inr (h, p)"
    and rest: "rest = drop (?n - 4) (drop 4 r)"
    by (auto simp: read_request_header_def read_full_def size_defs Let_def
        split: if_splits option.splits sum.splits)
  have "r = (take 4 r @ take (?n - 4) (drop 4 r)) @ rest"
    unfolding rest append_assoc append_take_drop_id by (rule refl)
  with parse show "\<exists>msg. r = msg @ rest \<and> parse_request msg = Inr (h, p)" by blast
next
  assume "\<exists>msg. r = msg @ rest \<and> parse_request msg = Inr (h, p)"
  then obtain msg where r: "r = msg @ rest" and parse: "parse_request msg = Inr (h, p)" by blast
  note m = parse_total_len [OF parse]
  have "take 4 r = take 4 msg" "take (length msg - 4) (drop 4 r) = drop 4 msg"
    "drop (length msg - 4) (drop 4 r) = rest" using r m by auto
  with r m parse show "read_request_header r = Inr ((h, p), rest)"
    by (simp add: read_request_header_def read_full_def size_defs Let_def)
qed

section \<open>Responses\<close>

definition write_response :: "u64 \<Rightarrow> u16 \<Rightarrow> u32 \<Rightarrow> bytes \<Rightarrow> bytes" where
  "write_response request_id op_code status payload =
     (let total = word_of_nat (response_header_size + 4 + length payload) :: u32;
          buf = le_bytes 4 total;
          buf = buf @ le_bytes 8 request_id;
          buf = buf @ le_bytes 2 (op_code OR response_bit);
          buf = buf @ le_bytes 4 status
      in buf @ payload)"

definition write_error_response :: "u64 \<Rightarrow> u16 \<Rightarrow> u32 \<Rightarrow> bytes" where
  "write_error_response request_id op_code status = write_response request_id op_code status []"

text \<open>
  A response frame carries what it was built from: a receiver that reads the fields at
  their offsets gets the total length of the frame, the request id, the op code with the
  response bit, the status and the payload.
\<close>

theorem write_response_fields:
  assumes "length payload + 18 < 2 ^ 32"
  shows "let f = write_response rid opc st payload in
    unat (le_word (take 4 f) :: u32) = length f \<and> le_word (take 8 (drop 4 f)) = rid \<and>
    le_word (take 2 (drop 12 f)) = opc OR 0x8000 \<and> le_word (take 4 (drop 14 f)) = st \<and> drop 18 f = payload"
  using assms unat_length32 [of "length payload + 18"]
  by (simp add: write_response_def size_defs response_bit_def Let_def add.commute)

theorem write_response_fields_witness:
  "unat (le_word (take 4 (write_response 7 0x11 1 [1, 2, 3])) :: u32) = length (write_response 7 0x11 1 [1, 2, 3])"
  using write_response_fields [of "[1, 2, 3]" 7 "0x11" 1] by (simp add: Let_def)

end
