(* ===== verification/Rsi_Messages.thy ===== *)
theory Rsi_Messages
  imports Rsi_Wire
begin

unbundle bit_operations_syntax

text \<open>
  The RSI messages of \<open>internal/rsi/messages.go\<close>: one record per request type with its
  \<open>Decode*\<close> function, and the \<open>Encode*\<close> functions of the response payloads.  A failed
  field read ends the decoder with \<open>None\<close>, as every early return of the source does.
  Wall-clock times (\<open>int64\<close> in the source) keep their 64 bits.
\<close>

section \<open>Request payloads\<close>

record lookup_request =
  lkr_parent_guid :: guid
  lkr_child_name :: bytes

definition decode_lookup_request :: "decoder \<Rightarrow> (lookup_request \<times> decoder) option" where
  "decode_lookup_request d = do {
     (parent_guid', d) \<leftarrow> dec_guid d;
     (child_name', d) \<leftarrow> dec_string d;
     Some (\<lparr>lkr_parent_guid = parent_guid', lkr_child_name = child_name'\<rparr>, d) }"

record create_entry_request =
  cer_parent_guid :: guid
  cer_child_name :: bytes
  cer_layer_name :: bytes
  cer_child_guid :: guid
  cer_sequence :: u64

definition decode_create_entry_request :: "decoder \<Rightarrow> (create_entry_request \<times> decoder) option" where
  "decode_create_entry_request d = do {
     (parent_guid', d) \<leftarrow> dec_guid d;
     (child_name', d) \<leftarrow> dec_string d;
     (layer_name', d) \<leftarrow> dec_string d;
     (child_guid', d) \<leftarrow> dec_guid d;
     (sequence', d) \<leftarrow> dec_uint64 d;
     Some (\<lparr>cer_parent_guid = parent_guid', cer_child_name = child_name', cer_layer_name = layer_name', cer_child_guid = child_guid', cer_sequence = sequence'\<rparr>, d) }"

record hide_entry_request =
  her_parent_guid :: guid
  her_child_name :: bytes
  her_layer_name :: bytes
  her_sequence :: u64

definition decode_hide_entry_request :: "decoder \<Rightarrow> (hide_entry_request \<times> decoder) option" where
  "decode_hide_entry_request d = do {
     (parent_guid', d) \<leftarrow> dec_guid d;
     (child_name', d) \<leftarrow> dec_string d;
     (layer_name', d) \<leftarrow> dec_string d;
     (sequence', d) \<leftarrow> dec_uint64 d;
     Some (\<lparr>her_parent_guid = parent_guid', her_child_name = child_name', her_layer_name = layer_name', her_sequence = sequence'\<rparr>, d) }"

record delete_entry_request =
  der_parent_guid :: guid
  der_child_name :: bytes
  der_layer_name :: bytes

definition decode_delete_entry_request :: "decoder \<Rightarrow> (delete_entry_request \<times> decoder) option" where
  "decode_delete_entry_request d = do {
     (parent_guid', d) \<leftarrow> dec_guid d;
     (child_name', d) \<leftarrow> dec_string d;
     (layer_name', d) \<leftarrow> dec_string d;
     Some (\<lparr>der_parent_guid = parent_guid', der_child_name = child_name', der_layer_name = layer_name'\<rparr>, d) }"

record enum_children_request =
  ecr_parent_guid :: guid

definition decode_enum_children_request :: "decoder \<Rightarrow> (enum_children_request \<times> decoder) option" where
  "decode_enum_children_request d = do {
     (parent_guid', d) \<leftarrow> dec_guid d;
     Some (\<lparr>ecr_parent_guid = parent_guid'\<rparr>, d) }"

record create_key_request =
  ckr_guid :: guid
  ckr_name :: bytes
  ckr_parent_guid :: guid
  ckr_sd :: bytes
  ckr_volatile :: bool
  ckr_symlink :: bool

definition decode_create_key_request :: "decoder \<Rightarrow> (create_key_request \<times> decoder) option" where
  "decode_create_key_request d = do {
     (guid', d) \<leftarrow> dec_guid d;
     (name', d) \<leftarrow> dec_string d;
     (parent_guid', d) \<leftarrow> dec_guid d;
     (sd', d) \<leftarrow> dec_blob d;
     (volatile', d) \<leftarrow> dec_bool d;
     (symlink', d) \<leftarrow> dec_bool d;
     Some (\<lparr>ckr_guid = guid', ckr_name = name', ckr_parent_guid = parent_guid', ckr_sd = sd', ckr_volatile = volatile', ckr_symlink = symlink'\<rparr>, d) }"

record read_key_request =
  rkr_guid :: guid

definition decode_read_key_request :: "decoder \<Rightarrow> (read_key_request \<times> decoder) option" where
  "decode_read_key_request d = do {
     (guid', d) \<leftarrow> dec_guid d;
     Some (\<lparr>rkr_guid = guid'\<rparr>, d) }"

record write_key_request =
  wkr_guid :: guid
  wkr_field_mask :: u32
  wkr_sd :: bytes
  wkr_last_write_time :: u64

definition decode_write_key_request :: "decoder \<Rightarrow> (write_key_request \<times> decoder) option" where
  "decode_write_key_request d = do {
     (guid', d) \<leftarrow> dec_guid d;
     (field_mask', d) \<leftarrow> dec_uint32 d;
     (sd', d) \<leftarrow> (if field_mask' AND write_key_field_sd \<noteq> 0 then dec_blob d else Some ([], d));
     (last_write_time', d) \<leftarrow>
       (if field_mask' AND write_key_field_last_write_time \<noteq> 0 then dec_uint64 d else Some (0, d));
     Some (\<lparr>wkr_guid = guid', wkr_field_mask = field_mask', wkr_sd = sd',
       wkr_last_write_time = last_write_time'\<rparr>, d) }"

record drop_key_request =
  dkr_guid :: guid

definition decode_drop_key_request :: "decoder \<Rightarrow> (drop_key_request \<times> decoder) option" where
  "decode_drop_key_request d = do {
     (guid', d) \<leftarrow> dec_guid d;
     Some (\<lparr>dkr_guid = guid'\<rparr>, d) }"

record query_values_request =
  qvr_guid :: guid
  qvr_value_name :: bytes
  qvr_query_all :: bool

definition decode_query_values_request :: "decoder \<Rightarrow> (query_values_request \<times> decoder) option" where
  "decode_query_values_request d = do {
     (guid', d) \<leftarrow> dec_guid d;
     (value_name', d) \<leftarrow> dec_string d;
     (query_all', d) \<leftarrow> dec_bool d;
     Some (\<lparr>qvr_guid = guid', qvr_value_name = value_name', qvr_query_all = query_all'\<rparr>, d) }"

record set_value_request =
  svr_guid :: guid
  svr_value_name :: bytes
  svr_layer_name :: bytes
  svr_type :: u32
  svr_data :: bytes
  svr_sequence :: u64
  svr_expected_sequence :: u64

definition decode_set_value_request :: "decoder \<Rightarrow> (set_value_request \<times> decoder) option" where
  "decode_set_value_request d = do {
     (guid', d) \<leftarrow> dec_guid d;
     (value_name', d) \<leftarrow> dec_string d;
     (layer_name', d) \<leftarrow> dec_string d;
     (type', d) \<leftarrow> dec_uint32 d;
     (data', d) \<leftarrow> dec_blob d;
     (sequence', d) \<leftarrow> dec_uint64 d;
     (expected_sequence', d) \<leftarrow> dec_uint64 d;
     Some (\<lparr>svr_guid = guid', svr_value_name = value_name', svr_layer_name = layer_name', svr_type = type', svr_data = data', svr_sequence = sequence', svr_expected_sequence = expected_sequence'\<rparr>, d) }"

record delete_value_entry_request =
  dvr_guid :: guid
  dvr_value_name :: bytes
  dvr_layer_name :: bytes

definition decode_delete_value_entry_request :: "decoder \<Rightarrow> (delete_value_entry_request \<times> decoder) option" where
  "decode_delete_value_entry_request d = do {
     (guid', d) \<leftarrow> dec_guid d;
     (value_name', d) \<leftarrow> dec_string d;
     (layer_name', d) \<leftarrow> dec_string d;
     Some (\<lparr>dvr_guid = guid', dvr_value_name = value_name', dvr_layer_name = layer_name'\<rparr>, d) }"

record set_blanket_tombstone_request =
  sbr_guid :: guid
  sbr_layer_name :: bytes
  sbr_set :: bool
  sbr_sequence :: u64

definition decode_set_blanket_tombstone_request :: "decoder \<Rightarrow> (set_blanket_tombstone_request \<times> decoder) option" where
  "decode_set_blanket_tombstone_request d = do {
     (guid', d) \<leftarrow> dec_guid d;
     (layer_name', d) \<leftarrow> dec_string d;
     (set', d) \<leftarrow> dec_bool d;
     (sequence', d) \<leftarrow> dec_uint64 d;
     Some (\<lparr>sbr_guid = guid', sbr_layer_name = layer_name', sbr_set = set', sbr_sequence = sequence'\<rparr>, d) }"

record begin_transaction_request =
  btr_txn_id :: u64
  btr_mode :: u32

definition decode_begin_transaction_request :: "decoder \<Rightarrow> (begin_transaction_request \<times> decoder) option" where
  "decode_begin_transaction_request d = do {
     (txn_id', d) \<leftarrow> dec_uint64 d;
     (mode', d) \<leftarrow> dec_uint32 d;
     Some (\<lparr>btr_txn_id = txn_id', btr_mode = mode'\<rparr>, d) }"

record commit_transaction_request =
  ctr_txn_id :: u64

definition decode_commit_transaction_request :: "decoder \<Rightarrow> (commit_transaction_request \<times> decoder) option" where
  "decode_commit_transaction_request d = do {
     (txn_id', d) \<leftarrow> dec_uint64 d;
     Some (\<lparr>ctr_txn_id = txn_id'\<rparr>, d) }"

record abort_transaction_request =
  atr_txn_id :: u64

definition decode_abort_transaction_request :: "decoder \<Rightarrow> (abort_transaction_request \<times> decoder) option" where
  "decode_abort_transaction_request d = do {
     (txn_id', d) \<leftarrow> dec_uint64 d;
     Some (\<lparr>atr_txn_id = txn_id'\<rparr>, d) }"

record delete_layer_request =
  dlr_layer_name :: bytes

definition decode_delete_layer_request :: "decoder \<Rightarrow> (delete_layer_request \<times> decoder) option" where
  "decode_delete_layer_request d = do {
     (layer_name', d) \<leftarrow> dec_string d;
     Some (\<lparr>dlr_layer_name = layer_name'\<rparr>, d) }"

record flush_request =
  flr_hive_name :: bytes

definition decode_flush_request :: "decoder \<Rightarrow> (flush_request \<times> decoder) option" where
  "decode_flush_request d = do {
     (hive_name', d) \<leftarrow> dec_string d;
     Some (\<lparr>flr_hive_name = hive_name'\<rparr>, d) }"


section \<open>Response payloads\<close>

record lookup_path_entry =
  lpe_layer_name :: bytes
  lpe_target_type :: u8
  lpe_target_guid :: guid
  lpe_sequence :: u64

record lookup_key_meta =
  lkm_guid :: guid
  lkm_sd :: bytes
  lkm_volatile :: bool
  lkm_symlink :: bool
  lkm_last_write_time :: u64

fun encode_path_entries_loop :: "lookup_path_entry list \<Rightarrow> encoder \<Rightarrow> encoder" where
  "encode_path_entries_loop [] e = e"
| "encode_path_entries_loop (ent # entries) e =
     (let e = put_string (lpe_layer_name ent) e;
          e = put_uint8 (lpe_target_type ent) e;
          e = put_guid (lpe_target_guid ent) e;
          e = put_uint64 (lpe_sequence ent) e
      in encode_path_entries_loop entries e)"

definition encode_path_entries :: "lookup_path_entry list \<Rightarrow> encoder \<Rightarrow> encoder" where
  "encode_path_entries entries e =
     encode_path_entries_loop entries (put_uint32 (word_of_nat (length entries)) e)"

fun encode_key_metadata_loop :: "lookup_key_meta list \<Rightarrow> encoder \<Rightarrow> encoder" where
  "encode_key_metadata_loop [] e = e"
| "encode_key_metadata_loop (m # meta) e =
     (let e = put_guid (lkm_guid m) e;
          e = put_blob (lkm_sd m) e;
          e = put_bool (lkm_volatile m) e;
          e = put_bool (lkm_symlink m) e;
          e = put_uint64 (lkm_last_write_time m) e
      in encode_key_metadata_loop meta e)"

definition encode_key_metadata :: "lookup_key_meta list \<Rightarrow> encoder \<Rightarrow> encoder" where
  "encode_key_metadata meta e =
     encode_key_metadata_loop meta (put_uint32 (word_of_nat (length meta)) e)"

definition encode_lookup_response ::
    "lookup_path_entry list \<Rightarrow> lookup_key_meta list \<Rightarrow> encoder \<Rightarrow> encoder" where
  "encode_lookup_response entries meta e = encode_key_metadata meta (encode_path_entries entries e)"

record enum_children_child =
  ecc_child_name :: bytes
  ecc_entries :: "lookup_path_entry list"

fun encode_children_loop :: "enum_children_child list \<Rightarrow> encoder \<Rightarrow> encoder" where
  "encode_children_loop [] e = e"
| "encode_children_loop (child # children) e =
     (let e = put_string (ecc_child_name child) e;
          e = encode_path_entries (ecc_entries child) e
      in encode_children_loop children e)"

definition encode_enum_children_response ::
    "enum_children_child list \<Rightarrow> lookup_key_meta list \<Rightarrow> encoder \<Rightarrow> encoder" where
  "encode_enum_children_response children meta e =
     encode_key_metadata meta
       (encode_children_loop children (put_uint32 (word_of_nat (length children)) e))"

record read_key_response =
  rkp_name :: bytes
  rkp_parent_guid :: guid
  rkp_sd :: bytes
  rkp_volatile :: bool
  rkp_symlink :: bool
  rkp_last_write_time :: u64

definition encode_read_key_response :: "read_key_response \<Rightarrow> encoder \<Rightarrow> encoder" where
  "encode_read_key_response r e =
     (let e = put_string (rkp_name r) e;
          e = put_guid (rkp_parent_guid r) e;
          e = put_blob (rkp_sd r) e;
          e = put_bool (rkp_volatile r) e;
          e = put_bool (rkp_symlink r) e
      in put_uint64 (rkp_last_write_time r) e)"

record query_values_entry =
  qve_value_name :: bytes
  qve_layer_name :: bytes
  qve_type :: u32
  qve_data :: bytes
  qve_sequence :: u64

record blanket_tombstone_entry =
  bte_layer_name :: bytes
  bte_sequence :: u64

fun encode_values_loop :: "query_values_entry list \<Rightarrow> encoder \<Rightarrow> encoder" where
  "encode_values_loop [] e = e"
| "encode_values_loop (ent # entries) e =
     (let e = put_string (qve_value_name ent) e;
          e = put_string (qve_layer_name ent) e;
          e = put_uint32 (qve_type ent) e;
          e = put_blob (qve_data ent) e;
          e = put_uint64 (qve_sequence ent) e
      in encode_values_loop entries e)"

fun encode_blankets_loop :: "blanket_tombstone_entry list \<Rightarrow> encoder \<Rightarrow> encoder" where
  "encode_blankets_loop [] e = e"
| "encode_blankets_loop (bt # blankets) e =
     (let e = put_string (bte_layer_name bt) e;
          e = put_uint64 (bte_sequence bt) e
      in encode_blankets_loop blankets e)"

definition encode_query_values_response ::
    "query_values_entry list \<Rightarrow> blanket_tombstone_entry list \<Rightarrow> encoder \<Rightarrow> encoder" where
  "encode_query_values_response entries blankets e =
     (let e = encode_values_loop entries (put_uint32 (word_of_nat (length entries)) e)
      in encode_blankets_loop blankets (put_uint32 (word_of_nat (length blankets)) e))"

fun encode_guids_loop :: "guid list \<Rightarrow> encoder \<Rightarrow> encoder" where
  "encode_guids_loop [] e = e"
| "encode_guids_loop (g # guids) e = encode_guids_loop guids (put_guid g e)"

definition encode_delete_layer_response :: "guid list \<Rightarrow> encoder \<Rightarrow> encoder" where
  "encode_delete_layer_response orphaned e =
     encode_guids_loop orphaned (put_uint32 (word_of_nat (length orphaned)) e)"

end
