(* ===== verification/Rsi_Codecs.thy ===== *)
theory Rsi_Codecs
  imports Rsi_Messages
begin

unbundle bit_operations_syntax

text \<open>
  The codec laws of the RSI messages.  For each request the bytes a sender writes are
  stated with the encoder's own operations (\<open>*_frame\<close>), and the decoder is shown to satisfy
  the laws of \<open>field_codec\<close>.  For each response payload a reader is stated with the
  decoder's operations, and the encoder is shown to satisfy the same laws: the kernel can
  recover every entry, and no two different responses have the same bytes.
\<close>

section \<open>Requests\<close>

definition lookup_frame :: "lookup_request \<Rightarrow> bytes" where
  "lookup_frame r = put_guid (lkr_parent_guid r) new_encoder @ put_string (lkr_child_name r) new_encoder"

definition lookup_ok :: "lookup_request \<Rightarrow> bool" where
  "lookup_ok r \<longleftrightarrow> length (lkr_parent_guid r) = 16 \<and> length (lkr_child_name r) < 2 ^ 32"

interpretation lookup_codec: field_codec lookup_frame decode_lookup_request lookup_ok
proof unfold_locales
  fix x d r assume "lookup_ok x" and "unread d = lookup_frame x @ r"
  then show "decode_lookup_request d = Some (x, advance (length (lookup_frame x)) d)"
    unfolding decode_lookup_request_def lookup_frame_def lookup_ok_def append_assoc
    by (elim dec_steps) (simp_all add: add.assoc)
qed (unfold decode_lookup_request_def [abs_def], intro inv_intros)

definition create_entry_frame :: "create_entry_request \<Rightarrow> bytes" where
  "create_entry_frame r = put_guid (cer_parent_guid r) new_encoder @ put_string (cer_child_name r) new_encoder @ put_string (cer_layer_name r) new_encoder @ put_guid (cer_child_guid r) new_encoder @ put_uint64 (cer_sequence r) new_encoder"

definition create_entry_ok :: "create_entry_request \<Rightarrow> bool" where
  "create_entry_ok r \<longleftrightarrow> length (cer_parent_guid r) = 16 \<and> length (cer_child_name r) < 2 ^ 32 \<and> length (cer_layer_name r) < 2 ^ 32 \<and> length (cer_child_guid r) = 16"

interpretation create_entry_codec: field_codec create_entry_frame decode_create_entry_request create_entry_ok
proof unfold_locales
  fix x d r assume "create_entry_ok x" and "unread d = create_entry_frame x @ r"
  then show "decode_create_entry_request d = Some (x, advance (length (create_entry_frame x)) d)"
    unfolding decode_create_entry_request_def create_entry_frame_def create_entry_ok_def append_assoc
    by (elim dec_steps) (simp_all add: add.assoc)
qed (unfold decode_create_entry_request_def [abs_def], intro inv_intros)

definition hide_entry_frame :: "hide_entry_request \<Rightarrow> bytes" where
  "hide_entry_frame r = put_guid (her_parent_guid r) new_encoder @ put_string (her_child_name r) new_encoder @ put_string (her_layer_name r) new_encoder @ put_uint64 (her_sequence r) new_encoder"

definition hide_entry_ok :: "hide_entry_request \<Rightarrow> bool" where
  "hide_entry_ok r \<longleftrightarrow> length (her_parent_guid r) = 16 \<and> length (her_child_name r) < 2 ^ 32 \<and> length (her_layer_name r) < 2 ^ 32"

interpretation hide_entry_codec: field_codec hide_entry_frame decode_hide_entry_request hide_entry_ok
proof unfold_locales
  fix x d r assume "hide_entry_ok x" and "unread d = hide_entry_frame x @ r"
  then show "decode_hide_entry_request d = Some (x, advance (length (hide_entry_frame x)) d)"
    unfolding decode_hide_entry_request_def hide_entry_frame_def hide_entry_ok_def append_assoc
    by (elim dec_steps) (simp_all add: add.assoc)
qed (unfold decode_hide_entry_request_def [abs_def], intro inv_intros)

definition delete_entry_frame :: "delete_entry_request \<Rightarrow> bytes" where
  "delete_entry_frame r = put_guid (der_parent_guid r) new_encoder @ put_string (der_child_name r) new_encoder @ put_string (der_layer_name r) new_encoder"

definition delete_entry_ok :: "delete_entry_request \<Rightarrow> bool" where
  "delete_entry_ok r \<longleftrightarrow> length (der_parent_guid r) = 16 \<and> length (der_child_name r) < 2 ^ 32 \<and> length (der_layer_name r) < 2 ^ 32"

interpretation delete_entry_codec: field_codec delete_entry_frame decode_delete_entry_request delete_entry_ok
proof unfold_locales
  fix x d r assume "delete_entry_ok x" and "unread d = delete_entry_frame x @ r"
  then show "decode_delete_entry_request d = Some (x, advance (length (delete_entry_frame x)) d)"
    unfolding decode_delete_entry_request_def delete_entry_frame_def delete_entry_ok_def append_assoc
    by (elim dec_steps) (simp_all add: add.assoc)
qed (unfold decode_delete_entry_request_def [abs_def], intro inv_intros)

definition enum_children_frame :: "enum_children_request \<Rightarrow> bytes" where
  "enum_children_frame r = put_guid (ecr_parent_guid r) new_encoder"

definition enum_children_ok :: "enum_children_request \<Rightarrow> bool" where
  "enum_children_ok r \<longleftrightarrow> length (ecr_parent_guid r) = 16"

interpretation enum_children_codec: field_codec enum_children_frame decode_enum_children_request enum_children_ok
proof unfold_locales
  fix x d r assume "enum_children_ok x" and "unread d = enum_children_frame x @ r"
  then show "decode_enum_children_request d = Some (x, advance (length (enum_children_frame x)) d)"
    unfolding decode_enum_children_request_def enum_children_frame_def enum_children_ok_def append_assoc
    by (elim dec_steps) (simp_all add: add.assoc)
qed (unfold decode_enum_children_request_def [abs_def], intro inv_intros)

definition create_key_frame :: "create_key_request \<Rightarrow> bytes" where
  "create_key_frame r = put_guid (ckr_guid r) new_encoder @ put_string (ckr_name r) new_encoder @ put_guid (ckr_parent_guid r) new_encoder @ put_blob (ckr_sd r) new_encoder @ put_bool (ckr_volatile r) new_encoder @ put_bool (ckr_symlink r) new_encoder"

definition create_key_ok :: "create_key_request \<Rightarrow> bool" where
  "create_key_ok r \<longleftrightarrow> length (ckr_guid r) = 16 \<and> length (ckr_name r) < 2 ^ 32 \<and> length (ckr_parent_guid r) = 16 \<and> length (ckr_sd r) < 2 ^ 32"

interpretation create_key_codec: field_codec create_key_frame decode_create_key_request create_key_ok
proof unfold_locales
  fix x d r assume "create_key_ok x" and "unread d = create_key_frame x @ r"
  then show "decode_create_key_request d = Some (x, advance (length (create_key_frame x)) d)"
    unfolding decode_create_key_request_def create_key_frame_def create_key_ok_def append_assoc
    by (elim dec_steps) (simp_all add: add.assoc)
qed (unfold decode_create_key_request_def [abs_def], intro inv_intros)

definition read_key_frame :: "read_key_request \<Rightarrow> bytes" where
  "read_key_frame r = put_guid (rkr_guid r) new_encoder"

definition read_key_ok :: "read_key_request \<Rightarrow> bool" where
  "read_key_ok r \<longleftrightarrow> length (rkr_guid r) = 16"

interpretation read_key_codec: field_codec read_key_frame decode_read_key_request read_key_ok
proof unfold_locales
  fix x d r assume "read_key_ok x" and "unread d = read_key_frame x @ r"
  then show "decode_read_key_request d = Some (x, advance (length (read_key_frame x)) d)"
    unfolding decode_read_key_request_def read_key_frame_def read_key_ok_def append_assoc
    by (elim dec_steps) (simp_all add: add.assoc)
qed (unfold decode_read_key_request_def [abs_def], intro inv_intros)

definition write_key_frame :: "write_key_request \<Rightarrow> bytes" where
  "write_key_frame r = put_guid (wkr_guid r) new_encoder @ put_uint32 (wkr_field_mask r) new_encoder
     @ (if wkr_field_mask r AND write_key_field_sd \<noteq> 0 then put_blob (wkr_sd r) new_encoder else [])
     @ (if wkr_field_mask r AND write_key_field_last_write_time \<noteq> 0
        then put_uint64 (wkr_last_write_time r) new_encoder else [])"

definition write_key_ok :: "write_key_request \<Rightarrow> bool" where
  "write_key_ok r \<longleftrightarrow> length (wkr_guid r) = 16 \<and>
     (if wkr_field_mask r AND write_key_field_sd \<noteq> 0 then length (wkr_sd r) < 2 ^ 32 else wkr_sd r = []) \<and>
     (if wkr_field_mask r AND write_key_field_last_write_time \<noteq> 0 then True else wkr_last_write_time r = 0)"

interpretation write_key_codec: field_codec write_key_frame decode_write_key_request write_key_ok
proof unfold_locales
  fix x d r assume "write_key_ok x" and "unread d = write_key_frame x @ r"
  then show "decode_write_key_request d = Some (x, advance (length (write_key_frame x)) d)"
    unfolding decode_write_key_request_def write_key_frame_def write_key_ok_def append_assoc
    by (elim conjE dec_steps blob_codec.dec_step_if uint64_codec.dec_step_if)
      (simp_all add: add.assoc split del: if_split)
qed (unfold decode_write_key_request_def [abs_def], intro inv_intros)

definition drop_key_frame :: "drop_key_request \<Rightarrow> bytes" where
  "drop_key_frame r = put_guid (dkr_guid r) new_encoder"

definition drop_key_ok :: "drop_key_request \<Rightarrow> bool" where
  "drop_key_ok r \<longleftrightarrow> length (dkr_guid r) = 16"

interpretation drop_key_codec: field_codec drop_key_frame decode_drop_key_request drop_key_ok
proof unfold_locales
  fix x d r assume "drop_key_ok x" and "unread d = drop_key_frame x @ r"
  then show "decode_drop_key_request d = Some (x, advance (length (drop_key_frame x)) d)"
    unfolding decode_drop_key_request_def drop_key_frame_def drop_key_ok_def append_assoc
    by (elim dec_steps) (simp_all add: add.assoc)
qed (unfold decode_drop_key_request_def [abs_def], intro inv_intros)

definition query_values_frame :: "query_values_request \<Rightarrow> bytes" where
  "query_values_frame r = put_guid (qvr_guid r) new_encoder @ put_string (qvr_value_name r) new_encoder @ put_bool (qvr_query_all r) new_encoder"

definition query_values_ok :: "query_values_request \<Rightarrow> bool" where
  "query_values_ok r \<longleftrightarrow> length (qvr_guid r) = 16 \<and> length (qvr_value_name r) < 2 ^ 32"

interpretation query_values_codec: field_codec query_values_frame decode_query_values_request query_values_ok
proof unfold_locales
  fix x d r assume "query_values_ok x" and "unread d = query_values_frame x @ r"
  then show "decode_query_values_request d = Some (x, advance (length (query_values_frame x)) d)"
    unfolding decode_query_values_request_def query_values_frame_def query_values_ok_def append_assoc
    by (elim dec_steps) (simp_all add: add.assoc)
qed (unfold decode_query_values_request_def [abs_def], intro inv_intros)

definition set_value_frame :: "set_value_request \<Rightarrow> bytes" where
  "set_value_frame r = put_guid (svr_guid r) new_encoder @ put_string (svr_value_name r) new_encoder @ put_string (svr_layer_name r) new_encoder @ put_uint32 (svr_type r) new_encoder @ put_blob (svr_data r) new_encoder @ put_uint64 (svr_sequence r) new_encoder @ put_uint64 (svr_expected_sequence r) new_encoder"

definition set_value_ok :: "set_value_request \<Rightarrow> bool" where
  "set_value_ok r \<longleftrightarrow> length (svr_guid r) = 16 \<and> length (svr_value_name r) < 2 ^ 32 \<and> length (svr_layer_name r) < 2 ^ 32 \<and> length (svr_data r) < 2 ^ 32"

interpretation set_value_codec: field_codec set_value_frame decode_set_value_request set_value_ok
proof unfold_locales
  fix x d r assume "set_value_ok x" and "unread d = set_value_frame x @ r"
  then show "decode_set_value_request d = Some (x, advance (length (set_value_frame x)) d)"
    unfolding decode_set_value_request_def set_value_frame_def set_value_ok_def append_assoc
    by (elim dec_steps) (simp_all add: add.assoc)
qed (unfold decode_set_value_request_def [abs_def], intro inv_intros)

definition delete_value_entry_frame :: "delete_value_entry_request \<Rightarrow> bytes" where
  "delete_value_entry_frame r = put_guid (dvr_guid r) new_encoder @ put_string (dvr_value_name r) new_encoder @ put_string (dvr_layer_name r) new_encoder"

definition delete_value_entry_ok :: "delete_value_entry_request \<Rightarrow> bool" where
  "delete_value_entry_ok r \<longleftrightarrow> length (dvr_guid r) = 16 \<and> length (dvr_value_name r) < 2 ^ 32 \<and> length (dvr_layer_name r) < 2 ^ 32"

interpretation delete_value_entry_codec: field_codec delete_value_entry_frame decode_delete_value_entry_request delete_value_entry_ok
proof unfold_locales
  fix x d r assume "delete_value_entry_ok x" and "unread d = delete_value_entry_frame x @ r"
  then show "decode_delete_value_entry_request d = Some (x, advance (length (delete_value_entry_frame x)) d)"
    unfolding decode_delete_value_entry_request_def delete_value_entry_frame_def delete_value_entry_ok_def append_assoc
    by (elim dec_steps) (simp_all add: add.assoc)
qed (unfold decode_delete_value_entry_request_def [abs_def], intro inv_intros)

definition set_blanket_tombstone_frame :: "set_blanket_tombstone_request \<Rightarrow> bytes" where
  "set_blanket_tombstone_frame r = put_guid (sbr_guid r) new_encoder @ put_string (sbr_layer_name r) new_encoder @ put_bool (sbr_set r) new_encoder @ put_uint64 (sbr_sequence r) new_encoder"

definition set_blanket_tombstone_ok :: "set_blanket_tombstone_request \<Rightarrow> bool" where
  "set_blanket_tombstone_ok r \<longleftrightarrow> length (sbr_guid r) = 16 \<and> length (sbr_layer_name r) < 2 ^ 32"

interpretation set_blanket_tombstone_codec: field_codec set_blanket_tombstone_frame decode_set_blanket_tombstone_request set_blanket_tombstone_ok
proof unfold_locales
  fix x d r assume "set_blanket_tombstone_ok x" and "unread d = set_blanket_tombstone_frame x @ r"
  then show "decode_set_blanket_tombstone_request d = Some (x, advance (length (set_blanket_tombstone_frame x)) d)"
    unfolding decode_set_blanket_tombstone_request_def set_blanket_tombstone_frame_def set_blanket_tombstone_ok_def append_assoc
    by (elim dec_steps) (simp_all add: add.assoc)
qed (unfold decode_set_blanket_tombstone_request_def [abs_def], intro inv_intros)

definition begin_transaction_frame :: "begin_transaction_request \<Rightarrow> bytes" where
  "begin_transaction_frame r = put_uint64 (btr_txn_id r) new_encoder @ put_uint32 (btr_mode r) new_encoder"

definition begin_transaction_ok :: "begin_transaction_request \<Rightarrow> bool" where
  "begin_transaction_ok r \<longleftrightarrow> True"

interpretation begin_transaction_codec: field_codec begin_transaction_frame decode_begin_transaction_request begin_transaction_ok
proof unfold_locales
  fix x d r assume "begin_transaction_ok x" and "unread d = begin_transaction_frame x @ r"
  then show "decode_begin_transaction_request d = Some (x, advance (length (begin_transaction_frame x)) d)"
    unfolding decode_begin_transaction_request_def begin_transaction_frame_def begin_transaction_ok_def append_assoc
    by (elim dec_steps) (simp_all add: add.assoc)
qed (unfold decode_begin_transaction_request_def [abs_def], intro inv_intros)

definition commit_transaction_frame :: "commit_transaction_request \<Rightarrow> bytes" where
  "commit_transaction_frame r = put_uint64 (ctr_txn_id r) new_encoder"

definition commit_transaction_ok :: "commit_transaction_request \<Rightarrow> bool" where
  "commit_transaction_ok r \<longleftrightarrow> True"

interpretation commit_transaction_codec: field_codec commit_transaction_frame decode_commit_transaction_request commit_transaction_ok
proof unfold_locales
  fix x d r assume "commit_transaction_ok x" and "unread d = commit_transaction_frame x @ r"
  then show "decode_commit_transaction_request d = Some (x, advance (length (commit_transaction_frame x)) d)"
    unfolding decode_commit_transaction_request_def commit_transaction_frame_def commit_transaction_ok_def append_assoc
    by (elim dec_steps) (simp_all add: add.assoc)
qed (unfold decode_commit_transaction_request_def [abs_def], intro inv_intros)

definition abort_transaction_frame :: "abort_transaction_request \<Rightarrow> bytes" where
  "abort_transaction_frame r = put_uint64 (atr_txn_id r) new_encoder"

definition abort_transaction_ok :: "abort_transaction_request \<Rightarrow> bool" where
  "abort_transaction_ok r \<longleftrightarrow> True"

interpretation abort_transaction_codec: field_codec abort_transaction_frame decode_abort_transaction_request abort_transaction_ok
proof unfold_locales
  fix x d r assume "abort_transaction_ok x" and "unread d = abort_transaction_frame x @ r"
  then show "decode_abort_transaction_request d = Some (x, advance (length (abort_transaction_frame x)) d)"
    unfolding decode_abort_transaction_request_def abort_transaction_frame_def abort_transaction_ok_def append_assoc
    by (elim dec_steps) (simp_all add: add.assoc)
qed (unfold decode_abort_transaction_request_def [abs_def], intro inv_intros)

definition delete_layer_frame :: "delete_layer_request \<Rightarrow> bytes" where
  "delete_layer_frame r = put_string (dlr_layer_name r) new_encoder"

definition delete_layer_ok :: "delete_layer_request \<Rightarrow> bool" where
  "delete_layer_ok r \<longleftrightarrow> length (dlr_layer_name r) < 2 ^ 32"

interpretation delete_layer_codec: field_codec delete_layer_frame decode_delete_layer_request delete_layer_ok
proof unfold_locales
  fix x d r assume "delete_layer_ok x" and "unread d = delete_layer_frame x @ r"
  then show "decode_delete_layer_request d = Some (x, advance (length (delete_layer_frame x)) d)"
    unfolding decode_delete_layer_request_def delete_layer_frame_def delete_layer_ok_def append_assoc
    by (elim dec_steps) (simp_all add: add.assoc)
qed (unfold decode_delete_layer_request_def [abs_def], intro inv_intros)

definition flush_frame :: "flush_request \<Rightarrow> bytes" where
  "flush_frame r = put_string (flr_hive_name r) new_encoder"

definition flush_ok :: "flush_request \<Rightarrow> bool" where
  "flush_ok r \<longleftrightarrow> length (flr_hive_name r) < 2 ^ 32"

interpretation flush_codec: field_codec flush_frame decode_flush_request flush_ok
proof unfold_locales
  fix x d r assume "flush_ok x" and "unread d = flush_frame x @ r"
  then show "decode_flush_request d = Some (x, advance (length (flush_frame x)) d)"
    unfolding decode_flush_request_def flush_frame_def flush_ok_def append_assoc
    by (elim dec_steps) (simp_all add: add.assoc)
qed (unfold decode_flush_request_def [abs_def], intro inv_intros)


section \<open>Counted sequences and pairs of fields\<close>

fun dec_many :: "(decoder \<Rightarrow> ('a \<times> decoder) option) \<Rightarrow> nat \<Rightarrow> decoder \<Rightarrow> ('a list \<times> decoder) option" where
  "dec_many f 0 d = Some ([], d)"
| "dec_many f (Suc n) d = f d \<bind> (\<lambda>(x, d). dec_many f n d \<bind> (\<lambda>(xs, d). Some (x # xs, d)))"

definition dec_counted :: "(decoder \<Rightarrow> ('a \<times> decoder) option) \<Rightarrow> decoder \<Rightarrow> ('a list \<times> decoder) option" where
  "dec_counted f d = dec_uint32 d \<bind> (\<lambda>(n, d). dec_many f (unat n) d)"

definition counted_frame :: "('a \<Rightarrow> bytes) \<Rightarrow> 'a list \<Rightarrow> bytes" where
  "counted_frame enc xs = put_uint32 (word_of_nat (length xs)) new_encoder @ concat (map enc xs)"

definition counted_ok :: "('a \<Rightarrow> bool) \<Rightarrow> 'a list \<Rightarrow> bool" where
  "counted_ok ok xs \<longleftrightarrow> length xs < 2 ^ 32 \<and> list_all ok xs"

lemma local_many: "local_dec f \<Longrightarrow> local_dec (dec_many f n)"
proof (induction n)
  case 0
  have "dec_many f 0 = (\<lambda>d. Some ([], d))" by (rule ext) simp
  then show ?case by (simp add: local_return)
next
  case (Suc n)
  have eq: "dec_many f (Suc n) = (\<lambda>d. f d \<bind> (\<lambda>(x, d). dec_many f n d \<bind> (\<lambda>(xs, d). Some (x # xs, d))))"
    by (rule ext) simp
  show ?case unfolding eq using Suc by (intro inv_intros) auto
qed

lemma local_counted [inv_intros]: "local_dec f \<Longrightarrow> local_dec (dec_counted f)"
  unfolding dec_counted_def [abs_def] by (intro inv_intros local_many)

context field_codec
begin

lemma dec_many_enc: "list_all ok xs \<Longrightarrow> unread d = concat (map enc xs) @ r \<Longrightarrow>
    dec_many dec (length xs) d = Some (xs, advance (length (concat (map enc xs))) d)"
proof (induction xs arbitrary: d)
  case (Cons x xs)
  from Cons.prems have "dec d = Some (x, advance (length (enc x)) d)" by (auto intro: dec_enc)
  moreover have "dec_many dec (length xs) (advance (length (enc x)) d)
      = Some (xs, advance (length (concat (map enc xs))) (advance (length (enc x)) d))"
    using Cons.prems by (intro Cons.IH) auto
  ultimately show ?case by simp
qed simp

lemma counted_codec: "field_codec (counted_frame enc) (dec_counted dec) (counted_ok ok)"
proof unfold_locales
  fix xs d r assume "counted_ok ok xs" and "unread d = counted_frame enc xs @ r"
  then show "dec_counted dec d = Some (xs, advance (length (counted_frame enc xs)) d)"
    unfolding dec_counted_def counted_frame_def counted_ok_def append_assoc
    by (elim conjE uint32_codec.dec_step) (simp_all add: unat_length32 dec_many_enc)
qed (intro local_counted dec_local)

end

lemma pair_codec:
  assumes "field_codec enc1 dec1 ok1" and "field_codec enc2 dec2 ok2"
  shows "field_codec (\<lambda>(x, y). enc1 x @ enc2 y)
    (\<lambda>d. dec1 d \<bind> (\<lambda>(x, d). dec2 d \<bind> (\<lambda>(y, d). Some ((x, y), d)))) (\<lambda>(x, y). ok1 x \<and> ok2 y)"
proof (rule field_codec.intro)
  show "local_dec (\<lambda>d. dec1 d \<bind> (\<lambda>(x, d). dec2 d \<bind> (\<lambda>(y, d). Some ((x, y), d))))"
    using assms by (intro inv_intros) (simp_all add: field_codec.dec_local)
  fix p d r
  assume "(\<lambda>(x, y). ok1 x \<and> ok2 y) p" and "unread d = (\<lambda>(x, y). enc1 x @ enc2 y) p @ r"
  then show "dec1 d \<bind> (\<lambda>(x, d). dec2 d \<bind> (\<lambda>(y, d). Some ((x, y), d)))
      = Some (p, advance (length ((\<lambda>(x, y). enc1 x @ enc2 y) p)) d)"
    by (cases p) (auto simp: field_codec.dec_enc [OF assms(1)] field_codec.dec_enc [OF assms(2)])
qed

section \<open>Response payloads\<close>

definition path_entry_frame :: "lookup_path_entry \<Rightarrow> bytes" where
  "path_entry_frame ent = put_string (lpe_layer_name ent) new_encoder @ put_uint8 (lpe_target_type ent) new_encoder
     @ put_guid (lpe_target_guid ent) new_encoder @ put_uint64 (lpe_sequence ent) new_encoder"

definition dec_path_entry :: "decoder \<Rightarrow> (lookup_path_entry \<times> decoder) option" where
  "dec_path_entry d = do {
     (layer, d) \<leftarrow> dec_string d;
     (ty, d) \<leftarrow> dec_uint8 d;
     (g, d) \<leftarrow> dec_guid d;
     (s, d) \<leftarrow> dec_uint64 d;
     Some (\<lparr>lpe_layer_name = layer, lpe_target_type = ty, lpe_target_guid = g, lpe_sequence = s\<rparr>, d) }"

definition path_entry_ok :: "lookup_path_entry \<Rightarrow> bool" where
  "path_entry_ok ent \<longleftrightarrow> length (lpe_layer_name ent) < 2 ^ 32 \<and> length (lpe_target_guid ent) = 16"

interpretation path_entry_codec: field_codec path_entry_frame dec_path_entry path_entry_ok
proof unfold_locales
  fix x d r assume "path_entry_ok x" and "unread d = path_entry_frame x @ r"
  then show "dec_path_entry d = Some (x, advance (length (path_entry_frame x)) d)"
    unfolding dec_path_entry_def path_entry_frame_def path_entry_ok_def append_assoc
    by (elim conjE dec_steps) (simp_all add: add.assoc)
qed (unfold dec_path_entry_def [abs_def], intro inv_intros)

interpretation path_entries_codec: field_codec "counted_frame path_entry_frame"
    "dec_counted dec_path_entry" "counted_ok path_entry_ok"
  by (rule path_entry_codec.counted_codec)

definition key_meta_frame :: "lookup_key_meta \<Rightarrow> bytes" where
  "key_meta_frame m = put_guid (lkm_guid m) new_encoder @ put_blob (lkm_sd m) new_encoder
     @ put_bool (lkm_volatile m) new_encoder @ put_bool (lkm_symlink m) new_encoder
     @ put_uint64 (lkm_last_write_time m) new_encoder"

definition dec_key_meta :: "decoder \<Rightarrow> (lookup_key_meta \<times> decoder) option" where
  "dec_key_meta d = do {
     (g, d) \<leftarrow> dec_guid d;
     (sd, d) \<leftarrow> dec_blob d;
     (v, d) \<leftarrow> dec_bool d;
     (s, d) \<leftarrow> dec_bool d;
     (t, d) \<leftarrow> dec_uint64 d;
     Some (\<lparr>lkm_guid = g, lkm_sd = sd, lkm_volatile = v, lkm_symlink = s, lkm_last_write_time = t\<rparr>, d) }"

definition key_meta_ok :: "lookup_key_meta \<Rightarrow> bool" where
  "key_meta_ok m \<longleftrightarrow> length (lkm_guid m) = 16 \<and> length (lkm_sd m) < 2 ^ 32"

interpretation key_meta_codec: field_codec key_meta_frame dec_key_meta key_meta_ok
proof unfold_locales
  fix x d r assume "key_meta_ok x" and "unread d = key_meta_frame x @ r"
  then show "dec_key_meta d = Some (x, advance (length (key_meta_frame x)) d)"
    unfolding dec_key_meta_def key_meta_frame_def key_meta_ok_def append_assoc
    by (elim conjE dec_steps) (simp_all add: add.assoc)
qed (unfold dec_key_meta_def [abs_def], intro inv_intros)

interpretation key_metadata_codec: field_codec "counted_frame key_meta_frame"
    "dec_counted dec_key_meta" "counted_ok key_meta_ok"
  by (rule key_meta_codec.counted_codec)


text \<open>The loops of the encoders append the counted frames of their lists.\<close>

lemma encode_path_entries_frame [codec_simps]:
  "encode_path_entries entries e = e @ counted_frame path_entry_frame entries"
proof -
  have "encode_path_entries_loop entries e' = e' @ concat (map path_entry_frame entries)" for e'
    by (induction entries arbitrary: e') (simp_all add: path_entry_frame_def put_defs)
  then show ?thesis by (simp add: encode_path_entries_def counted_frame_def put_defs)
qed

lemma encode_key_metadata_frame [codec_simps]:
  "encode_key_metadata meta e = e @ counted_frame key_meta_frame meta"
proof -
  have "encode_key_metadata_loop meta e' = e' @ concat (map key_meta_frame meta)" for e'
    by (induction meta arbitrary: e') (simp_all add: key_meta_frame_def put_defs)
  then show ?thesis by (simp add: encode_key_metadata_def counted_frame_def put_defs)
qed

definition dec_lookup_response ::
    "decoder \<Rightarrow> ((lookup_path_entry list \<times> lookup_key_meta list) \<times> decoder) option" where
  "dec_lookup_response d = dec_counted dec_path_entry d \<bind> (\<lambda>(entries, d).
     dec_counted dec_key_meta d \<bind> (\<lambda>(meta, d). Some ((entries, meta), d)))"

interpretation lookup_response_codec: field_codec
    "\<lambda>(entries, meta). encode_lookup_response entries meta new_encoder" dec_lookup_response
    "\<lambda>(entries, meta). counted_ok path_entry_ok entries \<and> counted_ok key_meta_ok meta"
  using pair_codec [OF path_entries_codec.field_codec_axioms key_metadata_codec.field_codec_axioms]
  by (simp add: encode_lookup_response_def dec_lookup_response_def [abs_def] codec_simps case_prod_unfold)

definition child_frame :: "enum_children_child \<Rightarrow> bytes" where
  "child_frame c = put_string (ecc_child_name c) new_encoder @ counted_frame path_entry_frame (ecc_entries c)"

definition dec_child :: "decoder \<Rightarrow> (enum_children_child \<times> decoder) option" where
  "dec_child d = do {
     (name, d) \<leftarrow> dec_string d;
     (entries, d) \<leftarrow> dec_counted dec_path_entry d;
     Some (\<lparr>ecc_child_name = name, ecc_entries = entries\<rparr>, d) }"

definition child_ok :: "enum_children_child \<Rightarrow> bool" where
  "child_ok c \<longleftrightarrow> length (ecc_child_name c) < 2 ^ 32 \<and> counted_ok path_entry_ok (ecc_entries c)"

interpretation child_codec: field_codec child_frame dec_child child_ok
proof unfold_locales
  fix x d r assume "child_ok x" and "unread d = child_frame x @ r"
  then show "dec_child d = Some (x, advance (length (child_frame x)) d)"
    unfolding dec_child_def child_frame_def child_ok_def append_assoc
    by (elim conjE dec_steps path_entries_codec.dec_step) (simp_all add: add.assoc)
qed (unfold dec_child_def [abs_def], intro inv_intros path_entry_codec.dec_local)

interpretation children_codec: field_codec "counted_frame child_frame" "dec_counted dec_child" "counted_ok child_ok"
  by (rule child_codec.counted_codec)

lemma encode_children_frame:
  "encode_children_loop children (put_uint32 (word_of_nat (length children)) e)
     = e @ counted_frame child_frame children"
proof -
  have "encode_children_loop children e' = e' @ concat (map child_frame children)" for e'
    by (induction children arbitrary: e') (simp_all add: child_frame_def encode_path_entries_frame put_defs)
  then show ?thesis by (simp add: counted_frame_def put_defs)
qed

definition dec_enum_children_response ::
    "decoder \<Rightarrow> ((enum_children_child list \<times> lookup_key_meta list) \<times> decoder) option" where
  "dec_enum_children_response d = dec_counted dec_child d \<bind> (\<lambda>(children, d).
     dec_counted dec_key_meta d \<bind> (\<lambda>(meta, d). Some ((children, meta), d)))"

interpretation enum_children_response_codec: field_codec
    "\<lambda>(children, meta). encode_enum_children_response children meta new_encoder" dec_enum_children_response
    "\<lambda>(children, meta). counted_ok child_ok children \<and> counted_ok key_meta_ok meta"
  using pair_codec [OF children_codec.field_codec_axioms key_metadata_codec.field_codec_axioms]
  by (simp add: encode_enum_children_response_def dec_enum_children_response_def [abs_def]
      encode_key_metadata_frame encode_children_frame new_encoder_def case_prod_unfold)

definition value_frame :: "query_values_entry \<Rightarrow> bytes" where
  "value_frame v = put_string (qve_value_name v) new_encoder @ put_string (qve_layer_name v) new_encoder
     @ put_uint32 (qve_type v) new_encoder @ put_blob (qve_data v) new_encoder
     @ put_uint64 (qve_sequence v) new_encoder"

definition dec_value :: "decoder \<Rightarrow> (query_values_entry \<times> decoder) option" where
  "dec_value d = do {
     (name, d) \<leftarrow> dec_string d;
     (layer, d) \<leftarrow> dec_string d;
     (ty, d) \<leftarrow> dec_uint32 d;
     (data, d) \<leftarrow> dec_blob d;
     (s, d) \<leftarrow> dec_uint64 d;
     Some (\<lparr>qve_value_name = name, qve_layer_name = layer, qve_type = ty, qve_data = data, qve_sequence = s\<rparr>, d) }"

definition value_ok :: "query_values_entry \<Rightarrow> bool" where
  "value_ok v \<longleftrightarrow> length (qve_value_name v) < 2 ^ 32 \<and> length (qve_layer_name v) < 2 ^ 32 \<and>
     length (qve_data v) < 2 ^ 32"

interpretation value_codec: field_codec value_frame dec_value value_ok
proof unfold_locales
  fix x d r assume "value_ok x" and "unread d = value_frame x @ r"
  then show "dec_value d = Some (x, advance (length (value_frame x)) d)"
    unfolding dec_value_def value_frame_def value_ok_def append_assoc
    by (elim conjE dec_steps) (simp_all add: add.assoc)
qed (unfold dec_value_def [abs_def], intro inv_intros)

definition blanket_frame :: "blanket_tombstone_entry \<Rightarrow> bytes" where
  "blanket_frame b = put_string (bte_layer_name b) new_encoder @ put_uint64 (bte_sequence b) new_encoder"

definition dec_blanket :: "decoder \<Rightarrow> (blanket_tombstone_entry \<times> decoder) option" where
  "dec_blanket d = do {
     (layer, d) \<leftarrow> dec_string d;
     (s, d) \<leftarrow> dec_uint64 d;
     Some (\<lparr>bte_layer_name = layer, bte_sequence = s\<rparr>, d) }"

definition blanket_ok :: "blanket_tombstone_entry \<Rightarrow> bool" where
  "blanket_ok b \<longleftrightarrow> length (bte_layer_name b) < 2 ^ 32"

interpretation blanket_codec: field_codec blanket_frame dec_blanket blanket_ok
proof unfold_locales
  fix x d r assume "blanket_ok x" and "unread d = blanket_frame x @ r"
  then show "dec_blanket d = Some (x, advance (length (blanket_frame x)) d)"
    unfolding dec_blanket_def blanket_frame_def blanket_ok_def append_assoc
    by (elim conjE dec_steps) (simp_all add: add.assoc)
qed (unfold dec_blanket_def [abs_def], intro inv_intros)

interpretation values_codec: field_codec "counted_frame value_frame" "dec_counted dec_value" "counted_ok value_ok"
  by (rule value_codec.counted_codec)

interpretation blankets_codec: field_codec "counted_frame blanket_frame" "dec_counted dec_blanket" "counted_ok blanket_ok"
  by (rule blanket_codec.counted_codec)

lemma encode_values_frame:
  "encode_values_loop entries (put_uint32 (word_of_nat (length entries)) e) = e @ counted_frame value_frame entries"
proof -
  have "encode_values_loop entries e' = e' @ concat (map value_frame entries)" for e'
    by (induction entries arbitrary: e') (simp_all add: value_frame_def put_defs)
  then show ?thesis by (simp add: counted_frame_def put_defs)
qed

lemma encode_blankets_frame:
  "encode_blankets_loop blankets (put_uint32 (word_of_nat (length blankets)) e) = e @ counted_frame blanket_frame blankets"
proof -
  have "encode_blankets_loop blankets e' = e' @ concat (map blanket_frame blankets)" for e'
    by (induction blankets arbitrary: e') (simp_all add: blanket_frame_def put_defs)
  then show ?thesis by (simp add: counted_frame_def put_defs)
qed

definition dec_query_values_response ::
    "decoder \<Rightarrow> ((query_values_entry list \<times> blanket_tombstone_entry list) \<times> decoder) option" where
  "dec_query_values_response d = dec_counted dec_value d \<bind> (\<lambda>(entries, d).
     dec_counted dec_blanket d \<bind> (\<lambda>(blankets, d). Some ((entries, blankets), d)))"

interpretation query_values_response_codec: field_codec
    "\<lambda>(entries, blankets). encode_query_values_response entries blankets new_encoder" dec_query_values_response
    "\<lambda>(entries, blankets). counted_ok value_ok entries \<and> counted_ok blanket_ok blankets"
  using pair_codec [OF values_codec.field_codec_axioms blankets_codec.field_codec_axioms]
  by (simp add: encode_query_values_response_def dec_query_values_response_def [abs_def] Let_def
      encode_values_frame encode_blankets_frame new_encoder_def case_prod_unfold)

lemma encode_guids_frame:
  "encode_delete_layer_response guids e = e @ counted_frame (\<lambda>g. put_guid g new_encoder) guids"
proof -
  have "encode_guids_loop guids e' = e' @ concat (map (\<lambda>g. put_guid g new_encoder) guids)" for e'
    by (induction guids arbitrary: e') (simp_all add: put_defs)
  then show ?thesis by (simp add: encode_delete_layer_response_def counted_frame_def put_defs)
qed

interpretation delete_layer_response_codec: field_codec
    "\<lambda>guids. encode_delete_layer_response guids new_encoder" "dec_counted dec_guid" "counted_ok (\<lambda>g. length g = 16)"
  using guid_codec.counted_codec by (simp add: encode_guids_frame new_encoder_def)

end
