(* ===== verification/Fold_Table.thy ===== *)
theory Fold_Table
  imports Main
begin

text \<open>
  The generated case-folding tables of \<open>internal/fold/casefold_table.go\<close> (Unicode 16.0.0,
  status C and S): every row, in the order of the source.  A rune is Go's \<open>int32\<close>, an
  integer here.  The pair table is cut into blocks of at most 150 rows only to keep the
  single definitions small; \<open>case_fold_pairs\<close> is the whole table.
\<close>

datatype case_fold_range = Rng (rng_start: int) (rng_end: int) (rng_mapped_start: int)

datatype case_fold_pair = Fp (fp_source: int) (fp_target: int)

definition case_fold_mappings :: nat where "case_fold_mappings = 1484"

definition case_fold_ranges :: "case_fold_range list" where
  "case_fold_ranges =
  [Rng 0x0041 0x005A 0x0061, Rng 0x00C0 0x00D6 0x00E0, Rng 0x00D8 0x00DE 0x00F8,
   Rng 0x0388 0x038A 0x03AD, Rng 0x0391 0x03A1 0x03B1, Rng 0x03A3 0x03AB 0x03C3,
   Rng 0x03FD 0x03FF 0x037B, Rng 0x0400 0x040F 0x0450, Rng 0x0410 0x042F 0x0430,
   Rng 0x0531 0x0556 0x0561, Rng 0x10A0 0x10C5 0x2D00, Rng 0x13F8 0x13FD 0x13F0,
   Rng 0x1C90 0x1CBA 0x10D0, Rng 0x1CBD 0x1CBF 0x10FD, Rng 0x1F08 0x1F0F 0x1F00,
   Rng 0x1F18 0x1F1D 0x1F10, Rng 0x1F28 0x1F2F 0x1F20, Rng 0x1F38 0x1F3F 0x1F30,
   Rng 0x1F48 0x1F4D 0x1F40, Rng 0x1F68 0x1F6F 0x1F60, Rng 0x1F88 0x1F8F 0x1F80,
   Rng 0x1F98 0x1F9F 0x1F90, Rng 0x1FA8 0x1FAF 0x1FA0, Rng 0x1FC8 0x1FCB 0x1F72,
   Rng 0x2160 0x216F 0x2170, Rng 0x24B6 0x24CF 0x24D0, Rng 0x2C00 0x2C2F 0x2C30,
   Rng 0xAB70 0xABBF 0x13A0, Rng 0xFF21 0xFF3A 0xFF41, Rng 0x10400 0x10427 0x10428,
   Rng 0x104B0 0x104D3 0x104D8, Rng 0x10570 0x1057A 0x10597, Rng 0x1057C 0x1058A 0x105A3,
   Rng 0x1058C 0x10592 0x105B3, Rng 0x10C80 0x10CB2 0x10CC0, Rng 0x10D50 0x10D65 0x10D70,
   Rng 0x118A0 0x118BF 0x118C0, Rng 0x16E40 0x16E5F 0x16E60, Rng 0x1E900 0x1E921 0x1E922]"

definition case_fold_pairs_1 :: "case_fold_pair list" where
  "case_fold_pairs_1 =
  [Fp 0x00B5 0x03BC, Fp 0x0100 0x0101, Fp 0x0102 0x0103, Fp 0x0104 0x0105, Fp 0x0106 0x0107,
   Fp 0x0108 0x0109, Fp 0x010A 0x010B, Fp 0x010C 0x010D, Fp 0x010E 0x010F, Fp 0x0110 0x0111,
   Fp 0x0112 0x0113, Fp 0x0114 0x0115, Fp 0x0116 0x0117, Fp 0x0118 0x0119, Fp 0x011A 0x011B,
   Fp 0x011C 0x011D, Fp 0x011E 0x011F, Fp 0x0120 0x0121, Fp 0x0122 0x0123, Fp 0x0124 0x0125,
   Fp 0x0126 0x0127, Fp 0x0128 0x0129, Fp 0x012A 0x012B, Fp 0x012C 0x012D, Fp 0x012E 0x012F,
   Fp 0x0132 0x0133, Fp 0x0134 0x0135, Fp 0x0136 0x0137, Fp 0x0139 0x013A, Fp 0x013B 0x013C,
   Fp 0x013D 0x013E, Fp 0x013F 0x0140, Fp 0x0141 0x0142, Fp 0x0143 0x0144, Fp 0x0145 0x0146,
   Fp 0x0147 0x0148, Fp 0x014A 0x014B, Fp 0x014C 0x014D, Fp 0x014E 0x014F, Fp 0x0150 0x0151,
   Fp 0x0152 0x0153, Fp 0x0154 0x0155, Fp 0x0156 0x0157, Fp 0x0158 0x0159, Fp 0x015A 0x015B,
   Fp 0x015C 0x015D, Fp 0x015E 0x015F, Fp 0x0160 0x0161, Fp 0x0162 0x0163, Fp 0x0164 0x0165,
   Fp 0x0166 0x0167, Fp 0x0168 0x0169, Fp 0x016A 0x016B, Fp 0x016C 0x016D, Fp 0x016E 0x016F,
   Fp 0x0170 0x0171, Fp 0x0172 0x0173, Fp 0x0174 0x0175, Fp 0x0176 0x0177, Fp 0x0178 0x00FF,
   Fp 0x0179 0x017A, Fp 0x017B 0x017C, Fp 0x017D 0x017E, Fp 0x017F 0x0073, Fp 0x0181 0x0253,
   Fp 0x0182 0x0183, Fp 0x0184 0x0185, Fp 0x0186 0x0254, Fp 0x0187 0x0188, Fp 0x0189 0x0256,
   Fp 0x018A 0x0257, Fp 0x018B 0x018C, Fp 0x018E 0x01DD, Fp 0x018F 0x0259, Fp 0x0190 0x025B,
   Fp 0x0191 0x0192, Fp 0x0193 0x0260, Fp 0x0194 0x0263, Fp 0x0196 0x0269, Fp 0x0197 0x0268,
   Fp 0x0198 0x0199, Fp 0x019C 0x026F, Fp 0x019D 0x0272, Fp 0x019F 0x0275, Fp 0x01A0 0x01A1,
   Fp 0x01A2 0x01A3, Fp 0x01A4 0x01A5, Fp 0x01A6 0x0280, Fp 0x01A7 0x01A8, Fp 0x01A9 0x0283,
   Fp 0x01AC 0x01AD, Fp 0x01AE 0x0288, Fp 0x01AF 0x01B0, Fp 0x01B1 0x028A, Fp 0x01B2 0x028B,
   Fp 0x01B3 0x01B4, Fp 0x01B5 0x01B6, Fp 0x01B7 0x0292, Fp 0x01B8 0x01B9, Fp 0x01BC 0x01BD,
   Fp 0x01C4 0x01C6, Fp 0x01C5 0x01C6, Fp 0x01C7 0x01C9, Fp 0x01C8 0x01C9, Fp 0x01CA 0x01CC,
   Fp 0x01CB 0x01CC, Fp 0x01CD 0x01CE, Fp 0x01CF 0x01D0, Fp 0x01D1 0x01D2, Fp 0x01D3 0x01D4,
   Fp 0x01D5 0x01D6, Fp 0x01D7 0x01D8, Fp 0x01D9 0x01DA, Fp 0x01DB 0x01DC, Fp 0x01DE 0x01DF,
   Fp 0x01E0 0x01E1, Fp 0x01E2 0x01E3, Fp 0x01E4 0x01E5, Fp 0x01E6 0x01E7, Fp 0x01E8 0x01E9,
   Fp 0x01EA 0x01EB, Fp 0x01EC 0x01ED, Fp 0x01EE 0x01EF, Fp 0x01F1 0x01F3, Fp 0x01F2 0x01F3,
   Fp 0x01F4 0x01F5, Fp 0x01F6 0x0195, Fp 0x01F7 0x01BF, Fp 0x01F8 0x01F9, Fp 0x01FA 0x01FB,
   Fp 0x01FC 0x01FD, Fp 0x01FE 0x01FF, Fp 0x0200 0x0201, Fp 0x0202 0x0203, Fp 0x0204 0x0205,
   Fp 0x0206 0x0207, Fp 0x0208 0x0209, Fp 0x020A 0x020B, Fp 0x020C 0x020D, Fp 0x020E 0x020F,
   Fp 0x0210 0x0211, Fp 0x0212 0x0213, Fp 0x0214 0x0215, Fp 0x0216 0x0217, Fp 0x0218 0x0219,
   Fp 0x021A 0x021B, Fp 0x021C 0x021D, Fp 0x021E 0x021F]"

definition case_fold_pairs_2 :: "case_fold_pair list" where
  "case_fold_pairs_2 =
  [Fp 0x0220 0x019E, Fp 0x0222 0x0223, Fp 0x0224 0x0225, Fp 0x0226 0x0227, Fp 0x0228 0x0229,
   Fp 0x022A 0x022B, Fp 0x022C 0x022D, Fp 0x022E 0x022F, Fp 0x0230 0x0231, Fp 0x0232 0x0233,
   Fp 0x023A 0x2C65, Fp 0x023B 0x023C, Fp 0x023D 0x019A, Fp 0x023E 0x2C66, Fp 0x0241 0x0242,
   Fp 0x0243 0x0180, Fp 0x0244 0x0289, Fp 0x0245 0x028C, Fp 0x0246 0x0247, Fp 0x0248 0x0249,
   Fp 0x024A 0x024B, Fp 0x024C 0x024D, Fp 0x024E 0x024F, Fp 0x0345 0x03B9, Fp 0x0370 0x0371,
   Fp 0x0372 0x0373, Fp 0x0376 0x0377, Fp 0x037F 0x03F3, Fp 0x0386 0x03AC, Fp 0x038C 0x03CC,
   Fp 0x038E 0x03CD, Fp 0x038F 0x03CE, Fp 0x03C2 0x03C3, Fp 0x03CF 0x03D7, Fp 0x03D0 0x03B2,
   Fp 0x03D1 0x03B8, Fp 0x03D5 0x03C6, Fp 0x03D6 0x03C0, Fp 0x03D8 0x03D9, Fp 0x03DA 0x03DB,
   Fp 0x03DC 0x03DD, Fp 0x03DE 0x03DF, Fp 0x03E0 0x03E1, Fp 0x03E2 0x03E3, Fp 0x03E4 0x03E5,
   Fp 0x03E6 0x03E7, Fp 0x03E8 0x03E9, Fp 0x03EA 0x03EB, Fp 0x03EC 0x03ED, Fp 0x03EE 0x03EF,
   Fp 0x03F0 0x03BA, Fp 0x03F1 0x03C1, Fp 0x03F4 0x03B8, Fp 0x03F5 0x03B5, Fp 0x03F7 0x03F8,
   Fp 0x03F9 0x03F2, Fp 0x03FA 0x03FB, Fp 0x0460 0x0461, Fp 0x0462 0x0463, Fp 0x0464 0x0465,
   Fp 0x0466 0x0467, Fp 0x0468 0x0469, Fp 0x046A 0x046B, Fp 0x046C 0x046D, Fp 0x046E 0x046F,
   Fp 0x0470 0x0471, Fp 0x0472 0x0473, Fp 0x0474 0x0475, Fp 0x0476 0x0477, Fp 0x0478 0x0479,
   Fp 0x047A 0x047B, Fp 0x047C 0x047D, Fp 0x047E 0x047F, Fp 0x0480 0x0481, Fp 0x048A 0x048B,
   Fp 0x048C 0x048D, Fp 0x048E 0x048F, Fp 0x0490 0x0491, Fp 0x0492 0x0493, Fp 0x0494 0x0495,
   Fp 0x0496 0x0497, Fp 0x0498 0x0499, Fp 0x049A 0x049B, Fp 0x049C 0x049D, Fp 0x049E 0x049F,
   Fp 0x04A0 0x04A1, Fp 0x04A2 0x04A3, Fp 0x04A4 0x04A5, Fp 0x04A6 0x04A7, Fp 0x04A8 0x04A9,
   Fp 0x04AA 0x04AB, Fp 0x04AC 0x04AD, Fp 0x04AE 0x04AF, Fp 0x04B0 0x04B1, Fp 0x04B2 0x04B3,
   Fp 0x04B4 0x04B5, Fp 0x04B6 0x04B7, Fp 0x04B8 0x04B9, Fp 0x04BA 0x04BB, Fp 0x04BC 0x04BD,
   Fp 0x04BE 0x04BF, Fp 0x04C0 0x04CF, Fp 0x04C1 0x04C2, Fp 0x04C3 0x04C4, Fp 0x04C5 0x04C6,
   Fp 0x04C7 0x04C8, Fp 0x04C9 0x04CA, Fp 0x04CB 0x04CC, Fp 0x04CD 0x04CE, Fp 0x04D0 0x04D1,
   Fp 0x04D2 0x04D3, Fp 0x04D4 0x04D5, Fp 0x04D6 0x04D7, Fp 0x04D8 0x04D9, Fp 0x04DA 0x04DB,
   Fp 0x04DC 0x04DD, Fp 0x04DE 0x04DF, Fp 0x04E0 0x04E1, Fp 0x04E2 0x04E3, Fp 0x04E4 0x04E5,
   Fp 0x04E6 0x04E7, Fp 0x04E8 0x04E9, Fp 0x04EA 0x04EB, Fp 0x04EC 0x04ED, Fp 0x04EE 0x04EF,
   Fp 0x04F0 0x04F1, Fp 0x04F2 0x04F3, Fp 0x04F4 0x04F5, Fp 0x04F6 0x04F7, Fp 0x04F8 0x04F9,
   Fp 0x04FA 0x04FB, Fp 0x04FC 0x04FD, Fp 0x04FE 0x04FF, Fp 0x0500 0x0501, Fp 0x0502 0x0503,
   Fp 0x0504 0x0505, Fp 0x0506 0x0507, Fp 0x0508 0x0509, Fp 0x050A 0x050B, Fp 0x050C 0x050D,
   Fp 0x050E 0x050F, Fp 0x0510 0x0511, Fp 0x0512 0x0513, Fp 0x0514 0x0515, Fp 0x0516 0x0517,
   Fp 0x0518 0x0519, Fp 0x051A 0x051B, Fp 0x051C 0x051D]"

definition case_fold_pairs_3 :: "case_fold_pair list" where
  "case_fold_pairs_3 =
  [Fp 0x051E 0x051F, Fp 0x0520 0x0521, Fp 0x0522 0x0523, Fp 0x0524 0x0525, Fp 0x0526 0x0527,
   Fp 0x0528 0x0529, Fp 0x052A 0x052B, Fp 0x052C 0x052D, Fp 0x052E 0x052F, Fp 0x10C7 0x2D27,
   Fp 0x10CD 0x2D2D, Fp 0x1C80 0x0432, Fp 0x1C81 0x0434, Fp 0x1C82 0x043E, Fp 0x1C83 0x0441,
   Fp 0x1C84 0x0442, Fp 0x1C85 0x0442, Fp 0x1C86 0x044A, Fp 0x1C87 0x0463, Fp 0x1C88 0xA64B,
   Fp 0x1C89 0x1C8A, Fp 0x1E00 0x1E01, Fp 0x1E02 0x1E03, Fp 0x1E04 0x1E05, Fp 0x1E06 0x1E07,
   Fp 0x1E08 0x1E09, Fp 0x1E0A 0x1E0B, Fp 0x1E0C 0x1E0D, Fp 0x1E0E 0x1E0F, Fp 0x1E10 0x1E11,
   Fp 0x1E12 0x1E13, Fp 0x1E14 0x1E15, Fp 0x1E16 0x1E17, Fp 0x1E18 0x1E19, Fp 0x1E1A 0x1E1B,
   Fp 0x1E1C 0x1E1D, Fp 0x1E1E 0x1E1F, Fp 0x1E20 0x1E21, Fp 0x1E22 0x1E23, Fp 0x1E24 0x1E25,
   Fp 0x1E26 0x1E27, Fp 0x1E28 0x1E29, Fp 0x1E2A 0x1E2B, Fp 0x1E2C 0x1E2D, Fp 0x1E2E 0x1E2F,
   Fp 0x1E30 0x1E31, Fp 0x1E32 0x1E33, Fp 0x1E34 0x1E35, Fp 0x1E36 0x1E37, Fp 0x1E38 0x1E39,
   Fp 0x1E3A 0x1E3B, Fp 0x1E3C 0x1E3D, Fp 0x1E3E 0x1E3F, Fp 0x1E40 0x1E41, Fp 0x1E42 0x1E43,
   Fp 0x1E44 0x1E45, Fp 0x1E46 0x1E47, Fp 0x1E48 0x1E49, Fp 0x1E4A 0x1E4B, Fp 0x1E4C 0x1E4D,
   Fp 0x1E4E 0x1E4F, Fp 0x1E50 0x1E51, Fp 0x1E52 0x1E53, Fp 0x1E54 0x1E55, Fp 0x1E56 0x1E57,
   Fp 0x1E58 0x1E59, Fp 0x1E5A 0x1E5B, Fp 0x1E5C 0x1E5D, Fp 0x1E5E 0x1E5F, Fp 0x1E60 0x1E61,
   Fp 0x1E62 0x1E63, Fp 0x1E64 0x1E65, Fp 0x1E66 0x1E67, Fp 0x1E68 0x1E69, Fp 0x1E6A 0x1E6B,
   Fp 0x1E6C 0x1E6D, Fp 0x1E6E 0x1E6F, Fp 0x1E70 0x1E71, Fp 0x1E72 0x1E73, Fp 0x1E74 0x1E75,
   Fp 0x1E76 0x1E77, Fp 0x1E78 0x1E79, Fp 0x1E7A 0x1E7B, Fp 0x1E7C 0x1E7D, Fp 0x1E7E 0x1E7F,
   Fp 0x1E80 0x1E81, Fp 0x1E82 0x1E83, Fp 0x1E84 0x1E85, Fp 0x1E86 0x1E87, Fp 0x1E88 0x1E89,
   Fp 0x1E8A 0x1E8B, Fp 0x1E8C 0x1E8D, Fp 0x1E8E 0x1E8F, Fp 0x1E90 0x1E91, Fp 0x1E92 0x1E93,
   Fp 0x1E94 0x1E95, Fp 0x1E9B 0x1E61, Fp 0x1E9E 0x00DF, Fp 0x1EA0 0x1EA1, Fp 0x1EA2 0x1EA3,
   Fp 0x1EA4 0x1EA5, Fp 0x1EA6 0x1EA7, Fp 0x1EA8 0x1EA9, Fp 0x1EAA 0x1EAB, Fp 0x1EAC 0x1EAD,
   Fp 0x1EAE 0x1EAF, Fp 0x1EB0 0x1EB1, Fp 0x1EB2 0x1EB3, Fp 0x1EB4 0x1EB5, Fp 0x1EB6 0x1EB7,
   Fp 0x1EB8 0x1EB9, Fp 0x1EBA 0x1EBB, Fp 0x1EBC 0x1EBD, Fp 0x1EBE 0x1EBF, Fp 0x1EC0 0x1EC1,
   Fp 0x1EC2 0x1EC3, Fp 0x1EC4 0x1EC5, Fp 0x1EC6 0x1EC7, Fp 0x1EC8 0x1EC9, Fp 0x1ECA 0x1ECB,
   Fp 0x1ECC 0x1ECD, Fp 0x1ECE 0x1ECF, Fp 0x1ED0 0x1ED1, Fp 0x1ED2 0x1ED3, Fp 0x1ED4 0x1ED5,
   Fp 0x1ED6 0x1ED7, Fp 0x1ED8 0x1ED9, Fp 0x1EDA 0x1EDB, Fp 0x1EDC 0x1EDD, Fp 0x1EDE 0x1EDF,
   Fp 0x1EE0 0x1EE1, Fp 0x1EE2 0x1EE3, Fp 0x1EE4 0x1EE5, Fp 0x1EE6 0x1EE7, Fp 0x1EE8 0x1EE9,
   Fp 0x1EEA 0x1EEB, Fp 0x1EEC 0x1EED, Fp 0x1EEE 0x1EEF, Fp 0x1EF0 0x1EF1, Fp 0x1EF2 0x1EF3,
   Fp 0x1EF4 0x1EF5, Fp 0x1EF6 0x1EF7, Fp 0x1EF8 0x1EF9, Fp 0x1EFA 0x1EFB, Fp 0x1EFC 0x1EFD,
   Fp 0x1EFE 0x1EFF, Fp 0x1F59 0x1F51, Fp 0x1F5B 0x1F53]"

definition case_fold_pairs_4 :: "case_fold_pair list" where
  "case_fold_pairs_4 =
  [Fp 0x1F5D 0x1F55, Fp 0x1F5F 0x1F57, Fp 0x1FB8 0x1FB0, Fp 0x1FB9 0x1FB1, Fp 0x1FBA 0x1F70,
   Fp 0x1FBB 0x1F71, Fp 0x1FBC 0x1FB3, Fp 0x1FBE 0x03B9, Fp 0x1FCC 0x1FC3, Fp 0x1FD3 0x0390,
   Fp 0x1FD8 0x1FD0, Fp 0x1FD9 0x1FD1, Fp 0x1FDA 0x1F76, Fp 0x1FDB 0x1F77, Fp 0x1FE3 0x03B0,
   Fp 0x1FE8 0x1FE0, Fp 0x1FE9 0x1FE1, Fp 0x1FEA 0x1F7A, Fp 0x1FEB 0x1F7B, Fp 0x1FEC 0x1FE5,
   Fp 0x1FF8 0x1F78, Fp 0x1FF9 0x1F79, Fp 0x1FFA 0x1F7C, Fp 0x1FFB 0x1F7D, Fp 0x1FFC 0x1FF3,
   Fp 0x2126 0x03C9, Fp 0x212A 0x006B, Fp 0x212B 0x00E5, Fp 0x2132 0x214E, Fp 0x2183 0x2184,
   Fp 0x2C60 0x2C61, Fp 0x2C62 0x026B, Fp 0x2C63 0x1D7D, Fp 0x2C64 0x027D, Fp 0x2C67 0x2C68,
   Fp 0x2C69 0x2C6A, Fp 0x2C6B 0x2C6C, Fp 0x2C6D 0x0251, Fp 0x2C6E 0x0271, Fp 0x2C6F 0x0250,
   Fp 0x2C70 0x0252, Fp 0x2C72 0x2C73, Fp 0x2C75 0x2C76, Fp 0x2C7E 0x023F, Fp 0x2C7F 0x0240,
   Fp 0x2C80 0x2C81, Fp 0x2C82 0x2C83, Fp 0x2C84 0x2C85, Fp 0x2C86 0x2C87, Fp 0x2C88 0x2C89,
   Fp 0x2C8A 0x2C8B, Fp 0x2C8C 0x2C8D, Fp 0x2C8E 0x2C8F, Fp 0x2C90 0x2C91, Fp 0x2C92 0x2C93,
   Fp 0x2C94 0x2C95, Fp 0x2C96 0x2C97, Fp 0x2C98 0x2C99, Fp 0x2C9A 0x2C9B, Fp 0x2C9C 0x2C9D,
   Fp 0x2C9E 0x2C9F, Fp 0x2CA0 0x2CA1, Fp 0x2CA2 0x2CA3, Fp 0x2CA4 0x2CA5, Fp 0x2CA6 0x2CA7,
   Fp 0x2CA8 0x2CA9, Fp 0x2CAA 0x2CAB, Fp 0x2CAC 0x2CAD, Fp 0x2CAE 0x2CAF, Fp 0x2CB0 0x2CB1,
   Fp 0x2CB2 0x2CB3, Fp 0x2CB4 0x2CB5, Fp 0x2CB6 0x2CB7, Fp 0x2CB8 0x2CB9, Fp 0x2CBA 0x2CBB,
   Fp 0x2CBC 0x2CBD, Fp 0x2CBE 0x2CBF, Fp 0x2CC0 0x2CC1, Fp 0x2CC2 0x2CC3, Fp 0x2CC4 0x2CC5,
   Fp 0x2CC6 0x2CC7, Fp 0x2CC8 0x2CC9, Fp 0x2CCA 0x2CCB, Fp 0x2CCC 0x2CCD, Fp 0x2CCE 0x2CCF,
   Fp 0x2CD0 0x2CD1, Fp 0x2CD2 0x2CD3, Fp 0x2CD4 0x2CD5, Fp 0x2CD6 0x2CD7, Fp 0x2CD8 0x2CD9,
   Fp 0x2CDA 0x2CDB, Fp 0x2CDC 0x2CDD, Fp 0x2CDE 0x2CDF, Fp 0x2CE0 0x2CE1, Fp 0x2CE2 0x2CE3,
   Fp 0x2CEB 0x2CEC, Fp 0x2CED 0x2CEE, Fp 0x2CF2 0x2CF3, Fp 0xA640 0xA641, Fp 0xA642 0xA643,
   Fp 0xA644 0xA645, Fp 0xA646 0xA647, Fp 0xA648 0xA649, Fp 0xA64A 0xA64B, Fp 0xA64C 0xA64D,
   Fp 0xA64E 0xA64F, Fp 0xA650 0xA651, Fp 0xA652 0xA653, Fp 0xA654 0xA655, Fp 0xA656 0xA657,
   Fp 0xA658 0xA659, Fp 0xA65A 0xA65B, Fp 0xA65C 0xA65D, Fp 0xA65E 0xA65F, Fp 0xA660 0xA661,
   Fp 0xA662 0xA663, Fp 0xA664 0xA665, Fp 0xA666 0xA667, Fp 0xA668 0xA669, Fp 0xA66A 0xA66B,
   Fp 0xA66C 0xA66D, Fp 0xA680 0xA681, Fp 0xA682 0xA683, Fp 0xA684 0xA685, Fp 0xA686 0xA687,
   Fp 0xA688 0xA689, Fp 0xA68A 0xA68B, Fp 0xA68C 0xA68D, Fp 0xA68E 0xA68F, Fp 0xA690 0xA691,
   Fp 0xA692 0xA693, Fp 0xA694 0xA695, Fp 0xA696 0xA697, Fp 0xA698 0xA699, Fp 0xA69A 0xA69B,
   Fp 0xA722 0xA723, Fp 0xA724 0xA725, Fp 0xA726 0xA727, Fp 0xA728 0xA729, Fp 0xA72A 0xA72B,
   Fp 0xA72C 0xA72D, Fp 0xA72E 0xA72F, Fp 0xA732 0xA733, Fp 0xA734 0xA735, Fp 0xA736 0xA737,
   Fp 0xA738 0xA739, Fp 0xA73A 0xA73B, Fp 0xA73C 0xA73D]"

definition case_fold_pairs_5 :: "case_fold_pair list" where
  "case_fold_pairs_5 =
  [Fp 0xA73E 0xA73F, Fp 0xA740 0xA741, Fp 0xA742 0xA743, Fp 0xA744 0xA745, Fp 0xA746 0xA747,
   Fp 0xA748 0xA749, Fp 0xA74A 0xA74B, Fp 0xA74C 0xA74D, Fp 0xA74E 0xA74F, Fp 0xA750 0xA751,
   Fp 0xA752 0xA753, Fp 0xA754 0xA755, Fp 0xA756 0xA757, Fp 0xA758 0xA759, Fp 0xA75A 0xA75B,
   Fp 0xA75C 0xA75D, Fp 0xA75E 0xA75F, Fp 0xA760 0xA761, Fp 0xA762 0xA763, Fp 0xA764 0xA765,
   Fp 0xA766 0xA767, Fp 0xA768 0xA769, Fp 0xA76A 0xA76B, Fp 0xA76C 0xA76D, Fp 0xA76E 0xA76F,
   Fp 0xA779 0xA77A, Fp 0xA77B 0xA77C, Fp 0xA77D 0x1D79, Fp 0xA77E 0xA77F, Fp 0xA780 0xA781,
   Fp 0xA782 0xA783, Fp 0xA784 0xA785, Fp 0xA786 0xA787, Fp 0xA78B 0xA78C, Fp 0xA78D 0x0265,
   Fp 0xA790 0xA791, Fp 0xA792 0xA793, Fp 0xA796 0xA797, Fp 0xA798 0xA799, Fp 0xA79A 0xA79B,
   Fp 0xA79C 0xA79D, Fp 0xA79E 0xA79F, Fp 0xA7A0 0xA7A1, Fp 0xA7A2 0xA7A3, Fp 0xA7A4 0xA7A5,
   Fp 0xA7A6 0xA7A7, Fp 0xA7A8 0xA7A9, Fp 0xA7AA 0x0266, Fp 0xA7AB 0x025C, Fp 0xA7AC 0x0261,
   Fp 0xA7AD 0x026C, Fp 0xA7AE 0x026A, Fp 0xA7B0 0x029E, Fp 0xA7B1 0x0287, Fp 0xA7B2 0x029D,
   Fp 0xA7B3 0xAB53, Fp 0xA7B4 0xA7B5, Fp 0xA7B6 0xA7B7, Fp 0xA7B8 0xA7B9, Fp 0xA7BA 0xA7BB,
   Fp 0xA7BC 0xA7BD, Fp 0xA7BE 0xA7BF, Fp 0xA7C0 0xA7C1, Fp 0xA7C2 0xA7C3, Fp 0xA7C4 0xA794,
   Fp 0xA7C5 0x0282, Fp 0xA7C6 0x1D8E, Fp 0xA7C7 0xA7C8, Fp 0xA7C9 0xA7CA, Fp 0xA7CB 0x0264,
   Fp 0xA7CC 0xA7CD, Fp 0xA7D0 0xA7D1, Fp 0xA7D6 0xA7D7, Fp 0xA7D8 0xA7D9, Fp 0xA7DA 0xA7DB,
   Fp 0xA7DC 0x019B, Fp 0xA7F5 0xA7F6, Fp 0xFB05 0xFB06, Fp 0x10594 0x105BB, Fp 0x10595 0x105BC]"

definition case_fold_pairs :: "case_fold_pair list" where
  "case_fold_pairs = case_fold_pairs_1 @ case_fold_pairs_2 @ case_fold_pairs_3 @ case_fold_pairs_4 @ case_fold_pairs_5"

end
