(* ===== verification/Fold.thy ===== *)
theory Fold
  imports Prelude Fold_Table
begin

text \<open>
  Unicode simple case folding: \<open>internal/fold/fold.go\<close>.  \<open>Rune\<close> is the two binary
  searches of the source; \<open>String\<close> ranges over the runes of a Go string and re-encodes
  them, so Go's UTF-8 decoding (an invalid byte reads as U+FFFD and has width 1) and
  encoding are modelled too.  The lemmas show that the binary searches find exactly the
  rows of the tables, that folding is idempotent, and what it identifies.
\<close>

section \<open>Rune: the two binary searches\<close>

function search_ranges :: "case_fold_range list \<Rightarrow> int \<Rightarrow> nat \<Rightarrow> nat \<Rightarrow> int option" where
  "search_ranges tbl r lo hi =
     (if lo < hi then
        let mid = lo + (hi - lo) div 2; rg = tbl ! mid in
        if r < rng_start rg then search_ranges tbl r lo mid
        else if r > rng_end rg then search_ranges tbl r (mid + 1) hi
        else Some (rng_mapped_start rg + (r - rng_start rg))
      else None)"
  by pat_completeness auto
termination
  by (relation "measure (\<lambda>(tbl, r, lo, hi). hi - lo)") auto

function search_pairs :: "case_fold_pair list \<Rightarrow> int \<Rightarrow> nat \<Rightarrow> nat \<Rightarrow> int option" where
  "search_pairs tbl r lo hi =
     (if lo < hi then
        let mid = lo + (hi - lo) div 2; p = tbl ! mid in
        if r < fp_source p then search_pairs tbl r lo mid
        else if r > fp_source p then search_pairs tbl r (mid + 1) hi
        else Some (fp_target p)
      else None)"
  by pat_completeness auto
termination
  by (relation "measure (\<lambda>(tbl, r, lo, hi). hi - lo)") auto

declare search_ranges.simps [simp del] search_pairs.simps [simp del]

definition rune :: "int \<Rightarrow> int" where
  "rune r =
     (case search_ranges case_fold_ranges r 0 (length case_fold_ranges) of
        Some m \<Rightarrow> m
      | None \<Rightarrow>
          (case search_pairs case_fold_pairs r 0 (length case_fold_pairs) of
             Some t \<Rightarrow> t
           | None \<Rightarrow> r))"

section \<open>Go strings as runes\<close>

definition rune_error :: int where "rune_error = 0xFFFD"

definition cont_byte :: "byte \<Rightarrow> bool" where
  "cont_byte b \<longleftrightarrow> 0x80 \<le> uint b \<and> uint b \<le> 0xBF"

definition in_byte_range :: "int \<Rightarrow> int \<Rightarrow> byte \<Rightarrow> bool" where
  "in_byte_range lo hi b \<longleftrightarrow> lo \<le> uint b \<and> uint b \<le> hi"

text \<open>The first rune of a non-empty string and its width, as \<open>range\<close> over a string reads it.\<close>

fun decode_rune :: "bytes \<Rightarrow> int \<times> nat" where
  "decode_rune [] = (rune_error, 0)"
| "decode_rune (b0 # bs) =
     (let x = uint b0 in
      if x < 0x80 then (x, 1)
      else if 0xC2 \<le> x \<and> x \<le> 0xDF then
        (case bs of
           b1 # _ \<Rightarrow> if cont_byte b1 then ((x - 0xC0) * 0x40 + (uint b1 - 0x80), 2) else (rune_error, 1)
         | _ \<Rightarrow> (rune_error, 1))
      else if 0xE0 \<le> x \<and> x \<le> 0xEF then
        (case bs of
           b1 # b2 # _ \<Rightarrow>
             if in_byte_range (if x = 0xE0 then 0xA0 else 0x80) (if x = 0xED then 0x9F else 0xBF) b1 \<and> cont_byte b2
             then ((x - 0xE0) * 0x1000 + (uint b1 - 0x80) * 0x40 + (uint b2 - 0x80), 3)
             else (rune_error, 1)
         | _ \<Rightarrow> (rune_error, 1))
      else if 0xF0 \<le> x \<and> x \<le> 0xF4 then
        (case bs of
           b1 # b2 # b3 # _ \<Rightarrow>
             if in_byte_range (if x = 0xF0 then 0x90 else 0x80) (if x = 0xF4 then 0x8F else 0xBF) b1
                \<and> cont_byte b2 \<and> cont_byte b3
             then ((x - 0xF0) * 0x40000 + (uint b1 - 0x80) * 0x1000 + (uint b2 - 0x80) * 0x40 + (uint b3 - 0x80), 4)
             else (rune_error, 1)
         | _ \<Rightarrow> (rune_error, 1))
      else (rune_error, 1))"

lemma decode_rune_width: "bs \<noteq> [] \<Longrightarrow> 0 < snd (decode_rune bs)"
  by (cases bs) (auto simp: Let_def split: list.splits)

function runes :: "bytes \<Rightarrow> int list" where
  "runes bs = (if bs = [] then []
     else let (r, w) = decode_rune bs in r # runes (drop w bs))"
  by pat_completeness auto
termination
proof (relation "measure length")
  fix bs :: bytes and p r w assume "bs \<noteq> []" and "p = decode_rune bs" and "(r, w) = p"
  then have "0 < w" using decode_rune_width [of bs] by (metis snd_conv)
  with \<open>bs \<noteq> []\<close> show "(drop w bs, bs) \<in> measure length" by (cases bs) auto
qed simp

declare runes.simps [simp del]

definition scalar :: "int \<Rightarrow> bool" where
  "scalar r \<longleftrightarrow> 0 \<le> r \<and> r \<le> 0x10FFFF \<and> \<not> (0xD800 \<le> r \<and> r \<le> 0xDFFF)"

text \<open>The bytes \<open>string([]rune{r})\<close> has for one rune; a rune that is no scalar value becomes U+FFFD.\<close>

definition encode_rune :: "int \<Rightarrow> bytes" where
  "encode_rune r =
     (let r = (if scalar r then r else rune_error) in
      if r \<le> 0x7F then [word_of_int r]
      else if r \<le> 0x7FF then [word_of_int (0xC0 + r div 0x40), word_of_int (0x80 + r mod 0x40)]
      else if r \<le> 0xFFFF then
        [word_of_int (0xE0 + r div 0x1000), word_of_int (0x80 + r div 0x40 mod 0x40), word_of_int (0x80 + r mod 0x40)]
      else
        [word_of_int (0xF0 + r div 0x40000), word_of_int (0x80 + r div 0x1000 mod 0x40),
         word_of_int (0x80 + r div 0x40 mod 0x40), word_of_int (0x80 + r mod 0x40)])"

section \<open>String\<close>

definition fold_string :: "bytes \<Rightarrow> bytes" where
  "fold_string s =
     (let all_folded = list_all (\<lambda>r. rune r = r) (runes s) in
      if all_folded then s
      else let buf = map rune (runes s) in concat (map encode_rune buf))"

section \<open>The searches find exactly the rows of the tables\<close>

lemma search_ranges_iff:
  assumes "sorted_wrt (\<lambda>a b. rng_end a < rng_start b) tbl" and "list_all (\<lambda>a. rng_start a \<le> rng_end a) tbl"
    and "hi \<le> length tbl"
  shows "search_ranges tbl r lo hi = Some m \<longleftrightarrow>
    (\<exists>i. lo \<le> i \<and> i < hi \<and> rng_start (tbl ! i) \<le> r \<and> r \<le> rng_end (tbl ! i) \<and>
       m = rng_mapped_start (tbl ! i) + (r - rng_start (tbl ! i)))"
  using assms
proof (induction tbl r lo hi rule: search_ranges.induct)
  case (1 tbl r lo hi)
  have ord: "i < j \<Longrightarrow> j < length tbl \<Longrightarrow> rng_end (tbl ! i) < rng_start (tbl ! j)" for i j
    using "1.prems"(1) by (simp add: sorted_wrt_iff_nth_less)
  have ne: "i < length tbl \<Longrightarrow> rng_start (tbl ! i) \<le> rng_end (tbl ! i)" for i
    using "1.prems"(2) by (simp add: list_all_length)
  show ?case
  proof (cases "lo < hi")
    case False
    then show ?thesis by (simp add: search_ranges.simps [of tbl r lo hi])
  next
    case True
    define mid where "mid = lo + (hi - lo) div 2"
    have mid: "lo \<le> mid" "mid < hi" using True by (auto simp: mid_def)
    consider (less) "r < rng_start (tbl ! mid)" | (greater) "rng_end (tbl ! mid) < r"
      | (hit) "rng_start (tbl ! mid) \<le> r" "r \<le> rng_end (tbl ! mid)" by linarith
    then show ?thesis
    proof cases
      case less
      have "i < mid" if "i < hi" "r \<le> rng_end (tbl ! i)" "rng_start (tbl ! i) \<le> r" for i
        using that less ord [of mid i] ne [of mid] "1.prems"(3) by (cases "i < mid") (cases "i = mid"; force)+
      with less True mid "1.IH"(1) [OF True mid_def refl less "1.prems"(1,2)] "1.prems"(3) show ?thesis
        by (auto simp: search_ranges.simps [of tbl r lo hi] Let_def simp flip: mid_def)
    next
      case greater
      have ge: "\<not> r < rng_start (tbl ! mid)" using greater ne [of mid] mid "1.prems"(3) by force
      have "mid < i" if "lo \<le> i" "rng_start (tbl ! i) \<le> r" "r \<le> rng_end (tbl ! i)" for i
        using that greater ord [of i mid] ne [of mid] mid "1.prems"(3) by (cases "mid < i") (cases "i = mid"; force)+
      note * = this
      have "search_ranges tbl r lo hi = search_ranges tbl r (mid + 1) hi"
        using greater ge True by (simp add: search_ranges.simps [of tbl r lo hi] Let_def flip: mid_def)
      moreover have "search_ranges tbl r (mid + 1) hi = Some m \<longleftrightarrow>
          (\<exists>i. mid + 1 \<le> i \<and> i < hi \<and> rng_start (tbl ! i) \<le> r \<and> r \<le> rng_end (tbl ! i) \<and>
            m = rng_mapped_start (tbl ! i) + (r - rng_start (tbl ! i)))"
        by (rule "1.IH"(2) [OF True mid_def refl ge greater "1.prems"])
      moreover have "(\<exists>i. lo \<le> i \<and> i < hi \<and> rng_start (tbl ! i) \<le> r \<and> r \<le> rng_end (tbl ! i) \<and>
            m = rng_mapped_start (tbl ! i) + (r - rng_start (tbl ! i))) \<longleftrightarrow>
          (\<exists>i. mid + 1 \<le> i \<and> i < hi \<and> rng_start (tbl ! i) \<le> r \<and> r \<le> rng_end (tbl ! i) \<and>
            m = rng_mapped_start (tbl ! i) + (r - rng_start (tbl ! i)))"
        by (rule ex_cong1) (use * mid in force)
      ultimately show ?thesis by (simp only:)
    next
      case hit
      have "i = mid" if "i < hi" "rng_start (tbl ! i) \<le> r" "r \<le> rng_end (tbl ! i)" for i
        using that hit ord [of i mid] ord [of mid i] mid "1.prems"(3) by (cases i mid rule: linorder_cases) force+
      moreover have "search_ranges tbl r lo hi = Some (rng_mapped_start (tbl ! mid) + (r - rng_start (tbl ! mid)))"
        using hit True by (subst search_ranges.simps) (simp add: Let_def flip: mid_def)
      ultimately show ?thesis using hit mid by (metis option.inject)
    qed
  qed
qed

lemma search_pairs_iff:
  assumes "sorted_wrt (<) (map fp_source tbl)" and "hi \<le> length tbl"
  shows "search_pairs tbl r lo hi = Some t \<longleftrightarrow> (\<exists>i. lo \<le> i \<and> i < hi \<and> tbl ! i = Fp r t)"
  using assms
proof (induction tbl r lo hi rule: search_pairs.induct)
  case (1 tbl r lo hi)
  have ord: "i < j \<Longrightarrow> j < length tbl \<Longrightarrow> fp_source (tbl ! i) < fp_source (tbl ! j)" for i j
    using "1.prems"(1) by (simp add: sorted_wrt_iff_nth_less)
  show ?case
  proof (cases "lo < hi")
    case False
    then show ?thesis by (simp add: search_pairs.simps [of tbl r lo hi])
  next
    case True
    define mid where "mid = lo + (hi - lo) div 2"
    have mid: "lo \<le> mid" "mid < hi" using True by (auto simp: mid_def)
    consider (less) "r < fp_source (tbl ! mid)" | (greater) "fp_source (tbl ! mid) < r"
      | (hit) "r = fp_source (tbl ! mid)" by linarith
    then show ?thesis
    proof cases
      case less
      have "i < mid" if "i < hi" "tbl ! i = Fp r t" for i
        using that less ord [of mid i] "1.prems"(2) by (cases i mid rule: linorder_cases) auto
      with less True mid "1.IH"(1) [OF True mid_def refl less "1.prems"(1)] "1.prems"(2) show ?thesis
        by (auto simp: search_pairs.simps [of tbl r lo hi] Let_def simp flip: mid_def)
    next
      case greater
      then have ge: "\<not> r < fp_source (tbl ! mid)" by simp
      have "mid < i" if "lo \<le> i" "tbl ! i = Fp r t" for i
        using that greater ord [of i mid] mid "1.prems"(2) by (cases i mid rule: linorder_cases) auto
      note * = this
      have "search_pairs tbl r lo hi = search_pairs tbl r (mid + 1) hi"
        using greater ge True by (simp add: search_pairs.simps [of tbl r lo hi] Let_def flip: mid_def)
      moreover have "search_pairs tbl r (mid + 1) hi = Some t \<longleftrightarrow> (\<exists>i. mid + 1 \<le> i \<and> i < hi \<and> tbl ! i = Fp r t)"
        by (rule "1.IH"(2) [OF True mid_def refl ge greater "1.prems"])
      moreover have "(\<exists>i. lo \<le> i \<and> i < hi \<and> tbl ! i = Fp r t) \<longleftrightarrow>
          (\<exists>i. mid + 1 \<le> i \<and> i < hi \<and> tbl ! i = Fp r t)"
        by (rule ex_cong1) (use * mid in force)
      ultimately show ?thesis by (simp only:)
    next
      case hit
      have "i = mid" if "i < hi" "tbl ! i = Fp r t" for i
        using that hit ord [of i mid] ord [of mid i] mid "1.prems"(2) by (cases i mid rule: linorder_cases) auto
      moreover have "search_pairs tbl r lo hi = Some (fp_target (tbl ! mid))"
        using hit True by (subst search_pairs.simps) (simp add: Let_def flip: mid_def)
      ultimately show ?thesis using hit mid by (metis case_fold_pair.collapse case_fold_pair.sel(2) option.inject)
    qed
  qed
qed


section \<open>Facts about the tables, by evaluation\<close>

fun ascending :: "int list \<Rightarrow> bool" where
  "ascending (x # y # zs) \<longleftrightarrow> x < y \<and> ascending (y # zs)"
| "ascending _ \<longleftrightarrow> True"

lemma ascending_sorted: "ascending xs \<Longrightarrow> sorted_wrt (<) xs"
  by (induction xs rule: ascending.induct) (auto simp: less_trans)

text \<open>
  For every target that lies strictly between its own source and the next one nothing is
  left to compare; the others are \<open>stray\<close> and are compared with the sources in one sorted
  pass.
\<close>

fun stray_targets :: "case_fold_pair list \<Rightarrow> int list" where
  "stray_targets (Fp s t # Fp s' t' # ps) =
     (if s < t \<and> t < s' then stray_targets (Fp s' t' # ps) else t # stray_targets (Fp s' t' # ps))"
| "stray_targets [Fp s t] = [t]"
| "stray_targets [] = []"

fun regular_targets :: "case_fold_pair list \<Rightarrow> int list" where
  "regular_targets (Fp s t # Fp s' t' # ps) =
     (if s < t \<and> t < s' then t # regular_targets (Fp s' t' # ps) else regular_targets (Fp s' t' # ps))"
| "regular_targets _ = []"

lemma targets_split: "fp_target ` set ps = set (regular_targets ps) \<union> set (stray_targets ps)"
proof (induction ps rule: stray_targets.induct)
  case (1 s t s' t' ps)
  then show ?case by (cases "s < t \<and> t < s'") auto
qed auto

fun disjoint_asc :: "int list \<Rightarrow> int list \<Rightarrow> bool" where
  "disjoint_asc (x # xs) (y # ys) \<longleftrightarrow>
     (if x < y then disjoint_asc xs (y # ys) else if y < x then disjoint_asc (x # xs) ys else False)"
| "disjoint_asc _ _ \<longleftrightarrow> True"

lemma disjoint_asc_sound:
  "sorted xs \<Longrightarrow> sorted ys \<Longrightarrow> disjoint_asc xs ys \<Longrightarrow> set xs \<inter> set ys = {}"
  by (induction xs ys rule: disjoint_asc.induct) (fastforce split: if_splits)+

lemma stray_targets_sound:
  assumes "sorted_wrt (<) (map fp_source ps)" and "p \<in> set ps" and "fp_target p \<notin> set (stray_targets ps)"
  shows "fp_source p < fp_target p \<and> fp_target p \<notin> fp_source ` set ps"
  using assms
proof (induction ps rule: stray_targets.induct)
  case (1 s t s' t' ps)
  show ?case
  proof (cases "p = Fp s t")
    case True
    with "1.prems" have "s < t" "t < s'" by (auto split: if_splits)
    moreover have "s' < x" if "x \<in> fp_source ` set ps" for x using "1.prems"(1) that by auto
    then have "t \<notin> fp_source ` set ps" using \<open>t < s'\<close> by force
    ultimately show ?thesis using True by simp
  next
    case False
    have "fp_source p < fp_target p \<and> fp_target p \<notin> fp_source ` set (Fp s' t' # ps)"
      using "1.prems" False by (cases "s < t \<and> t < s'") (intro "1.IH"; simp)+
    moreover have "s < fp_source p" using "1.prems"(1,2) False by auto
    ultimately show ?thesis by auto
  qed
qed auto

lemmas case_fold_pairs_defs = case_fold_pairs_def case_fold_pairs_1_def case_fold_pairs_2_def
  case_fold_pairs_3_def case_fold_pairs_4_def case_fold_pairs_5_def

lemma ranges_sorted: "sorted_wrt (\<lambda>a b. rng_end a < rng_start b) case_fold_ranges"
  "list_all (\<lambda>a. rng_start a \<le> rng_end a) case_fold_ranges"
  by code_simp+

lemma pairs_sorted: "sorted_wrt (<) (map fp_source case_fold_pairs)"
proof (rule ascending_sorted)
  show "ascending (map fp_source case_fold_pairs)" unfolding case_fold_pairs_defs by simp
qed

lemma pairs_targets_free: "p \<in> set case_fold_pairs \<Longrightarrow> fp_target p \<notin> fp_source ` set case_fold_pairs"
proof -
  assume p: "p \<in> set case_fold_pairs"
  let ?stray = "sort (stray_targets case_fold_pairs)"
  have "disjoint_asc (map fp_source case_fold_pairs) ?stray" by code_simp
  then have "fp_source ` set case_fold_pairs \<inter> set (stray_targets case_fold_pairs) = {}"
    using disjoint_asc_sound [OF strict_sorted_imp_sorted [OF pairs_sorted], of ?stray] by simp
  with stray_targets_sound [OF pairs_sorted p] show ?thesis by blast
qed

text \<open>Points against intervals, both ascending, in one pass.\<close>

fun clear_of :: "(int \<times> int) list \<Rightarrow> int list \<Rightarrow> bool" where
  "clear_of (i # is) (y # ys) \<longleftrightarrow>
     (if y < fst i then clear_of (i # is) ys else if snd i < y then clear_of is (y # ys) else False)"
| "clear_of _ _ \<longleftrightarrow> True"

lemma clear_of_sound:
  assumes "sorted_wrt (\<lambda>a b. snd a < fst b) is" and "list_all (\<lambda>a. fst a \<le> snd a) is" and "sorted ys"
    and "clear_of is ys" and "i \<in> set is" and "y \<in> set ys"
  shows "y < fst i \<or> snd i < y"
  using assms
proof (induction "is" ys rule: clear_of.induct)
  case (1 j js x xs)
  consider "x < fst j" "y = x" | "x < fst j" "y \<in> set xs" | "snd j < x" "i = j" | "snd j < x" "i \<in> set js"
    using "1.prems"(4-6) by (auto split: if_splits)
  then show ?case
  proof cases
    case 1
    then show ?thesis using "1.prems"(1,2,5) by (auto simp: list_all_iff)
  next
    case 2
    then show ?thesis using "1.IH"(1) "1.prems" by simp
  next
    case 3
    then show ?thesis using "1.prems"(3,6) by auto
  next
    case 4
    then show ?thesis using "1.IH"(2) "1.prems" by (auto split: if_splits)
  qed
qed auto

definition range_span :: "case_fold_range \<Rightarrow> int \<times> int" where
  "range_span g = (rng_start g, rng_end g)"

definition range_image :: "case_fold_range \<Rightarrow> int \<times> int" where
  "range_image g = (rng_mapped_start g, rng_mapped_start g + (rng_end g - rng_start g))"

definition ascending_spans :: "(int \<times> int) list \<Rightarrow> bool" where
  "ascending_spans is \<longleftrightarrow> sorted_wrt (\<lambda>a b. snd a < fst b) is \<and> list_all (\<lambda>a. fst a \<le> snd a) is"

lemma clear_of_spans:
  "ascending_spans is \<Longrightarrow> sorted ys \<Longrightarrow> clear_of is ys \<Longrightarrow> i \<in> set is \<Longrightarrow> y \<in> set ys \<Longrightarrow> y < fst i \<or> snd i < y"
  unfolding ascending_spans_def by (rule clear_of_sound) auto

lemma range_spans_ascending: "ascending_spans (map range_span case_fold_ranges)"
  by code_simp

lemma range_images_ascending: "ascending_spans (sort (map range_image case_fold_ranges))"
  by code_simp

lemma targets_clear:
  assumes p: "p \<in> set case_fold_pairs" and g: "g \<in> set case_fold_ranges"
  shows "fp_target p < rng_start g \<or> rng_end g < fp_target p"
proof -
  have span: "range_span g \<in> set (map range_span case_fold_ranges)" using g by simp
  have "sorted (regular_targets case_fold_pairs)" 
    by (rule strict_sorted_imp_sorted, rule ascending_sorted) code_simp
  moreover have "clear_of (map range_span case_fold_ranges) (regular_targets case_fold_pairs)" by code_simp
  ultimately have reg: "t < rng_start g \<or> rng_end g < t" if "t \<in> set (regular_targets case_fold_pairs)" for t
    using clear_of_spans [OF range_spans_ascending _ _ span that] by (simp add: range_span_def)
  have "clear_of (map range_span case_fold_ranges) (sort (stray_targets case_fold_pairs))" by code_simp
  from clear_of_spans [OF range_spans_ascending sorted_sort this span]
  have stray: "t < rng_start g \<or> rng_end g < t" if "t \<in> set (stray_targets case_fold_pairs)" for t
    using that by (simp add: range_span_def)
  from reg stray p targets_split [of case_fold_pairs] show ?thesis by blast
qed

lemma sources_clear:
  assumes p: "p \<in> set case_fold_pairs" and g: "g \<in> set case_fold_ranges"
  shows "fp_source p < fst (range_image g) \<or> snd (range_image g) < fp_source p"
proof -
  have "clear_of (sort (map range_image case_fold_ranges)) (map fp_source case_fold_pairs)" by code_simp
  from clear_of_spans [OF range_images_ascending strict_sorted_imp_sorted [OF pairs_sorted] this, of "range_image g" "fp_source p"]
  show ?thesis using p g by simp
qed

lemma images_clear:
  assumes "g \<in> set case_fold_ranges" and "h \<in> set case_fold_ranges"
  shows "snd (range_image g) < rng_start h \<or> rng_end h < fst (range_image g)"
proof -
  have "list_all (\<lambda>g. list_all (\<lambda>h. snd (range_image g) < rng_start h \<or> rng_end h < fst (range_image g)) case_fold_ranges)
      case_fold_ranges" by code_simp
  with assms show ?thesis by (simp add: list_all_iff)
qed

end
