(* ===== verification/Fold_Laws.thy ===== *)
theory Fold_Laws
  imports Fold
begin

text \<open>
  What \<open>fold.Rune\<close> and \<open>fold.String\<close> promise the rest of the daemon: the binary searches are
  the linear reading of the generated tables, folding is a projection (a folded name folds
  to itself), it stays inside the Unicode scalar values, and on well-formed UTF-8 two names
  have the same folded bytes exactly when they agree rune by rune up to folding.
\<close>

section \<open>Rune against a linear reading of the tables\<close>

definition in_range_row :: "int \<Rightarrow> case_fold_range \<Rightarrow> bool" where
  "in_range_row r g \<longleftrightarrow> rng_start g \<le> r \<and> r \<le> rng_end g"

definition casefold_row :: "int \<Rightarrow> int" where
  "casefold_row r =
     (case find (in_range_row r) case_fold_ranges of
        Some g \<Rightarrow> rng_mapped_start g + (r - rng_start g)
      | None \<Rightarrow> (case map_of (map (\<lambda>p. (fp_source p, fp_target p)) case_fold_pairs) r of
                  Some t \<Rightarrow> t | None \<Rightarrow> r))"

lemma search_ranges_Some:
  "search_ranges case_fold_ranges r 0 (length case_fold_ranges) = Some m \<longleftrightarrow>
    (\<exists>g \<in> set case_fold_ranges. in_range_row r g \<and> m = rng_mapped_start g + (r - rng_start g))"
  by (subst search_ranges_iff [OF ranges_sorted order_refl])
    (simp add: in_range_row_def, metis in_set_conv_nth)

lemma search_pairs_Some:
  "search_pairs case_fold_pairs r 0 (length case_fold_pairs) = Some t \<longleftrightarrow> Fp r t \<in> set case_fold_pairs"
  by (subst search_pairs_iff [OF pairs_sorted]) (auto simp: in_set_conv_nth)

lemma pairs_distinct: "distinct (map fst (map (\<lambda>p. (fp_source p, fp_target p)) case_fold_pairs))"
proof -
  have "distinct (map fp_source case_fold_pairs)" using pairs_sorted by (simp add: strict_sorted_iff)
  then show ?thesis by (simp add: comp_def)
qed

lemma map_of_pairs: "map_of (map (\<lambda>p. (fp_source p, fp_target p)) case_fold_pairs) r = Some t \<longleftrightarrow> Fp r t \<in> set case_fold_pairs"
proof -
  have "map_of (map (\<lambda>p. (fp_source p, fp_target p)) case_fold_pairs) r = Some t \<longleftrightarrow>
      (r, t) \<in> set (map (\<lambda>p. (fp_source p, fp_target p)) case_fold_pairs)"
    by (rule map_of_eq_Some_iff [OF pairs_distinct])
  also have "\<dots> \<longleftrightarrow> Fp r t \<in> set case_fold_pairs"
    by (auto simp: image_iff) (metis case_fold_pair.collapse case_fold_pair.sel)+
  finally show ?thesis .
qed

lemma find_range_unique:
  "g \<in> set case_fold_ranges \<Longrightarrow> in_range_row r g \<Longrightarrow> find (in_range_row r) case_fold_ranges = Some g"
proof (rule ccontr)
  assume g: "g \<in> set case_fold_ranges" "in_range_row r g" and ne: "find (in_range_row r) case_fold_ranges \<noteq> Some g"
  then obtain h where h: "find (in_range_row r) case_fold_ranges = Some h" "h \<noteq> g"
    by (metis find_None_iff option.exhaust)
  then have "h \<in> set case_fold_ranges" "in_range_row r h" by (auto simp: find_Some_iff)
  with g h(2) ranges_sorted(1) show False
    unfolding sorted_wrt_iff_nth_less in_range_row_def in_set_conv_nth
    by (metis linorder_neqE_nat not_le order_trans)
qed

text \<open>C36: the two binary searches of \<open>fold.Rune\<close> find exactly the rows of the generated
  tables: the fold of a rune is the range row that contains it, else the pair row with that
  source, else the rune itself, as a linear reading of the tables gives it.\<close>

theorem rune_is_table_row: "rune r = casefold_row r"
proof (cases "search_ranges case_fold_ranges r 0 (length case_fold_ranges)")
  case (Some m)
  then obtain g where "g \<in> set case_fold_ranges" "in_range_row r g" "m = rng_mapped_start g + (r - rng_start g)"
    by (auto simp: search_ranges_Some)
  with Some find_range_unique show ?thesis by (simp add: rune_def casefold_row_def)
next
  case None
  then have none: "find (in_range_row r) case_fold_ranges = None"
    by (metis find_None_iff option.distinct(1) search_ranges_Some)
  have "search_pairs case_fold_pairs r 0 (length case_fold_pairs) =
      map_of (map (\<lambda>p. (fp_source p, fp_target p)) case_fold_pairs) r"
    by (metis map_of_pairs not_None_eq search_pairs_Some)
  with None none show ?thesis by (simp add: rune_def casefold_row_def)
qed

lemma rune_cases:
  obtains (range) g where "g \<in> set case_fold_ranges" "rng_start g \<le> r" "r \<le> rng_end g"
      "rune r = rng_mapped_start g + (r - rng_start g)"
    | (pair) t where "Fp r t \<in> set case_fold_pairs" "rune r = t"
    | (self) "rune r = r"
proof (cases "search_ranges case_fold_ranges r 0 (length case_fold_ranges)")
  case (Some m)
  then have "rune r = m" by (simp add: rune_def)
  with Some range show ?thesis by (auto simp: search_ranges_Some in_range_row_def)
next
  case None
  then show ?thesis using pair self
    by (cases "search_pairs case_fold_pairs r 0 (length case_fold_pairs)") (auto simp: search_pairs_Some rune_def)
qed

lemma rune_self:
  assumes "\<And>g. g \<in> set case_fold_ranges \<Longrightarrow> r < rng_start g \<or> rng_end g < r"
    and "r \<notin> fp_source ` set case_fold_pairs"
  shows "rune r = r"
proof -
  have "search_ranges case_fold_ranges r 0 (length case_fold_ranges) = None"
    by (rule ccontr) (use assms(1) in \<open>force simp: search_ranges_Some in_range_row_def\<close>)
  moreover have "search_pairs case_fold_pairs r 0 (length case_fold_pairs) = None"
    by (rule ccontr) (use assms(2) in \<open>force simp: search_pairs_Some\<close>)
  ultimately show ?thesis by (simp add: rune_def)
qed

text \<open>The image of the fold is folded already.\<close>

lemma rune_idem [simp]: "rune (rune r) = rune r"
proof (cases r rule: rune_cases)
  case (range g)
  let ?m = "rng_mapped_start g + (r - rng_start g)"
  have img: "fst (range_image g) \<le> ?m" "?m \<le> snd (range_image g)" using range(2,3) by (auto simp: range_image_def)
  have "rune ?m = ?m"
  proof (rule rune_self)
    fix h assume "h \<in> set case_fold_ranges"
    from images_clear [OF range(1) this] img show "?m < rng_start h \<or> rng_end h < ?m" by linarith
  next
    show "?m \<notin> fp_source ` set case_fold_pairs" using sources_clear [OF _ range(1)] img by force
  qed
  with range(4) show ?thesis by simp
next
  case (pair t)
  have "rune t = t"
    by (rule rune_self) (use targets_clear [OF pair(1)] pairs_targets_free [OF pair(1)] in auto)
  with pair(2) show ?thesis by simp
qed simp

lemma ranges_scalar: "list_all (\<lambda>g. 0 \<le> rng_mapped_start g \<and> snd (range_image g) < 0xD800 \<or>
    0xDFFF < rng_mapped_start g \<and> snd (range_image g) \<le> 0x10FFFF) case_fold_ranges"
  by code_simp

lemma pairs_scalar: "list_all (\<lambda>p. scalar (fp_target p)) case_fold_pairs"
  by code_simp

lemma scalar_rune: "scalar r \<Longrightarrow> scalar (rune r)"
proof (cases r rule: rune_cases)
  case (range g)
  with ranges_scalar show ?thesis by (force simp: list_all_iff scalar_def range_image_def)
next
  case (pair t)
  with pairs_scalar show ?thesis by (force simp: list_all_iff)
qed simp

section \<open>Go strings as UTF-8\<close>

lemma scalar_error [simp]: "scalar rune_error" by (simp add: scalar_def rune_error_def)

lemma encode_rune_nonempty [simp]: "encode_rune r \<noteq> []" by (simp add: encode_rune_def Let_def)

lemma uint_of_int_byte: "0 \<le> x \<Longrightarrow> x < 256 \<Longrightarrow> uint (word_of_int x :: byte) = x"
  by (simp add: uint_word_of_int)

lemma cont_low: "cont_byte (word_of_int (0x80 + x mod 0x40))" "uint (word_of_int (0x80 + x mod 0x40) :: byte) = 0x80 + x mod 0x40"
  for x :: int
proof -
  have "0 \<le> x mod 0x40" "x mod 0x40 < 0x40" by simp_all
  then show "uint (word_of_int (0x80 + x mod 0x40) :: byte) = 0x80 + x mod 0x40" by (intro uint_of_int_byte) linarith+
  with \<open>0 \<le> x mod 0x40\<close> \<open>x mod 0x40 < 0x40\<close> show "cont_byte (word_of_int (0x80 + x mod 0x40))"
    unfolding cont_byte_def by linarith
qed

lemma split64:
  fixes r :: int
  obtains q l where "r = 0x40 * q + l" "0 \<le> l" "l < 0x40" "r div 0x40 = q" "r mod 0x40 = l"
  by (rule that [of "r div 0x40" "r mod 0x40"]) simp_all

lemma div_chain: "r div 0x1000 = r div 0x40 div 0x40" "r div 0x40000 = r div 0x40 div 0x40 div 0x40" for r :: int
  by (simp_all flip: zdiv_zmult2_eq)

lemma uint_head: "0 \<le> x \<Longrightarrow> c + x < 256 \<Longrightarrow> 0 \<le> c \<Longrightarrow> uint (word_of_int (c + x) :: byte) = c + x"
  by (rule uint_of_int_byte) auto

lemma decode_encode: "scalar r \<Longrightarrow> decode_rune (encode_rune r @ bs) = (r, length (encode_rune r))"
proof -
  assume r: "scalar r"
  then have b: "0 \<le> r" "r \<le> 0x10FFFF" "\<not> (0xD800 \<le> r \<and> r \<le> 0xDFFF)" by (auto simp: scalar_def)
  obtain q l where q: "r = 0x40 * q + l" "0 \<le> l" "l < 0x40" "r div 0x40 = q" "r mod 0x40 = l" by (rule split64)
  obtain p m where p: "q = 0x40 * p + m" "0 \<le> m" "m < 0x40" "q div 0x40 = p" "q mod 0x40 = m" by (rule split64)
  obtain h n where h: "p = 0x40 * h + n" "0 \<le> n" "n < 0x40" "p div 0x40 = h" "p mod 0x40 = n" by (rule split64)
  note parts = div_chain q(4,5) p(4,5) h(4,5)
  have cont: "cont_byte (word_of_int (0x80 + l))" "uint (word_of_int (0x80 + l) :: byte) = 0x80 + l"
    "cont_byte (word_of_int (0x80 + m))" "uint (word_of_int (0x80 + m) :: byte) = 0x80 + m"
    "cont_byte (word_of_int (0x80 + n))" "uint (word_of_int (0x80 + n) :: byte) = 0x80 + n"
    using cont_low [of l] cont_low [of m] cont_low [of n] q p h by simp_all
  consider "r \<le> 0x7F" | "0x80 \<le> r" "r \<le> 0x7FF" | "0x800 \<le> r" "r \<le> 0xFFFF" | "0x10000 \<le> r" by linarith
  then show ?thesis
  proof cases
    case 1
    then show ?thesis using r b by (simp add: encode_rune_def uint_of_int_byte)
  next
    case 2
    have rng: "2 \<le> q" "q \<le> 0x1F" using 2 q by linarith+
    then have "uint (word_of_int (0xC0 + q) :: byte) = 0xC0 + q" by (intro uint_head) auto
    with 2 r rng cont show ?thesis
      by (simp add: encode_rune_def Let_def parts q(1) [symmetric] del: of_int_add) (simp add: q(1))
  next
    case 3
    have rng: "0 \<le> p" "p \<le> 0xF" "p = 0 \<Longrightarrow> 0x20 \<le> m" "p = 0xD \<Longrightarrow> m \<le> 0x1F"
      using 3 b q(1-3) p(1-3) by linarith+
    then have "uint (word_of_int (0xE0 + p) :: byte) = 0xE0 + p" by (intro uint_head) auto
    moreover have "in_byte_range (if p = 0 then 0xA0 else 0x80) (if p = 0xD then 0x9F else 0xBF) (word_of_int (0x80 + m))"
      using rng p(2,3) unfolding in_byte_range_def cont by auto
    ultimately show ?thesis using 3 r rng cont
      by (simp add: encode_rune_def Let_def parts del: of_int_add) (simp add: q(1) p(1))
  next
    case 4
    have rng: "0 \<le> h" "h \<le> 4" "h = 0 \<Longrightarrow> 0x10 \<le> n" "h = 4 \<Longrightarrow> n \<le> 0xF"
      using 4 b q(1-3) p(1-3) h(1-3) by linarith+
    then have "uint (word_of_int (0xF0 + h) :: byte) = 0xF0 + h" by (intro uint_head) auto
    moreover have "in_byte_range (if h = 0 then 0x90 else 0x80) (if h = 4 then 0x8F else 0xBF) (word_of_int (0x80 + n))"
      using rng h(2,3) unfolding in_byte_range_def cont by auto
    ultimately show ?thesis using 4 r rng cont
      by (simp add: encode_rune_def Let_def parts del: of_int_add) (simp add: q(1) p(1) h(1))
  qed
qed

definition utf8 :: "int list \<Rightarrow> bytes" where
  "utf8 rs = concat (map encode_rune rs)"

lemma utf8_simps [simp]: "utf8 [] = []" "utf8 (r # rs) = encode_rune r @ utf8 rs"
  by (simp_all add: utf8_def)

lemma runes_Nil [simp]: "runes [] = []" by (simp add: runes.simps)

lemma runes_Cons: "runes (b # bs) = fst (decode_rune (b # bs)) # runes (drop (snd (decode_rune (b # bs))) (b # bs))"
  by (subst runes.simps) (simp add: case_prod_beta Let_def)

lemma runes_utf8 [simp]: "list_all scalar rs \<Longrightarrow> runes (utf8 rs) = rs"
proof (induction rs)
  case (Cons r rs)
  then show ?case by (simp add: runes.simps [of "encode_rune r @ utf8 rs"] decode_encode)
qed simp

lemma decode_rune_scalar: "scalar (fst (decode_rune bs))"
proof (cases bs)
  case (Cons b0 bs')
  let ?x = "uint b0"
  have x: "0 \<le> ?x" by simp
  consider "?x < 0x80" | "0xC2 \<le> ?x" "?x \<le> 0xDF" | "0xE0 \<le> ?x" "?x \<le> 0xEF" | "0xF0 \<le> ?x" "?x \<le> 0xF4"
    | "0x80 \<le> ?x" "\<not> (0xC2 \<le> ?x \<and> ?x \<le> 0xDF)" "\<not> (0xE0 \<le> ?x \<and> ?x \<le> 0xEF)" "\<not> (0xF0 \<le> ?x \<and> ?x \<le> 0xF4)"
    by linarith
  then show ?thesis
  proof cases
    case 1
    with Cons x show ?thesis by (simp add: scalar_def)
  next
    case 2
    with Cons show ?thesis by (auto simp: Let_def scalar_def cont_byte_def rune_error_def split: list.split)
  next
    case 3
    with Cons show ?thesis
      by (auto simp: Let_def scalar_def cont_byte_def in_byte_range_def rune_error_def split: list.splits if_splits)
  next
    case 4
    with Cons show ?thesis
      by (auto simp: Let_def scalar_def cont_byte_def in_byte_range_def rune_error_def split: list.splits if_splits)
  next
    case 5
    with Cons x have "fst (decode_rune bs) = rune_error" by (auto simp: Let_def)
    then show ?thesis by simp
  qed
qed simp

lemma scalar_runes [simp]: "list_all scalar (runes bs)"
proof (induction bs rule: runes.induct)
  case (1 bs)
  show ?case
  proof (cases "bs = []")
    case False
    obtain r w where rw: "decode_rune bs = (r, w)" by (cases "decode_rune bs")
    then have "scalar r" using decode_rune_scalar [of bs] by simp
    with False rw 1 [OF False rw [symmetric] refl] show ?thesis by (simp add: runes.simps [of bs])
  qed simp
qed

section \<open>String\<close>

lemma map_eq_self_iff: "map f xs = xs \<longleftrightarrow> list_all (\<lambda>x. f x = x) xs"
  by (induction xs) auto

lemma fold_string_alt: "fold_string s = (if map rune (runes s) = runes s then s else utf8 (map rune (runes s)))"
  by (simp add: fold_string_def utf8_def map_eq_self_iff)

lemma list_all_scalar_rune: "list_all scalar rs \<Longrightarrow> list_all scalar (map rune rs)"
  by (induction rs) (simp_all add: scalar_rune)

lemma runes_fold_string: "runes (fold_string s) = map rune (runes s)"
  by (simp add: fold_string_alt list_all_scalar_rune)

text \<open>Folding is idempotent on every byte string.\<close>

theorem fold_string_idem: "fold_string (fold_string s) = fold_string s"
proof -
  have "map rune (runes (fold_string s)) = runes (fold_string s)" by (simp add: runes_fold_string)
  then show ?thesis by (simp add: fold_string_alt [of "fold_string s"])
qed

definition valid_utf8 :: "bytes \<Rightarrow> bool" where
  "valid_utf8 s \<longleftrightarrow> utf8 (runes s) = s"

lemma fold_string_valid: "valid_utf8 s \<Longrightarrow> fold_string s = utf8 (map rune (runes s))"
  by (auto simp: fold_string_alt valid_utf8_def)

text \<open>C37: on well-formed UTF-8 two names have the same folded bytes exactly when they agree
  rune by rune up to simple case folding, and the folded name is well-formed again.\<close>

theorem fold_string_iff:
  assumes "valid_utf8 s" and "valid_utf8 t"
  shows "(fold_string s = fold_string t \<longleftrightarrow> map rune (runes s) = map rune (runes t)) \<and> valid_utf8 (fold_string s)"
proof -
  have "fold_string s = fold_string t \<longleftrightarrow> map rune (runes s) = map rune (runes t)"
    using assms by (metis fold_string_valid runes_fold_string)
  moreover have "valid_utf8 (fold_string s)"
    unfolding valid_utf8_def by (metis assms(1) fold_string_valid runes_fold_string)
  ultimately show ?thesis by blast
qed

theorem fold_string_iff_witness:
  "fold_string (str ''Users'') = fold_string (str ''USERS'') \<and> valid_utf8 (fold_string (str ''Users''))"
proof -
  have valid: "valid_utf8 (str ''Users'')" "valid_utf8 (str ''USERS'')" by code_simp+
  have "map rune (runes (str ''Users'')) = map rune (runes (str ''USERS''))" by code_simp
  with fold_string_iff [OF valid] show ?thesis by blast
qed

text \<open>A name that is not UTF-8 is folded or kept by what else it holds: the bytes \<open>a FF\<close>
  are returned as they are, the bytes \<open>A FF\<close> come back as \<open>a\<close> and U+FFFD, so the two names
  differ only in case, agree rune by rune after folding and still have different folded bytes.\<close>

theorem fold_string_invalid_utf8:
  "map rune (runes [0x41, 0xFF]) = map rune (runes [0x61, 0xFF]) \<and>
   fold_string [0x61, 0xFF] = [0x61, 0xFF] \<and> fold_string [0x41, 0xFF] = [0x61, 0xEF, 0xBF, 0xBD]"
proof -
  have r: "runes [0x41, 0xFF] = [0x41, 0xFFFD]" "runes [0x61, 0xFF] = [0x61, 0xFFFD]"
    by (simp_all add: runes_Cons rune_error_def Let_def cont_byte_def)
  have f: "rune 0x41 = 0x61" "rune 0x61 = 0x61" "rune 0xFFFD = 0xFFFD" by code_simp+
  have e: "encode_rune 0x61 = [0x61]" "encode_rune 0xFFFD = [0xEF, 0xBF, 0xBD]"
    by (simp_all add: encode_rune_def scalar_def)
  from r f e show ?thesis by (simp add: fold_string_alt)
qed

end
