(* ===== verification/Config.thy ===== *)
theory Config
  imports Fold_Laws
begin

text \<open>
  Command-line parsing and validation: \<open>internal/config/config.go\<close>.  \<open>Parse\<close> is the loop
  over the arguments with the set of folded names seen so far; every error return is a
  constructor of \<open>config_error\<close> that carries what the message quotes.
\<close>

record hive_config =
  hc_name :: bytes
  hc_path :: bytes

datatype config_error =
    No_Arguments
  | Missing_Equals bytes
  | Empty_Name bytes
  | Empty_Path bytes
  | Forbidden_Characters bytes
  | Reserved_Name bytes
  | Duplicate_Name bytes
  | Path_Not_Absolute bytes bytes

text \<open>\<open>strings.IndexByte\<close>, \<open>strings.ContainsAny\<close> on ASCII characters, and the Unix \<open>filepath.IsAbs\<close>.\<close>

fun index_byte :: "bytes \<Rightarrow> byte \<Rightarrow> nat option" where
  "index_byte [] c = None"
| "index_byte (b # bs) c = (if b = c then Some 0 else map_option Suc (index_byte bs c))"

definition contains_any :: "bytes \<Rightarrow> bytes \<Rightarrow> bool" where
  "contains_any s chars \<longleftrightarrow> list_ex (\<lambda>b. b \<in> set chars) s"

definition is_abs :: "bytes \<Rightarrow> bool" where
  "is_abs p \<longleftrightarrow> take 1 p = str ''/''"

definition forbidden_chars :: bytes where
  "forbidden_chars = [0x5C, 0x2F, 0x00]"

definition parse_arg :: "bytes list \<Rightarrow> bytes \<Rightarrow> config_error + hive_config" where
  "parse_arg seen arg =
     (case index_byte arg 0x3D of
        None \<Rightarrow> Inl (Missing_Equals arg)
      | Some idx \<Rightarrow>
          let name = take idx arg; path = drop (idx + 1) arg; folded = fold_string name in
          if name = [] then Inl (Empty_Name arg)
          else if path = [] then Inl (Empty_Path arg)
          else if contains_any name forbidden_chars then Inl (Forbidden_Characters name)
          else if folded = str ''currentuser'' then Inl (Reserved_Name name)
          else if folded \<in> set seen then Inl (Duplicate_Name name)
          else if \<not> is_abs path then Inl (Path_Not_Absolute path name)
          else Inr \<lparr>hc_name = name, hc_path = path\<rparr>)"

fun parse_args :: "bytes list \<Rightarrow> hive_config list \<Rightarrow> bytes list \<Rightarrow> config_error + hive_config list" where
  "parse_args seen configs [] = Inr configs"
| "parse_args seen configs (arg # args) =
     (case parse_arg seen arg of
        Inl e \<Rightarrow> Inl e
      | Inr c \<Rightarrow> parse_args (fold_string (hc_name c) # seen) (configs @ [c]) args)"

definition parse_config :: "bytes list \<Rightarrow> config_error + hive_config list" where
  "parse_config args = (if args = [] then Inl No_Arguments else parse_args [] [] args)"

section \<open>What an accepted command line guarantees\<close>

definition hive_ok :: "hive_config \<Rightarrow> bool" where
  "hive_ok c \<longleftrightarrow> hc_name c \<noteq> [] \<and> hc_path c \<noteq> [] \<and> \<not> contains_any (hc_name c) forbidden_chars
     \<and> 0x3D \<notin> set (hc_name c) \<and> fold_string (hc_name c) \<noteq> str ''currentuser'' \<and> is_abs (hc_path c)"

definition render_hive :: "hive_config \<Rightarrow> bytes" where
  "render_hive c = hc_name c @ 0x3D # hc_path c"

lemma index_byte_Some:
  "index_byte s c = Some i \<Longrightarrow> s = take i s @ c # drop (i + 1) s \<and> c \<notin> set (take i s)"
  by (induction s arbitrary: i) (auto split: if_splits)

lemma index_byte_None: "index_byte s c = None \<longleftrightarrow> c \<notin> set s"
  by (induction s) auto

lemma index_byte_append: "c \<notin> set s \<Longrightarrow> index_byte (s @ c # t) c = Some (length s)"
  by (induction s) auto

lemma parse_arg_Inr:
  "parse_arg seen arg = Inr c \<longleftrightarrow> arg = render_hive c \<and> hive_ok c \<and> fold_string (hc_name c) \<notin> set seen"
proof
  assume p: "parse_arg seen arg = Inr c"
  then obtain idx where idx: "index_byte arg 0x3D = Some idx" by (auto simp: parse_arg_def split: option.splits)
  with p have "c = \<lparr>hc_name = take idx arg, hc_path = drop (idx + 1) arg\<rparr>"
    and ok: "take idx arg \<noteq> []" "drop (idx + 1) arg \<noteq> []" "\<not> contains_any (take idx arg) forbidden_chars"
      "fold_string (take idx arg) \<noteq> str ''currentuser''" "fold_string (take idx arg) \<notin> set seen"
      "is_abs (drop (idx + 1) arg)"
    unfolding parse_arg_def Let_def by (auto split: if_splits)
  with index_byte_Some [OF idx] show "arg = render_hive c \<and> hive_ok c \<and> fold_string (hc_name c) \<notin> set seen"
    by (simp add: render_hive_def hive_ok_def)
next
  assume "arg = render_hive c \<and> hive_ok c \<and> fold_string (hc_name c) \<notin> set seen"
  then show "parse_arg seen arg = Inr c"
    by (auto simp: parse_arg_def render_hive_def hive_ok_def index_byte_append)
qed

lemma parse_args_Inr:
  "parse_args seen acc args = Inr cs \<longleftrightarrow>
     (\<exists>new. cs = acc @ new \<and> args = map render_hive new \<and> list_all hive_ok new \<and>
        distinct (map (\<lambda>c. fold_string (hc_name c)) new) \<and>
        set (map (\<lambda>c. fold_string (hc_name c)) new) \<inter> set seen = {})"
proof (induction args arbitrary: seen acc)
  case (Cons arg args)
  show ?case
  proof (cases "parse_arg seen arg")
    case (Inl e)
    then have "\<not> (arg = render_hive c \<and> hive_ok c \<and> fold_string (hc_name c) \<notin> set seen)" for c
      using parse_arg_Inr [of seen arg c] by simp
    with Inl show ?thesis by (auto simp: Cons_eq_map_conv)
  next
    case (Inr c)
    then have c: "arg = render_hive c" "hive_ok c" "fold_string (hc_name c) \<notin> set seen" by (simp_all add: parse_arg_Inr)
    have "d = c" if "arg = render_hive d" "hive_ok d" "fold_string (hc_name d) \<notin> set seen" for d
      using that Inr parse_arg_Inr [of seen arg d] by simp
    then show ?thesis using c Inr by (auto simp: Cons.IH Cons_eq_map_conv)
  qed
qed auto

text \<open>C38: \<open>config.Parse\<close> accepts exactly the non-empty argument lists \<open>Name=Path\<close> whose names
  are non-empty, free of separators, NUL and \<open>=\<close>, not the reserved alias, pairwise distinct
  after folding, with absolute paths, and returns those hives in order.\<close>

theorem parse_config_iff:
  "parse_config args = Inr cs \<longleftrightarrow>
     cs \<noteq> [] \<and> args = map render_hive cs \<and> list_all hive_ok cs \<and> distinct (map (\<lambda>c. fold_string (hc_name c)) cs)"
  by (cases args) (auto simp: parse_config_def parse_args_Inr simp del: parse_args.simps)

text \<open>The first bad argument decides: everything before it is accepted and the error is
  the one of that argument, checked against the names already seen.\<close>

theorem parse_config_error:
  assumes "parse_config args = Inl e" and "args \<noteq> []"
  shows "\<exists>cs arg rest. args = map render_hive cs @ arg # rest \<and> list_all hive_ok cs \<and>
    parse_arg (rev (map (\<lambda>c. fold_string (hc_name c)) cs)) arg = Inl e"
proof -
  have "parse_args seen acc args = Inl e \<Longrightarrow>
      \<exists>cs arg rest. args = map render_hive cs @ arg # rest \<and> list_all hive_ok cs \<and>
        parse_arg (rev (map (\<lambda>c. fold_string (hc_name c)) cs) @ seen) arg = Inl e" for seen acc
  proof (induction args arbitrary: seen acc)
    case (Cons arg args)
    show ?case
    proof (cases "parse_arg seen arg")
      case (Inl f)
      with Cons.prems show ?thesis by (intro exI [of _ "[]"] exI [of _ arg] exI [of _ args]) simp
    next
      case (Inr c)
      with Cons.prems have "parse_args (fold_string (hc_name c) # seen) (acc @ [c]) args = Inl e" by simp
      from Cons.IH [OF this] obtain cs a rest where
        "args = map render_hive cs @ a # rest" "list_all hive_ok cs"
        "parse_arg (rev (map (\<lambda>c. fold_string (hc_name c)) cs) @ fold_string (hc_name c) # seen) a = Inl e" by blast
      with Inr show ?thesis
        by (intro exI [of _ "c # cs"] exI [of _ a] exI [of _ rest]) (simp add: parse_arg_Inr)
    qed
  qed simp
  from this [of "[]" "[]"] assms show ?thesis by (simp add: parse_config_def)
qed

theorem parse_config_error_witness:
  "\<exists>cs arg rest. [str ''Users=u''] = map render_hive cs @ arg # rest \<and> list_all hive_ok cs \<and>
    parse_arg (rev (map (\<lambda>c. fold_string (hc_name c)) cs)) arg = Inl (Path_Not_Absolute (str ''u'') (str ''Users''))"
proof (rule parse_config_error)
  show "parse_config [str ''Users=u''] = Inl (Path_Not_Absolute (str ''u'') (str ''Users''))" by code_simp
qed simp

end
