(* ===== verification/Sd.thy ===== *)
theory Sd
  imports Prelude
begin

unbundle bit_operations_syntax

text \<open>
  The default security descriptor of a hive root: \<open>internal/sd/sd.go\<close>.  The builder is
  translated field by field; the reader in the second half is the self-relative layout
  the builder documents, and the theorems say that the bytes read back as the intended
  owner, group and access list.
\<close>

section \<open>The builder\<close>

record sid =
  revision :: u8
  identifier_authority :: bytes
  sub_authorities :: "u32 list"

definition sid_system :: sid where
  "sid_system = \<lparr>revision = 1, identifier_authority = [0, 0, 0, 0, 0, 5], sub_authorities = [18]\<rparr>"

definition sid_administrators :: sid where
  "sid_administrators = \<lparr>revision = 1, identifier_authority = [0, 0, 0, 0, 0, 5], sub_authorities = [32, 544]\<rparr>"

definition sid_authenticated_users :: sid where
  "sid_authenticated_users = \<lparr>revision = 1, identifier_authority = [0, 0, 0, 0, 0, 5], sub_authorities = [11]\<rparr>"

definition key_all_access :: u32 where "key_all_access = 0x000F003F"
definition key_read :: u32 where "key_read = 0x00020019"

definition sd_header_size :: nat where "sd_header_size = 20"
definition acl_header_size :: nat where "acl_header_size = 8"
definition se_self_relative :: u16 where "se_self_relative = 0x8000"
definition se_dacl_present :: u16 where "se_dacl_present = 0x0004"
definition access_allowed_ace_type :: u8 where "access_allowed_ace_type = 0x00"
definition container_inherit_ace :: u8 where "container_inherit_ace = 0x02"

definition sid_size :: "sid \<Rightarrow> nat" where
  "sid_size s = 1 + 1 + 6 + length (sub_authorities s) * 4"

definition sid_marshal :: "sid \<Rightarrow> bytes \<Rightarrow> bytes" where
  "sid_marshal s dst =
     (let dst = dst @ [revision s];
          dst = dst @ [word_of_nat (length (sub_authorities s))];
          dst = dst @ identifier_authority s
      in foldl (\<lambda>dst sa. dst @ le_bytes 4 sa) dst (sub_authorities s))"

record ace =
  ace_flags :: u8
  ace_mask :: u32
  ace_sid :: sid

definition ace_size :: "ace \<Rightarrow> nat" where
  "ace_size a = 4 + 4 + sid_size (ace_sid a)"

definition ace_marshal :: "ace \<Rightarrow> bytes \<Rightarrow> bytes" where
  "ace_marshal a dst =
     (let size = (word_of_nat (ace_size a) :: u16);
          dst = dst @ [access_allowed_ace_type];
          dst = dst @ [ace_flags a];
          dst = dst @ le_bytes 2 size;
          dst = dst @ le_bytes 4 (ace_mask a)
      in sid_marshal (ace_sid a) dst)"

definition default_aces :: "ace list" where
  "default_aces =
    [\<lparr>ace_flags = container_inherit_ace, ace_mask = key_all_access, ace_sid = sid_system\<rparr>,
     \<lparr>ace_flags = container_inherit_ace, ace_mask = key_all_access, ace_sid = sid_administrators\<rparr>,
     \<lparr>ace_flags = container_inherit_ace, ace_mask = key_read, ace_sid = sid_authenticated_users\<rparr>]"

text \<open>\<open>DefaultHiveRootSD\<close> with its owner, group and entries as arguments; the source fixes them.\<close>

definition marshal_sd :: "sid \<Rightarrow> sid \<Rightarrow> ace list \<Rightarrow> bytes" where
  "marshal_sd owner grp aces =
     (let total_ace_size = foldl (\<lambda>n a. n + ace_size a) 0 aces;
          acl_size = acl_header_size + total_ace_size;
          offset_dacl = (word_of_nat sd_header_size :: u32);
          offset_owner = (word_of_nat (sd_header_size + acl_size) :: u32);
          offset_group = offset_owner + word_of_nat (sid_size owner);
          buf = [];
          buf = buf @ [1];
          buf = buf @ [0];
          buf = buf @ le_bytes 2 (se_self_relative OR se_dacl_present);
          buf = buf @ le_bytes 4 offset_owner;
          buf = buf @ le_bytes 4 offset_group;
          buf = buf @ le_bytes 4 (0 :: u32);
          buf = buf @ le_bytes 4 offset_dacl;
          buf = buf @ [2];
          buf = buf @ [0];
          buf = buf @ le_bytes 2 (word_of_nat acl_size :: u16);
          buf = buf @ le_bytes 2 (word_of_nat (length aces) :: u16);
          buf = buf @ le_bytes 2 (0 :: u16);
          buf = foldl (\<lambda>buf a. ace_marshal a buf) buf aces;
          buf = sid_marshal owner buf
      in sid_marshal grp buf)"

definition default_hive_root_sd :: bytes where
  "default_hive_root_sd = marshal_sd sid_system sid_system default_aces"

section \<open>Reading the self-relative layout back\<close>

fun read_words :: "nat \<Rightarrow> bytes \<Rightarrow> u32 list option" where
  "read_words 0 bs = Some []"
| "read_words (Suc n) bs =
     (if length bs < 4 then None
      else map_option ((#) (le_word (take 4 bs))) (read_words n (drop 4 bs)))"

definition read_sid :: "bytes \<Rightarrow> sid option" where
  "read_sid bs =
     (if length bs < 8 then None
      else map_option (\<lambda>subs. \<lparr>revision = bs ! 0, identifier_authority = take 6 (drop 2 bs), sub_authorities = subs\<rparr>)
        (read_words (unat (bs ! 1)) (drop 8 bs)))"

fun read_aces :: "nat \<Rightarrow> bytes \<Rightarrow> ace list option" where
  "read_aces 0 bs = Some []"
| "read_aces (Suc n) bs =
     (let size = le_nat (take 2 (drop 2 bs)) in
      if length bs < 8 \<or> bs ! 0 \<noteq> access_allowed_ace_type \<or> size < 8 \<or> length bs < size then None
      else
        (case (read_sid (take (size - 8) (drop 8 bs)), read_aces n (drop size bs)) of
           (Some s, Some as) \<Rightarrow>
             if 8 + sid_size s = size
             then Some (\<lparr>ace_flags = bs ! 1, ace_mask = le_word (take 4 (drop 4 bs)), ace_sid = s\<rparr> # as)
             else None
         | _ \<Rightarrow> None))"

record sd_view =
  sv_control :: u16
  sv_owner :: sid
  sv_group :: sid
  sv_dacl :: "ace list"

definition read_sd :: "bytes \<Rightarrow> sd_view option" where
  "read_sd bs =
     (let u32_at = (\<lambda>i. le_nat (take 4 (drop i bs))); u16_at = (\<lambda>i. le_nat (take 2 (drop i bs)));
          owner = u32_at 4; grp = u32_at 8; dacl = u32_at 16 in
      if length bs < sd_header_size then None
      else
        (case (read_sid (drop owner bs), read_sid (drop grp bs),
               read_aces (u16_at (dacl + 4)) (take (u16_at (dacl + 2) - acl_header_size) (drop (dacl + 8) bs))) of
           (Some o', Some g, Some as) \<Rightarrow>
             Some \<lparr>sv_control = le_word (take 2 (drop 2 bs)), sv_owner = o', sv_group = g, sv_dacl = as\<rparr>
         | _ \<Rightarrow> None))"

definition sid_ok :: "sid \<Rightarrow> bool" where
  "sid_ok s \<longleftrightarrow> length (identifier_authority s) = 6 \<and> length (sub_authorities s) < 256"

lemma foldl_append: "foldl (\<lambda>acc x. acc @ f x) acc xs = acc @ concat (map f xs)"
  by (induction xs arbitrary: acc) auto

definition sid_bytes :: "sid \<Rightarrow> bytes" where
  "sid_bytes s = revision s # word_of_nat (length (sub_authorities s)) # identifier_authority s
     @ concat (map (le_bytes 4) (sub_authorities s))"

definition ace_bytes :: "ace \<Rightarrow> bytes" where
  "ace_bytes a = access_allowed_ace_type # ace_flags a # le_bytes 2 (word_of_nat (ace_size a) :: u16)
     @ le_bytes 4 (ace_mask a) @ sid_bytes (ace_sid a)"

lemma sid_marshal_append: "sid_marshal s dst = dst @ sid_bytes s"
  by (simp add: sid_marshal_def sid_bytes_def foldl_append)

lemma ace_marshal_append: "ace_marshal a dst = dst @ ace_bytes a"
  by (simp add: ace_marshal_def ace_bytes_def sid_marshal_append Let_def)

lemma length_concat_le [simp]: "length (concat (map (le_bytes n) ws)) = length ws * n"
  by (induction ws) auto

lemma length_sid_bytes: "length (identifier_authority s) = 6 \<Longrightarrow> length (sid_bytes s) = sid_size s"
  by (simp add: sid_bytes_def sid_size_def)

lemma read_words_concat [simp]: "read_words (length ws) (concat (map (le_bytes 4) ws) @ rest) = Some ws"
  by (induction ws) auto

lemma read_sid_bytes: "sid_ok s \<Longrightarrow> read_sid (sid_bytes s @ rest) = Some s"
  by (cases s) (simp add: read_sid_def sid_bytes_def sid_ok_def unat_byte_of_nat)

lemma le_nat_le_bytes: "le_nat (le_bytes n (w :: 'a::len word)) = unat w mod 256 ^ n"
  by (simp add: le_bytes_def le_nat_le_nat_bytes)

lemma length_ace_bytes: "sid_ok (ace_sid a) \<Longrightarrow> length (ace_bytes a) = ace_size a"
  by (simp add: ace_bytes_def ace_size_def length_sid_bytes sid_ok_def)

lemma le_nat_small [simp]:
  "k < 2 ^ 16 \<Longrightarrow> le_nat (le_bytes 2 (word_of_nat k :: u16)) = k"
  "k < 2 ^ 32 \<Longrightarrow> le_nat (le_bytes 4 (word_of_nat k :: u32)) = k"
  by (simp_all add: le_nat_le_bytes unat_of_nat)

lemma ace_size_small: "sid_ok (ace_sid a) \<Longrightarrow> ace_size a < 2 ^ 16"
  by (simp add: ace_size_def sid_size_def sid_ok_def)

lemma read_ace_fields:
  assumes "sid_ok (ace_sid a)"
  shows "(ace_bytes a @ t) ! 0 = access_allowed_ace_type" "(ace_bytes a @ t) ! Suc 0 = ace_flags a"
    "le_nat (take 2 (drop 2 (ace_bytes a @ t))) = ace_size a"
    "le_word (take 4 (drop 4 (ace_bytes a @ t))) = ace_mask a"
    "take (ace_size a - 8) (drop 8 (ace_bytes a @ t)) = sid_bytes (ace_sid a)"
    "drop (ace_size a) (ace_bytes a @ t) = t"
proof -
  have "length (sid_bytes (ace_sid a)) = ace_size a - 8" using assms by (simp add: length_sid_bytes sid_ok_def ace_size_def)
  then show "take (ace_size a - 8) (drop 8 (ace_bytes a @ t)) = sid_bytes (ace_sid a)" by (simp add: ace_bytes_def)
  show "drop (ace_size a) (ace_bytes a @ t) = t" by (simp flip: length_ace_bytes [OF assms])
qed (use le_nat_small(1) [OF ace_size_small [OF assms]] in \<open>simp_all add: ace_bytes_def\<close>)

lemma read_aces_bytes:
  "list_all (\<lambda>a. sid_ok (ace_sid a)) aces \<Longrightarrow> read_aces (length aces) (concat (map ace_bytes aces)) = Some aces"
proof (induction aces)
  case (Cons a as)
  have ok: "sid_ok (ace_sid a)" using Cons.prems by simp
  have "read_sid (sid_bytes (ace_sid a)) = Some (ace_sid a)" using read_sid_bytes [OF ok, of "[]"] by simp
  moreover have "8 \<le> ace_size a" "8 + sid_size (ace_sid a) = ace_size a" by (simp_all add: ace_size_def)
  ultimately show ?case using Cons
    by (simp add: read_ace_fields [OF ok] length_ace_bytes [OF ok] Let_def del: take_append drop_append)
qed simp

definition aces_size :: "ace list \<Rightarrow> nat" where
  "aces_size aces = sum_list (map ace_size aces)"

lemma foldl_sizes: "foldl (\<lambda>n a. n + ace_size a) m aces = m + aces_size aces"
  by (induction aces arbitrary: m) (simp_all add: aces_size_def)

lemma length_aces_bytes: "list_all (\<lambda>a. sid_ok (ace_sid a)) aces \<Longrightarrow> length (concat (map ace_bytes aces)) = aces_size aces"
  by (induction aces) (simp_all add: aces_size_def length_ace_bytes)

text \<open>C39: the descriptor that \<open>DefaultHiveRootSD\<close> lays out reads back, through the offsets
  and sizes in its own headers, as self-relative with a DACL, with exactly that owner, group
  and access list; the ACL size stays within its 16-bit field.\<close>

theorem read_marshal_sd:
  assumes "sid_ok owner" and "sid_ok grp" and aces: "list_all (\<lambda>a. sid_ok (ace_sid a)) aces"
    and small: "acl_header_size + aces_size aces < 2 ^ 16" and count: "length aces < 2 ^ 16"
  shows "read_sd (marshal_sd owner grp aces) =
    Some \<lparr>sv_control = 0x8004, sv_owner = owner, sv_group = grp, sv_dacl = aces\<rparr>"
proof -
  define acl where "acl = 8 + aces_size aces"
  define D where "D = concat (map ace_bytes aces)"
  define H where "H = [1, 0] @ le_bytes 2 (0x8004 :: u16) @ le_bytes 4 (word_of_nat (20 + acl) :: u32)
    @ le_bytes 4 (word_of_nat (20 + acl + sid_size owner) :: u32) @ le_bytes 4 (0 :: u32) @ le_bytes 4 (20 :: u32)"
  define A where "A = [2, 0] @ le_bytes 2 (word_of_nat acl :: u16) @ le_bytes 2 (word_of_nat (length aces) :: u16) @ le_bytes 2 (0 :: u16)"
  let ?b = "marshal_sd owner grp aces"
  have owner_small: "sid_size owner < 2 ^ 16" using assms(1) by (simp add: sid_size_def sid_ok_def)
  have acl_small: "acl < 2 ^ 16" using small by (simp add: acl_def acl_header_size_def)
  have bytes: "?b = H @ A @ D @ sid_bytes owner @ sid_bytes grp"
    by (simp add: marshal_sd_def Let_def foldl_sizes ace_marshal_append foldl_append sid_marshal_append H_def A_def D_def acl_def
        se_self_relative_def se_dacl_present_def sd_header_size_def acl_header_size_def add.assoc)
  have lens: "length H = 20" "length A = 8" "length D = aces_size aces" "length (sid_bytes owner) = sid_size owner"
    using assms by (simp_all add: H_def A_def D_def length_aces_bytes length_sid_bytes sid_ok_def)
  have drops: "drop (20 + acl) ?b = sid_bytes owner @ sid_bytes grp" "drop (20 + acl + sid_size owner) ?b = sid_bytes grp"
      "drop 28 ?b = D @ sid_bytes owner @ sid_bytes grp"
    by (simp_all add: bytes acl_def lens)
  have header: "take k (drop n ?b) = take k (drop n H)" if "n + k \<le> 20" for n k using that lens by (simp add: bytes)
  have second: "take k (drop n ?b) = take k (drop (n - 20) A)" if "20 \<le> n" "n - 20 + k \<le> 8" for n k
    using that lens by (simp add: bytes)
  have fields: "le_nat (take 4 (drop 4 ?b)) = 20 + acl" "le_nat (take 4 (drop 8 ?b)) = 20 + acl + sid_size owner"
      "le_nat (take 4 (drop 16 ?b)) = 20" "le_nat (take 2 (drop 24 ?b)) = length aces" "le_nat (take 2 (drop 22 ?b)) = acl"
      "le_word (take 2 (drop 2 ?b)) = (0x8004 :: u16)"
    using acl_small count owner_small le_nat_small(2) [of 20] le_nat_small(2) [of "20 + acl"]
      le_nat_small(2) [of "20 + acl + sid_size owner"] le_nat_small(1) [of acl] le_nat_small(1) [of "length aces"]
    by (simp_all add: header second H_def A_def)
  have "read_sid (sid_bytes owner @ sid_bytes grp) = Some owner" "read_sid (sid_bytes grp) = Some grp"
    using assms(1,2) read_sid_bytes [of owner] read_sid_bytes [of grp "[]"] by simp_all
  moreover have "read_aces (length aces) (take (acl - 8) (drop 28 ?b)) = Some aces"
    using read_aces_bytes [OF aces] lens by (simp add: drops acl_def D_def)
  moreover have "\<not> length ?b < sd_header_size" by (simp add: bytes lens sd_header_size_def)
  ultimately show ?thesis by (simp add: read_sd_def Let_def fields drops acl_header_size_def)
qed

theorem read_marshal_sd_witness:
  "read_sd default_hive_root_sd =
    Some \<lparr>sv_control = 0x8004, sv_owner = sid_system, sv_group = sid_system, sv_dacl = default_aces\<rparr>"
  unfolding default_hive_root_sd_def
  by (rule read_marshal_sd)
    (simp_all add: sid_ok_def sid_system_def sid_administrators_def sid_authenticated_users_def default_aces_def
      aces_size_def ace_size_def sid_size_def acl_header_size_def)

end
