(* ===== verification/Transitions.thy ===== *)
theory Transitions
  imports Prelude
begin

text \<open>
  Step relations and their reachable states, and the interface through which a component
  states an invariant once: the initial states satisfy it and every step keeps it.
\<close>

inductive reachable :: "('s \<Rightarrow> bool) \<Rightarrow> ('s \<Rightarrow> 's \<Rightarrow> bool) \<Rightarrow> 's \<Rightarrow> bool"
  for init :: "'s \<Rightarrow> bool" and step :: "'s \<Rightarrow> 's \<Rightarrow> bool" where
  start: "init s \<Longrightarrow> reachable init step s"
| move: "reachable init step s \<Longrightarrow> step s s' \<Longrightarrow> reachable init step s'"

locale invariant_system =
  fixes init :: "'s \<Rightarrow> bool" and step :: "'s \<Rightarrow> 's \<Rightarrow> bool" and inv :: "'s \<Rightarrow> bool"
  assumes inv_init: "init s \<Longrightarrow> inv s"
    and inv_step: "inv s \<Longrightarrow> step s s' \<Longrightarrow> inv s'"
begin

lemma reachable_inv: "reachable init step s \<Longrightarrow> inv s"
  by (induction rule: reachable.induct) (auto intro: inv_init inv_step)

lemma reachable_step_inv: "reachable init step s \<Longrightarrow> step s s' \<Longrightarrow> inv s \<and> inv s'"
  using reachable_inv inv_step by blast

end

section \<open>Counting the threads in a state\<close>

definition count_if :: "('p \<Rightarrow> bool) \<Rightarrow> (nat \<Rightarrow> 'p) \<Rightarrow> nat" where
  "count_if P f = card {t. P (f t)}"

lemma count_if_upd:
  assumes "finite {t. P (f t)}"
  shows "finite {t'. P ((f(t := p)) t')}"
    and "int (count_if P (f(t := p))) = int (count_if P f) - (if P (f t) then 1 else 0) + (if P p then 1 else 0)"
proof -
  have eq: "{t'. P ((f(t := p)) t')} = (if P p then insert t ({t'. P (f t')} - {t}) else {t'. P (f t')} - {t})"
    by auto
  show "finite {t'. P ((f(t := p)) t')}" unfolding eq using assms by simp
  have "0 < card {t'. P (f t')}" if "P (f t)" using that assms by (auto simp: card_gt_0_iff)
  then show "int (count_if P (f(t := p))) = int (count_if P f) - (if P (f t) then 1 else 0) + (if P p then 1 else 0)"
    unfolding count_if_def eq using assms by (auto simp: card.insert_remove card_Diff_singleton_if of_nat_diff)
qed

lemma count_if_eq_0: "finite {t. P (f t)} \<Longrightarrow> count_if P f = 0 \<longleftrightarrow> (\<forall>t. \<not> P (f t))"
  by (auto simp: count_if_def)

lemma count_if_le_1:
  assumes "finite {t. P (f t)}" and "count_if P f \<le> 1" and "P (f t)" and "P (f u)"
  shows "t = u"
  using assms card_le_Suc0_iff_eq [of "{t. P (f t)}"] by (auto simp: count_if_def)

end
