(* ===== verification/Gate.thy ===== *)
theory Gate
  imports Transitions
begin

text \<open>
  The publication gate of a hive: \<open>internal/hivedb/gate.go\<close>.  Each critical section under the
  gate's mutex is one function on the gate record; a request is a thread that is outside,
  blocked on the notification channel it read, or inside.  A channel is a number, closed when
  it is in \<open>g_closed\<close>; \<open>g_next\<close> is the next one \<open>make\<close> returns.
\<close>

section \<open>The critical sections\<close>

record gate =
  g_readers :: int
  g_waiting_writers :: int
  g_writer :: bool
  g_changed :: "nat option"
  g_closed :: "nat list"
  g_next :: nat

definition new_gate :: gate where
  "new_gate = \<lparr>g_readers = 0, g_waiting_writers = 0, g_writer = False, g_changed = None, g_closed = [], g_next = 0\<rparr>"

definition notify :: "gate \<Rightarrow> gate" where
  "notify g = (case g_changed g of None \<Rightarrow> g | Some ch \<Rightarrow> g\<lparr>g_closed := ch # g_closed g, g_changed := None\<rparr>)"

datatype outcome = Expired | Granted | Wait nat

definition eligible :: "bool \<Rightarrow> gate \<Rightarrow> bool" where
  "eligible write g \<longleftrightarrow> \<not> g_writer g \<and> (write \<and> g_readers g = 0 \<or> \<not> write \<and> g_waiting_writers g = 0)"

text \<open>\<open>Acquire\<close>: the registration of a writer, and one pass of its loop.\<close>

definition acquire_enter :: "bool \<Rightarrow> gate \<Rightarrow> gate" where
  "acquire_enter write g = (if write then g\<lparr>g_waiting_writers := g_waiting_writers g + 1\<rparr> else g)"

definition attempt :: "bool \<Rightarrow> bool \<Rightarrow> gate \<Rightarrow> gate \<times> outcome" where
  "attempt write expired g =
     (if expired then
        (if write then notify (g\<lparr>g_waiting_writers := g_waiting_writers g - 1\<rparr>) else g, Expired)
      else if eligible write g then
        (if write then g\<lparr>g_waiting_writers := g_waiting_writers g - 1, g_writer := True\<rparr>
         else g\<lparr>g_readers := g_readers g + 1\<rparr>, Granted)
      else
        (let g = (if g_changed g = None then g\<lparr>g_changed := Some (g_next g), g_next := g_next g + 1\<rparr> else g)
         in (g, Wait (the (g_changed g)))))"

definition release :: "bool \<Rightarrow> gate \<Rightarrow> gate" where
  "release write g = notify (if write then g\<lparr>g_writer := False\<rparr> else g\<lparr>g_readers := g_readers g - 1\<rparr>)"

section \<open>Requests at the gate\<close>

datatype pc = Outside | Blocked bool nat | Inside bool

fun pc_after :: "bool \<Rightarrow> outcome \<Rightarrow> pc" where
  "pc_after w Expired = Outside"
| "pc_after w Granted = Inside w"
| "pc_after w (Wait ch) = Blocked w ch"

record gate_sys =
  gs_gate :: gate
  gs_pc :: "nat \<Rightarrow> pc"

text \<open>
  A blocked request runs again when its context is done or its channel is closed; when it runs
  because the context is done, \<open>ctx.Err\<close> reports it.
\<close>

inductive gate_step :: "gate_sys \<Rightarrow> gate_sys \<Rightarrow> bool" where
  enter: "gs_pc s t = Outside \<Longrightarrow> attempt w ex (acquire_enter w (gs_gate s)) = (g, out) \<Longrightarrow>
     gate_step s \<lparr>gs_gate = g, gs_pc = (gs_pc s)(t := pc_after w out)\<rparr>"
| wake: "gs_pc s t = Blocked w ch \<Longrightarrow> ex \<or> ch \<in> set (g_closed (gs_gate s)) \<Longrightarrow>
     attempt w ex (gs_gate s) = (g, out) \<Longrightarrow>
     gate_step s \<lparr>gs_gate = g, gs_pc = (gs_pc s)(t := pc_after w out)\<rparr>"
| leave: "gs_pc s t = Inside w \<Longrightarrow>
     gate_step s \<lparr>gs_gate = release w (gs_gate s), gs_pc = (gs_pc s)(t := Outside)\<rparr>"

inductive_cases gate_stepE: "gate_step s s'"

definition gate_init :: "gate_sys \<Rightarrow> bool" where
  "gate_init s \<longleftrightarrow> s = \<lparr>gs_gate = new_gate, gs_pc = (\<lambda>_. Outside)\<rparr>"

section \<open>The invariant\<close>

fun is_reader :: "pc \<Rightarrow> bool" where "is_reader (Inside False) = True" | "is_reader _ = False"
fun is_writer :: "pc \<Rightarrow> bool" where "is_writer (Inside True) = True" | "is_writer _ = False"
fun is_waiting_writer :: "pc \<Rightarrow> bool" where "is_waiting_writer (Blocked True _) = True" | "is_waiting_writer _ = False"

lemma pc_kinds [simp]:
  "is_reader (Inside w) = (\<not> w)" "is_writer (Inside w) = w" "is_waiting_writer (Blocked w ch) = w"
  by (cases w; simp)+

definition counters_ok :: "gate \<Rightarrow> (nat \<Rightarrow> pc) \<Rightarrow> bool" where
  "counters_ok g f \<longleftrightarrow>
     finite {t. is_reader (f t)} \<and> finite {t. is_writer (f t)} \<and> finite {t. is_waiting_writer (f t)} \<and>
     g_readers g = int (count_if is_reader f) \<and>
     g_waiting_writers g = int (count_if is_waiting_writer f) \<and>
     int (count_if is_writer f) = (if g_writer g then 1 else 0) \<and>
     (g_writer g \<longrightarrow> g_readers g = 0)"

definition waiter_ok :: "gate \<Rightarrow> pc \<Rightarrow> bool" where
  "waiter_ok g p \<longleftrightarrow>
     (case p of Blocked w ch \<Rightarrow> ch \<in> set (g_closed g) \<or> g_changed g = Some ch \<and> \<not> eligible w g | _ \<Rightarrow> True)"

definition gate_inv :: "gate_sys \<Rightarrow> bool" where
  "gate_inv s \<longleftrightarrow> counters_ok (gs_gate s) (gs_pc s) \<and> (\<forall>t. waiter_ok (gs_gate s) (gs_pc s t))"

lemma notify_fields [simp]:
  "g_readers (notify g) = g_readers g" "g_waiting_writers (notify g) = g_waiting_writers g"
  "g_writer (notify g) = g_writer g" "g_changed (notify g) = None"
  by (simp_all add: notify_def split: option.split)

lemma notify_closes: "ch \<in> set (g_closed g) \<or> g_changed g = Some ch \<Longrightarrow> ch \<in> set (g_closed (notify g))"
  by (auto simp: notify_def split: option.split)

lemma waiter_notify: "waiter_ok g p \<Longrightarrow> g_closed g' = g_closed g \<Longrightarrow> g_changed g' = g_changed g \<Longrightarrow> waiter_ok (notify g') p"
  using notify_closes [of _ g'] by (auto simp: waiter_ok_def split: pc.splits)

lemma counters_upd:
  assumes "counters_ok g f"
    and "g_readers g' = g_readers g - (if is_reader (f t) then 1 else 0) + (if is_reader p then 1 else 0)"
    and "g_waiting_writers g' = g_waiting_writers g - (if is_waiting_writer (f t) then 1 else 0) + (if is_waiting_writer p then 1 else 0)"
    and "(if g_writer g' then 1 else 0) = (if g_writer g then 1 else (0 :: int)) - (if is_writer (f t) then 1 else 0) + (if is_writer p then 1 else 0)"
    and "g_writer g' \<Longrightarrow> g_readers g' = 0"
  shows "counters_ok g' (f(t := p))"
proof -
  have fin: "finite {t. is_reader (f t)}" "finite {t. is_writer (f t)}" "finite {t. is_waiting_writer (f t)}"
    and cnt: "g_readers g = int (count_if is_reader f)" "g_waiting_writers g = int (count_if is_waiting_writer f)"
      "int (count_if is_writer f) = (if g_writer g then 1 else 0)"
    using assms(1) by (simp_all add: counters_ok_def)
  note r = count_if_upd [of is_reader f t p, OF fin(1)] and w = count_if_upd [of is_writer f t p, OF fin(2)]
    and ww = count_if_upd [of is_waiting_writer f t p, OF fin(3)]
  show ?thesis unfolding counters_ok_def
    by (intro conjI impI, rule r(1), rule w(1), rule ww(1), simp only: r(2) assms(2) cnt, simp only: ww(2) assms(3) cnt,
        simp only: w(2) assms(4) cnt, erule assms(5))
qed

lemma counters_member:
  assumes "counters_ok g f"
  shows "is_reader (f t) \<Longrightarrow> 0 < g_readers g" "is_waiting_writer (f t) \<Longrightarrow> 0 < g_waiting_writers g"
    "is_writer (f t) \<Longrightarrow> g_writer g"
proof -
  have pos: "0 < count_if P f" if "finite {t. P (f t)}" "P (f t)" for P :: "pc \<Rightarrow> bool"
    using count_if_eq_0 [of P f, OF that(1)] that(2) by auto
  show "is_reader (f t) \<Longrightarrow> 0 < g_readers g" "is_waiting_writer (f t) \<Longrightarrow> 0 < g_waiting_writers g"
    using assms pos [of is_reader] pos [of is_waiting_writer] by (simp_all add: counters_ok_def)
  show "is_writer (f t) \<Longrightarrow> g_writer g"
    using assms pos [of is_writer] by (auto simp: counters_ok_def split: if_splits)
qed

text \<open>One pass of the loop, for a request that is counted as a waiter of its kind.\<close>

lemma attempt_cases:
  assumes "attempt w ex g = (g', out)"
  obtains (expired) "ex" "out = Expired" "g' = (if w then notify (g\<lparr>g_waiting_writers := g_waiting_writers g - 1\<rparr>) else g)"
    | (granted_write) "\<not> ex" "w" "eligible True g" "out = Granted" "g' = g\<lparr>g_waiting_writers := g_waiting_writers g - 1, g_writer := True\<rparr>"
    | (granted_read) "\<not> ex" "\<not> w" "eligible False g" "out = Granted" "g' = g\<lparr>g_readers := g_readers g + 1\<rparr>"
    | (wait_new) "\<not> ex" "\<not> eligible w g" "g_changed g = None" "out = Wait (g_next g)"
        "g' = g\<lparr>g_changed := Some (g_next g), g_next := g_next g + 1\<rparr>"
    | (wait_old) ch where "\<not> ex" "\<not> eligible w g" "g_changed g = Some ch" "out = Wait ch" "g' = g"
proof (cases "ex")
  case True
  with assms expired show ?thesis by (simp add: attempt_def)
next
  case admitted: False
  show ?thesis
  proof (cases "eligible w g")
    case True
    with admitted assms granted_write granted_read show ?thesis by (cases w) (simp_all add: attempt_def)
  next
    case False
    show ?thesis
    proof (cases "g_changed g")
      case None
      show ?thesis by (rule wait_new) (use admitted False None assms in \<open>simp_all add: attempt_def\<close>)
    next
      case (Some ch)
      show ?thesis by (rule wait_old) (use admitted False Some assms in \<open>auto simp: attempt_def\<close>)
    qed
  qed
qed

lemma waiter_eligible_mono:
  "waiter_ok g p \<Longrightarrow> g_closed g' = g_closed g \<Longrightarrow> g_changed g' = g_changed g \<or> g_changed g = None \<Longrightarrow>
   (\<And>w ch. p = Blocked w ch \<Longrightarrow> eligible w g' \<Longrightarrow> eligible w g) \<Longrightarrow> waiter_ok g' p"
  by (auto simp: waiter_ok_def split: pc.splits)

lemma attempt_keeps:
  assumes g: "counters_ok g f" and waiters: "\<And>u. u \<noteq> t \<Longrightarrow> waiter_ok g (f u)"
    and me: "f t = Blocked w ch" and run: "attempt w ex g = (g', out)"
  shows "counters_ok g' (f(t := pc_after w out)) \<and> (\<forall>u. waiter_ok g' ((f(t := pc_after w out)) u))"
  using run
proof (cases rule: attempt_cases)
  case expired
  have "counters_ok g' (f(t := Outside))"
    by (rule counters_upd [OF g]) (use expired me g in \<open>simp_all add: counters_ok_def split: if_splits\<close>)
  moreover have "waiter_ok g' (f u)" if "u \<noteq> t" for u
    using waiters [OF that] expired(3) waiter_notify [of g "f u" "g\<lparr>g_waiting_writers := g_waiting_writers g - 1\<rparr>"] by simp
  ultimately show ?thesis using expired(2) by (simp add: waiter_ok_def)
next
  case granted_write
  have "counters_ok g' (f(t := Inside True))"
    by (rule counters_upd [OF g]) (use granted_write me in \<open>simp_all add: eligible_def\<close>)
  moreover have "waiter_ok g' (f u)" if "u \<noteq> t" for u
    by (rule waiter_eligible_mono [OF waiters [OF that]]) (simp_all add: granted_write eligible_def)
  ultimately show ?thesis using granted_write by (simp add: waiter_ok_def)
next
  case granted_read
  have "counters_ok g' (f(t := Inside False))"
    by (rule counters_upd [OF g]) (use granted_read me in \<open>simp_all add: eligible_def\<close>)
  moreover have "waiter_ok g' (f u)" if "u \<noteq> t" for u
  proof (rule waiter_eligible_mono [OF waiters [OF that]])
    fix v c assume u: "f u = Blocked v c" "eligible v g'"
    show "eligible v g"
    proof (cases v)
      case True
      with u(1) counters_member(2) [OF g, of u] granted_read(3) show ?thesis by (simp add: eligible_def)
    qed (use granted_read(3) in simp)
  qed (simp_all add: granted_read)
  ultimately show ?thesis using granted_read by (simp add: waiter_ok_def)
next
  case wait_new
  have "counters_ok g' (f(t := Blocked w (g_next g)))"
    by (rule counters_upd [OF g]) (use wait_new me g in \<open>simp_all add: counters_ok_def\<close>)
  moreover have "waiter_ok g' (f u)" if "u \<noteq> t" for u
    by (rule waiter_eligible_mono [OF waiters [OF that]]) (simp_all add: wait_new eligible_def)
  ultimately show ?thesis using wait_new by (simp add: waiter_ok_def eligible_def)
next
  case (wait_old c)
  have "counters_ok g' (f(t := Blocked w c))"
    by (rule counters_upd [OF g]) (use wait_old me g in \<open>simp_all add: counters_ok_def\<close>)
  with wait_old waiters show ?thesis by (simp add: waiter_ok_def)
qed

text \<open>A request that enters is first counted, then runs the loop; a release notifies.\<close>

lemma enter_keeps:
  assumes inv: "gate_inv s" and out: "gs_pc s t = Outside"
  shows "counters_ok (acquire_enter w (gs_gate s)) ((gs_pc s)(t := Blocked w ch))"
    and "u \<noteq> t \<Longrightarrow> waiter_ok (acquire_enter w (gs_gate s)) (((gs_pc s)(t := Blocked w ch)) u)"
proof -
  have g: "counters_ok (gs_gate s) (gs_pc s)" and waiters: "waiter_ok (gs_gate s) (gs_pc s u)" for u
    using inv by (simp_all add: gate_inv_def)
  show "counters_ok (acquire_enter w (gs_gate s)) ((gs_pc s)(t := Blocked w ch))"
    by (rule counters_upd [OF g]) (use out g in \<open>simp_all add: acquire_enter_def counters_ok_def split: if_splits\<close>)
  show "waiter_ok (acquire_enter w (gs_gate s)) (((gs_pc s)(t := Blocked w ch)) u)" if "u \<noteq> t"
  proof (rule waiter_eligible_mono)
    show "waiter_ok (gs_gate s) (((gs_pc s)(t := Blocked w ch)) u)" using waiters [of u] that by simp
    show "eligible v (gs_gate s)" if "eligible v (acquire_enter w (gs_gate s))" for v
      using that g by (cases w) (auto simp: acquire_enter_def eligible_def counters_ok_def)
  qed (simp_all add: acquire_enter_def)
qed

lemma gate_inv_step: "gate_inv s \<Longrightarrow> gate_step s s' \<Longrightarrow> gate_inv s'"
proof (erule gate_stepE)
  fix t w ex g out
  assume inv: "gate_inv s" and s': "s' = \<lparr>gs_gate = g, gs_pc = (gs_pc s)(t := pc_after w out)\<rparr>"
    and "gs_pc s t = Outside" and run: "attempt w ex (acquire_enter w (gs_gate s)) = (g, out)"
  have "((gs_pc s)(t := Blocked w 0)) t = Blocked w 0" by simp
  note keeps = attempt_keeps [OF enter_keeps(1) [OF inv \<open>gs_pc s t = Outside\<close>]
      enter_keeps(2) [OF inv \<open>gs_pc s t = Outside\<close>] this run]
  have "counters_ok g ((gs_pc s)(t := pc_after w out)) \<and> (\<forall>u. waiter_ok g (((gs_pc s)(t := pc_after w out)) u))"
    using keeps unfolding fun_upd_upd by blast
  then
  show "gate_inv s'" unfolding s' gate_inv_def gate_sys.select_convs by blast
next
  fix t w ch ex g out
  assume inv: "gate_inv s" and s': "s' = \<lparr>gs_gate = g, gs_pc = (gs_pc s)(t := pc_after w out)\<rparr>"
    and me: "gs_pc s t = Blocked w ch" and run: "attempt w ex (gs_gate s) = (g, out)"
  have g: "counters_ok (gs_gate s) (gs_pc s)" and waiters: "\<And>u. waiter_ok (gs_gate s) (gs_pc s u)"
    using inv by (simp_all add: gate_inv_def)
  from attempt_keeps [of "gs_gate s" "gs_pc s", OF g waiters me run]
  show "gate_inv s'" unfolding s' gate_inv_def gate_sys.select_convs .
next
  fix t w
  assume inv: "gate_inv s" and s': "s' = \<lparr>gs_gate = release w (gs_gate s), gs_pc = (gs_pc s)(t := Outside)\<rparr>"
    and me: "gs_pc s t = Inside w"
  then have g: "counters_ok (gs_gate s) (gs_pc s)" by (simp add: gate_inv_def)
  have "counters_ok (release w (gs_gate s)) ((gs_pc s)(t := Outside))"
    by (rule counters_upd [OF g])
      (use me g counters_member [OF g, of t] in \<open>auto simp: release_def counters_ok_def\<close>)
  moreover have "waiter_ok (release w (gs_gate s)) (gs_pc s u)" for u
    unfolding release_def by (rule waiter_notify [of "gs_gate s"]) (use inv in \<open>auto simp: gate_inv_def\<close>)
  ultimately show "gate_inv s'" unfolding s' gate_inv_def by (simp add: waiter_ok_def)
qed

interpretation gate_system: invariant_system gate_init gate_step gate_inv
proof
  show "gate_inv s" if "gate_init s" for s
    using that by (simp add: gate_init_def gate_inv_def counters_ok_def count_if_def new_gate_def waiter_ok_def)
  show "gate_inv s'" if "gate_inv s" "gate_step s s'" for s s' using that by (rule gate_inv_step)
qed

section \<open>What the gate promises\<close>

text \<open>C22: publication excludes reads and other publication: no reachable state has a request
  inside with write access beside any other request inside.\<close>

theorem gate_mutual_exclusion:
  assumes "reachable gate_init gate_step s" and "gs_pc s t = Inside True" and "gs_pc s u = Inside w"
  shows "u = t"
proof -
  have inv: "counters_ok (gs_gate s) (gs_pc s)" using gate_system.reachable_inv [OF assms(1)] by (simp add: gate_inv_def)
  have "g_writer (gs_gate s)" using counters_member(3) [OF inv, of t] assms(2) by simp
  then have "g_readers (gs_gate s) = 0" "int (count_if is_writer (gs_pc s)) = 1" using inv by (simp_all add: counters_ok_def)
  then have "w" using counters_member(1) [OF inv, of u] assms(3) by auto
  then show ?thesis
    using count_if_le_1 [of is_writer "gs_pc s" u t] inv assms(2,3) \<open>int (count_if is_writer (gs_pc s)) = 1\<close>
    by (simp add: counters_ok_def)
qed

text \<open>C23: no wake-up is lost: in every reachable state a request blocked on a channel that is
  still open is one the gate would refuse now, and a request the gate would admit is blocked
  on a closed channel, so it can run.\<close>

theorem gate_no_lost_wakeup:
  assumes "reachable gate_init gate_step s" and "gs_pc s t = Blocked w ch" and "eligible w (gs_gate s)"
  shows "ch \<in> set (g_closed (gs_gate s)) \<and>
    gate_step s \<lparr>gs_gate = fst (attempt w False (gs_gate s)), gs_pc = (gs_pc s)(t := Inside w)\<rparr>"
proof -
  have "waiter_ok (gs_gate s) (gs_pc s t)" using gate_system.reachable_inv [OF assms(1)] by (simp add: gate_inv_def)
  with assms(2,3) have closed: "ch \<in> set (g_closed (gs_gate s))" by (auto simp: waiter_ok_def)
  obtain g out where run: "attempt w False (gs_gate s) = (g, out)" by (cases "attempt w False (gs_gate s)")
  with assms(3) have "out = Granted" by (auto simp: attempt_def)
  with wake [OF assms(2) disjI2 [OF closed] run] closed run show ?thesis by simp
qed

text \<open>C24: writers have priority: while a writer waits no step lets a reader in, so the readers
  inside only drain.\<close>

theorem gate_writer_priority:
  assumes "reachable gate_init gate_step s" and "gs_pc s t = Blocked True ch" and "gate_step s s'"
    and "gs_pc s' u = Inside False"
  shows "gs_pc s u = Inside False"
proof -
  have inv: "counters_ok (gs_gate s) (gs_pc s)" using gate_system.reachable_inv [OF assms(1)] by (simp add: gate_inv_def)
  have waiting: "0 < g_waiting_writers (gs_gate s)" using counters_member(2) [OF inv, of t] assms(2) by simp
  have refused: "out \<noteq> Granted" if "attempt False ex (gs_gate s) = (g, out)" for ex g out
    using that waiting by (auto simp: attempt_def eligible_def Let_def split: if_splits)
  from assms(3) show ?thesis
  proof (rule gate_stepE)
    fix v w ex g out
    assume "s' = \<lparr>gs_gate = g, gs_pc = (gs_pc s)(v := pc_after w out)\<rparr>"
      and "attempt w ex (acquire_enter w (gs_gate s)) = (g, out)"
    with assms(4) refused [of ex g out] show ?thesis
      by (cases "u = v"; cases w; cases out) (auto simp: acquire_enter_def)
  next
    fix v w ch ex g out
    assume "s' = \<lparr>gs_gate = g, gs_pc = (gs_pc s)(v := pc_after w out)\<rparr>"
      and "attempt w ex (gs_gate s) = (g, out)"
    with assms(4) refused [of ex g out] show ?thesis by (cases "u = v"; cases w; cases out) auto
  next
    fix v w
    assume "s' = \<lparr>gs_gate = release w (gs_gate s), gs_pc = (gs_pc s)(v := Outside)\<rparr>"
    with assms(4) show ?thesis by (auto split: if_splits)
  qed
qed

text \<open>A schedule that makes a writer wait behind a reader: the witnesses run it.\<close>

definition gate_s1 :: gate_sys where
  "gate_s1 = \<lparr>gs_gate = new_gate\<lparr>g_readers := 1\<rparr>, gs_pc = (\<lambda>_. Outside)(1 := Inside False)\<rparr>"
definition gate_s2 :: gate_sys where
  "gate_s2 = \<lparr>gs_gate = new_gate\<lparr>g_readers := 1, g_waiting_writers := 1, g_changed := Some 0, g_next := 1\<rparr>,
     gs_pc = (\<lambda>_. Outside)(1 := Inside False, 2 := Blocked True 0)\<rparr>"
definition gate_s3 :: gate_sys where
  "gate_s3 = \<lparr>gs_gate = new_gate\<lparr>g_readers := 0, g_waiting_writers := 1, g_closed := [0], g_next := 1\<rparr>,
     gs_pc = (\<lambda>_. Outside)(1 := Inside False, 2 := Blocked True 0, 1 := Outside)\<rparr>"
definition gate_s4 :: gate_sys where
  "gate_s4 = \<lparr>gs_gate = new_gate\<lparr>g_writer := True, g_closed := [0], g_next := 1\<rparr>,
     gs_pc = (\<lambda>_. Outside)(1 := Inside False, 2 := Blocked True 0, 1 := Outside, 2 := Inside True)\<rparr>"

lemma gate_schedule:
  "reachable gate_init gate_step gate_s2" "gate_step gate_s2 gate_s3" "reachable gate_init gate_step gate_s3"
  "reachable gate_init gate_step gate_s4"
proof -
  have r0: "reachable gate_init gate_step \<lparr>gs_gate = new_gate, gs_pc = (\<lambda>_. Outside)\<rparr>"
    by (rule start) (simp add: gate_init_def)
  have "gate_step \<lparr>gs_gate = new_gate, gs_pc = (\<lambda>_. Outside)\<rparr> gate_s1"
    using enter [of "\<lparr>gs_gate = new_gate, gs_pc = (\<lambda>_. Outside)\<rparr>" 1 False False "new_gate\<lparr>g_readers := 1\<rparr>" Granted]
    by (simp add: attempt_def acquire_enter_def eligible_def new_gate_def gate_s1_def)
  with r0 have r1: "reachable gate_init gate_step gate_s1" by (rule move)
  have "gate_step gate_s1 gate_s2"
    using enter [of gate_s1 2 True False "gs_gate gate_s2" "Wait 0"]
    by (simp add: attempt_def acquire_enter_def eligible_def new_gate_def gate_s1_def gate_s2_def)
  with r1 show r2: "reachable gate_init gate_step gate_s2" by (rule move)
  show s3: "gate_step gate_s2 gate_s3"
    using leave [of gate_s2 1 False] by (simp add: release_def notify_def new_gate_def gate_s2_def gate_s3_def)
  with r2 show r3: "reachable gate_init gate_step gate_s3" by (rule move)
  have "gate_step gate_s3 gate_s4"
    using wake [of gate_s3 2 True 0 False "gs_gate gate_s4" Granted]
    by (simp add: attempt_def eligible_def new_gate_def gate_s3_def gate_s4_def)
  with r3 show "reachable gate_init gate_step gate_s4" by (rule move)
qed

theorem gate_mutual_exclusion_witness:
  "gs_pc gate_s4 2 = Inside True \<and> {u. \<exists>w. gs_pc gate_s4 u = Inside w} = {2}"
proof -
  have inside: "gs_pc gate_s4 2 = Inside True" by (simp add: gate_s4_def)
  from gate_mutual_exclusion [OF gate_schedule(4) this] inside show ?thesis by blast
qed

theorem gate_no_lost_wakeup_witness:
  "gate_step gate_s3 \<lparr>gs_gate = fst (attempt True False (gs_gate gate_s3)), gs_pc = (gs_pc gate_s3)(2 := Inside True)\<rparr>"
  using gate_no_lost_wakeup [OF gate_schedule(3), of 2 True 0] by (simp add: gate_s3_def new_gate_def eligible_def)

text \<open>A reader that arrives behind the waiting writer blocks; the reader inside stays.\<close>

definition gate_s2b :: gate_sys where
  "gate_s2b = gate_s2\<lparr>gs_pc := (gs_pc gate_s2)(3 := Blocked False 0)\<rparr>"

lemma gate_late_reader: "gate_step gate_s2 gate_s2b"
  using enter [of gate_s2 3 False False "gs_gate gate_s2" "Wait 0"]
  by (simp add: attempt_def acquire_enter_def eligible_def new_gate_def gate_s2_def gate_s2b_def)

theorem gate_writer_priority_witness:
  "gs_pc gate_s2 2 = Blocked True 0 \<and> gs_pc gate_s2b 1 = Inside False \<and>
   {u. gs_pc gate_s2b u = Inside False} \<subseteq> {u. gs_pc gate_s2 u = Inside False}"
  using gate_writer_priority [OF gate_schedule(1) _ gate_late_reader, of 2 0] by (auto simp: gate_s2_def gate_s2b_def)

end
