(* ===== verification/Store.thy ===== *)
theory Store
  imports Prelude
begin

text \<open>
  The storage model below the handlers.  First the tables of \<open>internal/hivedb/schema.go\<close>: one
  row type per table, a schema (\<open>main\<close> or \<open>volatile\<close>) of four tables and a database of two
  schemas.  Then the SQL statements the Go code sends, as functions on tables (the interface
  \<open>keyed_table\<close> states what a table with a primary key promises, and is interpreted for the
  four tables).  Last the environment: SQLite itself, the clock and the request context are
  not part of the repository, so a list of \<open>event\<close>s says for every statement how much time
  passes, whether the engine reports an error, and in which order an unordered query returns
  its rows.
\<close>

section \<open>Rows, schemas, databases\<close>

record key_row =
  kr_guid :: guid
  kr_name :: bytes
  kr_name_folded :: bytes
  kr_parent_guid :: "guid option"
  kr_sd :: bytes
  kr_volatile :: int
  kr_symlink :: int
  kr_last_write_time :: u64

record path_row =
  pr_parent_guid :: guid
  pr_child_name :: bytes
  pr_child_name_folded :: bytes
  pr_layer :: bytes
  pr_target_type :: u8
  pr_target_guid :: "guid option"
  pr_sequence :: u64

record value_row =
  vr_key_guid :: guid
  vr_name :: bytes
  vr_name_folded :: bytes
  vr_layer :: bytes
  vr_type :: u32
  vr_data :: bytes
  vr_sequence :: u64

record blanket_row =
  br_key_guid :: guid
  br_layer :: bytes
  br_sequence :: u64

record schema =
  s_keys :: "key_row list"
  s_path_entries :: "path_row list"
  s_values :: "value_row list"
  s_blankets :: "blanket_row list"

record db =
  db_main :: schema
  db_volatile :: schema

definition empty_schema :: schema where
  "empty_schema = \<lparr>s_keys = [], s_path_entries = [], s_values = [], s_blankets = []\<rparr>"

definition empty_db :: db where
  "empty_db = \<lparr>db_main = empty_schema, db_volatile = empty_schema\<rparr>"

datatype store = Main | Volatile

fun other_store :: "store \<Rightarrow> store" where
  "other_store Main = Volatile" | "other_store Volatile = Main"

fun schema_of :: "store \<Rightarrow> db \<Rightarrow> schema" where
  "schema_of Main d = db_main d" | "schema_of Volatile d = db_volatile d"

fun map_schema :: "store \<Rightarrow> (schema \<Rightarrow> schema) \<Rightarrow> db \<Rightarrow> db" where
  "map_schema Main f d = d\<lparr>db_main := f (db_main d)\<rparr>"
| "map_schema Volatile f d = d\<lparr>db_volatile := f (db_volatile d)\<rparr>"

lemma schema_of_map_schema [sql_simps]:
  "schema_of st (map_schema st' f d) = (if st = st' then f (schema_of st d) else schema_of st d)"
  by (cases st; cases st') simp_all

lemma other_store_simps [simp]: "other_store st \<noteq> st" "st \<noteq> other_store st" "other_store (other_store st) = st"
  by (cases st; simp)+

text \<open>The primary keys of the four tables.\<close>

definition path_pk :: "path_row \<Rightarrow> guid \<times> bytes \<times> bytes" where
  "path_pk r = (pr_parent_guid r, pr_child_name_folded r, pr_layer r)"

definition value_pk :: "value_row \<Rightarrow> guid \<times> bytes \<times> bytes" where
  "value_pk r = (vr_key_guid r, vr_name_folded r, vr_layer r)"

definition blanket_pk :: "blanket_row \<Rightarrow> guid \<times> bytes" where
  "blanket_pk r = (br_key_guid r, br_layer r)"

lemmas pk_defs = path_pk_def value_pk_def blanket_pk_def

section \<open>Statements on one table\<close>

definition insert_row :: "('r \<Rightarrow> 'k) \<Rightarrow> 'r \<Rightarrow> 'r list \<Rightarrow> 'r list option" where
  "insert_row key r t = (if key r \<in> set (map key t) then None else Some (t @ [r]))"

definition replace_row :: "('r \<Rightarrow> 'k) \<Rightarrow> 'r \<Rightarrow> 'r list \<Rightarrow> 'r list" where
  "replace_row key r t = filter (\<lambda>r'. key r' \<noteq> key r) t @ [r]"

definition delete_where :: "('r \<Rightarrow> bool) \<Rightarrow> 'r list \<Rightarrow> 'r list" where
  "delete_where P t = filter (\<lambda>r. \<not> P r) t"

definition update_where :: "('r \<Rightarrow> bool) \<Rightarrow> ('r \<Rightarrow> 'r) \<Rightarrow> 'r list \<Rightarrow> 'r list" where
  "update_where P f t = map (\<lambda>r. if P r then f r else r) t"

text \<open>
  What a table with a primary key promises its users: every statement keeps the key unique,
  a successful INSERT adds one row, INSERT OR REPLACE leaves exactly the new row under its
  key and touches no other, DELETE removes exactly the selected rows.
\<close>

locale keyed_table =
  fixes key :: "'r \<Rightarrow> 'k"
    and ins :: "'r \<Rightarrow> 'r list \<Rightarrow> 'r list option"
    and repl :: "'r \<Rightarrow> 'r list \<Rightarrow> 'r list"
    and del :: "('r \<Rightarrow> bool) \<Rightarrow> 'r list \<Rightarrow> 'r list"
  assumes ins_None: "ins r t = None \<longleftrightarrow> key r \<in> key ` set t"
    and ins_Some: "ins r t = Some t' \<Longrightarrow> mset t' = add_mset r (mset t)"
    and repl_mset: "mset (repl r t) = add_mset r (filter_mset (\<lambda>r'. key r' \<noteq> key r) (mset t))"
    and del_mset: "mset (del P t) = filter_mset (\<lambda>r. \<not> P r) (mset t)"
begin

definition wf :: "'r list \<Rightarrow> bool" where "wf t \<longleftrightarrow> distinct (map key t)"

lemma wf_mset: "mset t = mset t' \<Longrightarrow> wf t = wf t'"
  unfolding wf_def by (metis mset_eq_imp_distinct_iff mset_map)

lemma wf_append: "wf (t @ [r]) \<longleftrightarrow> wf t \<and> key r \<notin> key ` set t"
  by (auto simp: wf_def)

lemma wf_ins: "wf t \<Longrightarrow> ins r t = Some t' \<Longrightarrow> wf t'"
proof -
  assume t: "wf t" and i: "ins r t = Some t'"
  have "key r \<notin> key ` set t" using ins_None [of r t] i by simp
  with t have "wf (t @ [r])" by (simp add: wf_append)
  with wf_mset [of t' "t @ [r]"] ins_Some [OF i] show ?thesis by simp
qed

lemma wf_filter: "wf t \<Longrightarrow> wf (filter P t)"
  unfolding wf_def by (rule distinct_map_filter_key)

lemma wf_repl: "wf t \<Longrightarrow> wf (repl r t)"
proof -
  assume "wf t"
  then have "wf (filter (\<lambda>r'. key r' \<noteq> key r) t @ [r])" by (auto simp: wf_append wf_filter)
  moreover have "mset (repl r t) = mset (filter (\<lambda>r'. key r' \<noteq> key r) t @ [r])" by (simp add: repl_mset)
  ultimately show ?thesis using wf_mset by blast
qed

lemma wf_del: "wf t \<Longrightarrow> wf (del P t)"
  using wf_mset [of "del P t" "filter (\<lambda>r. \<not> P r) t"] wf_filter by (simp add: del_mset)

lemma set_ins: "ins r t = Some t' \<Longrightarrow> set t' = insert r (set t)"
  using ins_Some [of r t t'] by (metis set_mset_add_mset_insert set_mset_mset)

lemma set_repl: "set (repl r t) = insert r {r' \<in> set t. key r' \<noteq> key r}"
  using arg_cong [OF repl_mset, of set_mset r t] by simp

lemma set_del: "set (del P t) = {r \<in> set t. \<not> P r}"
  using arg_cong [OF del_mset, of set_mset P t] by simp

lemma repl_found: "wf t \<Longrightarrow> r' \<in> set (repl r t) \<Longrightarrow> key r' = key r \<Longrightarrow> r' = r"
  by (auto simp: set_repl)

lemma unique_row: "wf t \<Longrightarrow> r \<in> set t \<Longrightarrow> r' \<in> set t \<Longrightarrow> key r = key r' \<Longrightarrow> r = r'"
  unfolding wf_def by (metis distinct_map inj_onD)

end

lemma insert_row_Some [sql_simps]: "insert_row key r t = Some t' \<longleftrightarrow> key r \<notin> key ` set t \<and> t' = t @ [r]"
  by (auto simp: insert_row_def)

lemma insert_row_None [sql_simps]: "insert_row key r t = None \<longleftrightarrow> key r \<in> key ` set t"
  by (auto simp: insert_row_def)

lemma keyed_table_rows: "keyed_table key (insert_row key) (replace_row key) delete_where"
  by unfold_locales (auto simp: insert_row_def replace_row_def delete_where_def mset_filter split: if_splits)

interpretation key_table: keyed_table kr_guid "insert_row kr_guid" "replace_row kr_guid" delete_where
  by (rule keyed_table_rows)
interpretation path_table: keyed_table path_pk "insert_row path_pk" "replace_row path_pk" delete_where
  by (rule keyed_table_rows)
interpretation value_table: keyed_table value_pk "insert_row value_pk" "replace_row value_pk" delete_where
  by (rule keyed_table_rows)
interpretation blanket_table: keyed_table blanket_pk "insert_row blanket_pk" "replace_row blanket_pk" delete_where
  by (rule keyed_table_rows)

text \<open>SQL comparison with NULL.\<close>

definition sql_in :: "'a option \<Rightarrow> 'a option list \<Rightarrow> bool" where
  "sql_in x xs \<longleftrightarrow> x \<noteq> None \<and> x \<in> set xs"

definition sql_not_in :: "'a option \<Rightarrow> 'a option list \<Rightarrow> bool" where
  "sql_not_in x xs \<longleftrightarrow> xs = [] \<or> x \<noteq> None \<and> x \<notin> set xs \<and> None \<notin> set xs"

section \<open>Errors\<close>

datatype error =
    Err_No_Rows
  | Err_Unique
  | Err_Sqlite int
  | Err_Ctx
  | Err_Tx_Done
  | Err_Writer_Busy
  | Err_Read_Only_Txn
  | Err_Interrupted_Txn
  | Err_Expired_Txn
  | Err_Unknown_Txn
  | Err_Txn_Ended
  | Err_Txn_Active
  | Err_Other_Hive
  | Err_Bind_In_Progress
  | Err_Key_Not_Found
  | Err_Root_Guid_Length nat
  | Err_Schema_Version int
  | Err_Journal_Mode
  | Err_Os int
  | Err_Not_Tmpfs
  | Err_Lock_Held
  | Err_Negotiation
  | Err_No_Hives

section \<open>The environment of a statement\<close>

record event =
  ev_elapse :: nat
  ev_fault :: "int option"
  ev_order :: "nat list"
  ev_busy :: bool

record env =
  env_now :: nat
  env_epoch :: nat
  env_events :: "event list"

definition quiet :: event where
  "quiet = \<lparr>ev_elapse = 0, ev_fault = None, ev_order = [], ev_busy = False\<rparr>"

definition next_event :: "env \<Rightarrow> event \<times> env" where
  "next_event e =
     (case env_events e of
        [] \<Rightarrow> (quiet, e)
      | ev # evs \<Rightarrow> (ev, e\<lparr>env_now := env_now e + ev_elapse ev, env_events := evs\<rparr>))"

text \<open>An unordered result: any permutation of the rows, chosen by the event.\<close>

definition arrange :: "nat list \<Rightarrow> 'a list \<Rightarrow> 'a list" where
  "arrange p xs = (if mset p = mset [0..<length xs] then map ((!) xs) p else xs)"

lemma mset_arrange [simp]: "mset (arrange p xs) = mset xs"
proof (cases "mset p = mset [0..<length xs]")
  case True
  then have "mset (arrange p xs) = image_mset ((!) xs) (mset [0..<length xs])" by (simp add: arrange_def)
  also have "\<dots> = mset (map ((!) xs) [0..<length xs])" by simp
  finally show ?thesis by (simp only: map_nth)
qed (simp add: arrange_def)

lemma set_arrange [simp]: "set (arrange p xs) = set xs"
  using mset_arrange by (metis set_mset_mset)

lemma arrange_Nil [simp]: "arrange p [] = []"
  using mset_arrange [of p "[]"] by (metis mset_zero_iff_right)

lemma arrange_single [simp]: "arrange p [x] = [x]"
  using mset_arrange [of p "[x]"] by (metis mset_single_iff_right mset.simps)

lemma length_arrange [simp]: "length (arrange p xs) = length xs"
  using mset_arrange by (metis size_mset)

section \<open>Statements in a context\<close>

text \<open>
  A step runs on a state and ends with an error or a value; an action is a step on an
  environment and a database view.  \<open>statement\<close> is one blocking call:
  it fails with the context's error when the deadline has passed, with the engine's error
  when the event has one, and otherwise has the effect of its SQL text.
\<close>

type_synonym ('s, 'a) step = "'s \<Rightarrow> (error + 'a) \<times> 's"
type_synonym 'a act = "(env \<times> db, 'a) step"

definition ok :: "'a \<Rightarrow> ('s, 'a) step" where
  "ok x s = (Inr x, s)"

definition fail :: "error \<Rightarrow> ('s, 'a) step" where
  "fail e s = (Inl e, s)"

definition and_then :: "('s, 'a) step \<Rightarrow> ('a \<Rightarrow> ('s, 'b) step) \<Rightarrow> ('s, 'b) step" where
  "and_then m k s = (case m s of (Inl e, s') \<Rightarrow> (Inl e, s') | (Inr x, s') \<Rightarrow> k x s')"

text \<open>\<open>on_error m h k\<close> continues with \<open>h\<close> after an error of \<open>m\<close> and with \<open>k\<close> after its value.\<close>

definition on_error :: "('s, 'a) step \<Rightarrow> (error \<Rightarrow> ('s, 'b) step) \<Rightarrow> ('a \<Rightarrow> ('s, 'b) step) \<Rightarrow> ('s, 'b) step" where
  "on_error m h k s = (case m s of (Inl e, s') \<Rightarrow> h e s' | (Inr x, s') \<Rightarrow> k x s')"

definition statement :: "nat \<Rightarrow> (event \<Rightarrow> 'd \<Rightarrow> (error + 'a) \<times> 'd) \<Rightarrow> (env \<times> 'd, 'a) step" where
  "statement deadline f s =
     (let (ev, e) = next_event (fst s) in
      if deadline \<le> env_now e then (Inl Err_Ctx, e, snd s)
      else case ev_fault ev of
        Some code \<Rightarrow> (Inl (Err_Sqlite code), e, snd s)
      | None \<Rightarrow> (let (res, d) = f ev (snd s) in (res, e, d)))"

definition sql_exec :: "nat \<Rightarrow> (db \<Rightarrow> db option) \<Rightarrow> unit act" where
  "sql_exec deadline f =
     statement deadline (\<lambda>ev d. case f d of None \<Rightarrow> (Inl Err_Unique, d) | Some d' \<Rightarrow> (Inr (), d'))"

definition sql_count :: "nat \<Rightarrow> (db \<Rightarrow> nat) \<Rightarrow> (db \<Rightarrow> db) \<Rightarrow> nat act" where
  "sql_count deadline n f = statement deadline (\<lambda>ev d. (Inr (n d), f d))"

definition sql_query :: "nat \<Rightarrow> (db \<Rightarrow> 'r list) \<Rightarrow> 'r list act" where
  "sql_query deadline q = statement deadline (\<lambda>ev d. (Inr (arrange (ev_order ev) (q d)), d))"

definition sql_query_row :: "nat \<Rightarrow> (db \<Rightarrow> 'r list) \<Rightarrow> 'r act" where
  "sql_query_row deadline q =
     statement deadline (\<lambda>ev d. (case arrange (ev_order ev) (q d) of [] \<Rightarrow> Inl Err_No_Rows | r # _ \<Rightarrow> Inr r, d))"

end
