(* ===== verification/World.thy ===== *)
theory World
  imports Store Rsi_Wire "HOL-Library.AList"
begin

unbundle bit_operations_syntax

text \<open>
  The daemon's state: the open hives (\<open>handler.Handler\<close> and the committed content of
  \<open>hivedb.HiveDB\<close>), the GUID cache, the active transactions (\<open>txnInfo\<close>) and the environment of
  \<open>Store\<close>.  A hive is identified by its folded name, the key of the source's \<open>hives\<close> map.  A
  transaction's pinned connection is the database it sees: the private working copy after
  BEGIN IMMEDIATE, or the pinned snapshot of a read-only transaction.
\<close>

record hive =
  hv_name :: bytes
  hv_root_guid :: guid
  hv_db :: db

record txn_info =
  ti_session :: u64
  ti_lease_ns :: u64
  ti_lifetime_ns :: u64
  ti_expired :: bool
  ti_cleanup_started :: bool
  ti_hive :: "bytes option"
  ti_conn :: "db option"
  ti_binding :: bool
  ti_failed :: bool
  ti_read_only :: bool
  ti_snapshot_db :: bool
  ti_on_commit :: "guid list"
  ti_on_abort :: "guid list"

record world =
  w_hives :: "(bytes \<times> hive) list"
  w_cache :: "guid \<Rightarrow> bytes option"
  w_txns :: "(u64 \<times> txn_info) list"
  w_env :: env
  w_budget :: int

type_synonym 'a op = "(world, 'a) step"

section \<open>Access\<close>

definition find_txn :: "u64 \<Rightarrow> world \<Rightarrow> txn_info option" where
  "find_txn i w = map_of (w_txns w) i"

definition put_txn :: "u64 \<Rightarrow> txn_info \<Rightarrow> world \<Rightarrow> world" where
  "put_txn i info w = w\<lparr>w_txns := AList.update i info (w_txns w)\<rparr>"

definition delete_txn :: "u64 \<Rightarrow> world \<Rightarrow> world" where
  "delete_txn i w = w\<lparr>w_txns := AList.delete i (w_txns w)\<rparr>"

definition find_hive :: "bytes \<Rightarrow> world \<Rightarrow> hive option" where
  "find_hive h w = map_of (w_hives w) h"

definition hive_db :: "bytes \<Rightarrow> world \<Rightarrow> db" where
  "hive_db h w = (case find_hive h w of Some hv \<Rightarrow> hv_db hv | None \<Rightarrow> empty_db)"

definition publish :: "bytes \<Rightarrow> db \<Rightarrow> world \<Rightarrow> world" where
  "publish h d w =
     (case find_hive h w of
        Some hv \<Rightarrow> w\<lparr>w_hives := AList.update h (hv\<lparr>hv_db := d\<rparr>) (w_hives w)\<rparr>
      | None \<Rightarrow> w)"

definition cache_store :: "guid \<Rightarrow> bytes \<Rightarrow> world \<Rightarrow> world" where
  "cache_store g h w = w\<lparr>w_cache := (w_cache w)(g := Some h)\<rparr>"

definition cache_delete :: "guid \<Rightarrow> world \<Rightarrow> world" where
  "cache_delete g w = w\<lparr>w_cache := (w_cache w)(g := None)\<rparr>"

named_theorems world_simps \<open>what an access sees after an update\<close>

lemma find_txn_updates [world_simps]:
  "find_txn i (put_txn j info w) = (if i = j then Some info else find_txn i w)"
  "find_txn i (delete_txn j w) = (if i = j then None else find_txn i w)"
  "find_txn i (publish h d w) = find_txn i w"
  "find_txn i (cache_store g h w) = find_txn i w"
  "find_txn i (cache_delete g w) = find_txn i w"
  "find_txn i (w\<lparr>w_env := e\<rparr>) = find_txn i w"
  by (auto simp: find_txn_def put_txn_def delete_txn_def publish_def cache_store_def cache_delete_def
      update_conv' delete_conv' split: option.split)

lemma find_hive_publish [world_simps]:
  "find_hive k (publish h d w) = (if k = h then map_option (\<lambda>hv. hv\<lparr>hv_db := d\<rparr>) (find_hive k w) else find_hive k w)"
  by (auto simp: find_hive_def publish_def update_conv' split: option.split)

lemma update_same: "map_of xs k = Some v \<Longrightarrow> AList.update k v xs = xs"
  by (induction xs) auto

lemma put_txn_same: "find_txn i w = Some info \<Longrightarrow> put_txn i info w = w"
  by (simp add: put_txn_def find_txn_def update_same)

lemma find_hive_updates [world_simps]:
  "find_hive k (put_txn j info w) = find_hive k w"
  "find_hive k (delete_txn j w) = find_hive k w"
  "find_hive k (cache_store g h w) = find_hive k w"
  "find_hive k (cache_delete g w) = find_hive k w"
  "find_hive k (w\<lparr>w_env := e\<rparr>) = find_hive k w"
  by (simp_all add: find_hive_def put_txn_def delete_txn_def cache_store_def cache_delete_def)

lemma hive_db_updates [world_simps]:
  "hive_db k (put_txn j info w) = hive_db k w"
  "hive_db k (delete_txn j w) = hive_db k w"
  "hive_db k (cache_store g h w) = hive_db k w"
  "hive_db k (cache_delete g w) = hive_db k w"
  "hive_db k (w\<lparr>w_env := e\<rparr>) = hive_db k w"
  "hive_db k (publish h d w) = (if k = h \<and> find_hive k w \<noteq> None then d else hive_db k w)"
  by (auto simp: hive_db_def world_simps split: option.split)

lemma hive_keys_updates [world_simps]:
  "map fst (w_hives (put_txn j info w)) = map fst (w_hives w)"
  "map fst (w_hives (delete_txn j w)) = map fst (w_hives w)"
  "map fst (w_hives (cache_store g h w)) = map fst (w_hives w)"
  "map fst (w_hives (cache_delete g w)) = map fst (w_hives w)"
  "map fst (w_hives (publish h d w)) = map fst (w_hives w)"
proof -
  show "map fst (w_hives (publish h d w)) = map fst (w_hives w)"
    by (cases "find_hive h w") (simp_all add: publish_def find_hive_def update_keys map_of_SomeD domI flip: dom_map_of_conv_image_fst)
qed (simp_all add: put_txn_def delete_txn_def cache_store_def cache_delete_def)

lemma w_cache_updates [world_simps]:
  "w_cache (put_txn j info w) = w_cache w" "w_cache (delete_txn j w) = w_cache w"
  "w_cache (publish h d w) = w_cache w"
  "w_cache (cache_store g h w) = (w_cache w)(g := Some h)" "w_cache (cache_delete g w) = (w_cache w)(g := None)"
  by (simp_all add: put_txn_def delete_txn_def publish_def cache_store_def cache_delete_def split: option.split)

lemma w_env_updates [world_simps]:
  "w_env (put_txn j info w) = w_env w" "w_env (delete_txn j w) = w_env w" "w_env (publish h d w) = w_env w"
  "w_env (cache_store g h w) = w_env w" "w_env (cache_delete g w) = w_env w"
  by (simp_all add: put_txn_def delete_txn_def publish_def cache_store_def cache_delete_def split: option.split)

lemma publish_same: "publish h (hive_db h w) w = w"
  by (auto simp: publish_def hive_db_def find_hive_def update_same split: option.split)

section \<open>Clock, context and blocking points\<close>

text \<open>\<open>rsi.MonotonicNS\<close>, \<open>time.Now().UnixNano\<close>, and a point where time passes.\<close>

definition elapse :: "world \<Rightarrow> event \<times> world" where
  "elapse w = (let (ev, e) = next_event (w_env w) in (ev, w\<lparr>w_env := e\<rparr>))"

definition monotonic_ns :: "world \<Rightarrow> u64" where
  "monotonic_ns w = word_of_nat (env_now (w_env w))"

definition unix_nano :: "world \<Rightarrow> u64" where
  "unix_nano w = word_of_nat (env_epoch (w_env w) + env_now (w_env w))"

text \<open>\<open>ctx.Err\<close>: the deadline of the context against the current time.\<close>

definition ctx_done :: "nat \<Rightarrow> world \<Rightarrow> bool" where
  "ctx_done deadline w \<longleftrightarrow> deadline \<le> env_now (w_env w)"

text \<open>\<open>Gate.Acquire\<close> as its caller sees it: time passes, then the guard or the context's error.\<close>

definition gate_acquire :: "nat \<Rightarrow> unit op" where
  "gate_acquire deadline w =
     (let w' = snd (elapse w) in (if ctx_done deadline w' then Inl Err_Ctx else Inr (), w'))"

text \<open>A call into database/sql or SQLite that only succeeds or fails.\<close>

definition storage_call :: "nat \<Rightarrow> unit op" where
  "storage_call deadline w =
     (let (ev, w') = elapse w in
      (if ctx_done deadline w' then Inl Err_Ctx
       else case ev_fault ev of Some code \<Rightarrow> Inl (Err_Sqlite code) | None \<Rightarrow> Inr (), w'))"

text \<open>An admitted COMMIT: it runs in the background context and only the engine can refuse it.\<close>

definition commit_conn :: "nat \<Rightarrow> unit op" where
  "commit_conn deadline w =
     (if ctx_done deadline w then (Inl Err_Ctx, w)
      else let (ev, w') = elapse w in
        (case ev_fault ev of Some code \<Rightarrow> Inl (Err_Sqlite code) | None \<Rightarrow> Inr (), w'))"

definition env_step :: "world \<Rightarrow> world \<Rightarrow> bool" where
  "env_step w w' \<longleftrightarrow> (\<exists>e. w' = w\<lparr>w_env := e\<rparr>)"

lemma env_stepI [simp]: "env_step w (w\<lparr>w_env := e\<rparr>)"
  by (auto simp: env_step_def)

lemma env_step_refl [simp]: "env_step w w"
  unfolding env_step_def by (rule exI [of _ "w_env w"]) simp

lemma env_step_trans: "env_step w w' \<Longrightarrow> env_step w' w'' \<Longrightarrow> env_step w w''"
  by (auto simp: env_step_def)

lemma env_step_elapse: "env_step w (snd (elapse w))"
  by (simp add: elapse_def case_prod_beta)

lemma env_step_calls:
  "env_step w (snd (gate_acquire dl w))" "env_step w (snd (storage_call dl w))" "env_step w (snd (commit_conn dl w))"
  using env_step_elapse [of w]
  by (simp_all add: gate_acquire_def storage_call_def commit_conn_def Let_def case_prod_beta)

lemma env_step_sees:
  assumes "env_step w w'"
  shows "find_txn i w' = find_txn i w" "find_hive h w' = find_hive h w" "hive_db h w' = hive_db h w"
    "w_cache w' = w_cache w" "w_hives w' = w_hives w" "w_txns w' = w_txns w" "w_budget w' = w_budget w"
  using assms by (auto simp: env_step_def world_simps)

end
