(* ===== verification/Hivedb.thy ===== *)
theory Hivedb
  imports Sd Config World
begin

text \<open>
  Opening a hive database: \<open>internal/hivedb/hivedb.go\<close>.  A hive file holds the version table
  and the persistent schema; the volatile database attached to it is fresh at every start.
  The statements of the startup run in the background context, so they have no deadline.
  The round-robin read pool and the maximum sequence follow.
\<close>

section \<open>Statements of the startup\<close>

record hive_file =
  hf_version :: "int list option"
  hf_db :: db

text \<open>An absent file is an empty one.\<close>

definition empty_file :: hive_file where "empty_file = \<lparr>hf_version = None, hf_db = empty_db\<rparr>"

definition background :: "(event \<Rightarrow> 'd \<Rightarrow> (error + 'a) \<times> 'd) \<Rightarrow> (env \<times> 'd, 'a) step" where
  "background f s =
     (let (ev, e) = next_event (fst s) in
      case ev_fault ev of
        Some code \<Rightarrow> (Inl (Err_Sqlite code), e, snd s)
      | None \<Rightarrow> (let (res, d) = f ev (snd s) in (res, e, d)))"

definition bg_exec :: "('d \<Rightarrow> 'd option) \<Rightarrow> (env \<times> 'd, unit) step" where
  "bg_exec f = background (\<lambda>ev d. case f d of None \<Rightarrow> (Inl Err_Unique, d) | Some d' \<Rightarrow> (Inr (), d'))"

definition bg_query_row :: "('d \<Rightarrow> 'r list) \<Rightarrow> (env \<times> 'd, 'r) step" where
  "bg_query_row q =
     background (\<lambda>ev d. (case arrange (ev_order ev) (q d) of [] \<Rightarrow> Inl Err_No_Rows | r # _ \<Rightarrow> Inr r, d))"

text \<open>\<open>Begin\<close>, the statements, \<open>Commit\<close>; the deferred \<open>Rollback\<close> after any error.\<close>

definition in_tx :: "(env \<times> 'd, 'a) step \<Rightarrow> (env \<times> 'd, 'a) step" where
  "in_tx m s =
     (case and_then (bg_exec Some) (\<lambda>_. and_then m (\<lambda>x. and_then (bg_exec Some) (\<lambda>_. ok x))) s of
        (Inl e, env', d) \<Rightarrow> (Inl e, env', snd s)
      | (Inr x, s') \<Rightarrow> (Inr x, s'))"

section \<open>Schema\<close>

definition schema_version :: int where "schema_version = 1"

definition version_rows :: "hive_file \<Rightarrow> int list" where
  "version_rows f = (case hf_version f of None \<Rightarrow> [] | Some rows \<Rightarrow> rows)"

definition create_schema :: "(env \<times> hive_file, unit) step" where
  "create_schema =
     in_tx (and_then (bg_exec (\<lambda>f. Some (f\<lparr>hf_version := Some (version_rows f)\<rparr>))) (\<lambda>_.
       bg_exec (\<lambda>f. Some (f\<lparr>hf_version := Some (version_rows f @ [schema_version])\<rparr>))))"

definition validate_schema_version :: "(env \<times> hive_file, unit) step" where
  "validate_schema_version =
     and_then (bg_query_row version_rows) (\<lambda>version.
       if version > schema_version then fail (Err_Schema_Version version)
       else if version < schema_version then fail (Err_Schema_Version version)
       else ok ())"

text \<open>The volatile DDL creates absent tables, which hold no rows.\<close>

definition ensure_schema :: "(env \<times> hive_file, unit) step" where
  "ensure_schema =
     and_then (bg_query_row (\<lambda>f. [if hf_version f = None then 0 else 1 :: nat])) (\<lambda>table_exists.
       and_then (if table_exists = 0 then create_schema else validate_schema_version) (\<lambda>_.
         bg_exec Some))"

section \<open>The root key\<close>

definition root_row :: "bytes \<Rightarrow> guid \<Rightarrow> u64 \<Rightarrow> key_row" where
  "root_row name g now =
     \<lparr>kr_guid = g, kr_name = name, kr_name_folded = fold_string name, kr_parent_guid = None,
      kr_sd = default_hive_root_sd, kr_volatile = 0, kr_symlink = 0, kr_last_write_time = now\<rparr>"

definition insert_root :: "key_row \<Rightarrow> hive_file \<Rightarrow> hive_file option" where
  "insert_root r f =
     (case insert_row kr_guid r (s_keys (db_main (hf_db f))) of
        None \<Rightarrow> None
      | Some t \<Rightarrow> Some (f\<lparr>hf_db := map_schema Main (\<lambda>s. s\<lparr>s_keys := t\<rparr>) (hf_db f)\<rparr>))"

definition parentless :: "db \<Rightarrow> guid list" where
  "parentless d = map kr_guid (filter (\<lambda>r. kr_parent_guid r = None) (s_keys (db_main d)))"

text \<open>\<open>crypto/rand\<close> supplies the GUID \<open>fresh\<close>; the time is read when the row is inserted.\<close>

definition ensure_root_key :: "bytes \<Rightarrow> guid \<Rightarrow> (env \<times> hive_file, guid) step" where
  "ensure_root_key name fresh =
     on_error (bg_query_row (\<lambda>f. parentless (hf_db f)))
       (\<lambda>e. if e \<noteq> Err_No_Rows then fail e
            else (\<lambda>s. and_then
                    (bg_exec (insert_root (root_row name fresh (word_of_nat (env_epoch (fst s) + env_now (fst s))))))
                    (\<lambda>_. ok fresh) s))
       (\<lambda>g. if length g \<noteq> 16 then fail (Err_Root_Guid_Length (length g)) else ok g)"

section \<open>Crash recovery\<close>

definition main_targets :: "db \<Rightarrow> guid option list" where
  "main_targets d =
     map pr_target_guid (filter (\<lambda>r. pr_target_type r = target_guid_type) (s_path_entries (db_main d)))"

definition orphan_key :: "db \<Rightarrow> key_row \<Rightarrow> bool" where
  "orphan_key d r \<longleftrightarrow> kr_parent_guid r \<noteq> None \<and> sql_not_in (Some (kr_guid r)) (main_targets d)"

definition orphan_guids :: "db \<Rightarrow> guid option list" where
  "orphan_guids d = map (\<lambda>r. Some (kr_guid r)) (filter (orphan_key d) (s_keys (db_main d)))"

definition delete_orphan_values :: "db \<Rightarrow> db" where
  "delete_orphan_values d =
     map_schema Main (\<lambda>s. s\<lparr>s_values := delete_where (\<lambda>r. sql_in (Some (vr_key_guid r)) (orphan_guids d)) (s_values s)\<rparr>) d"

definition delete_orphan_blankets :: "db \<Rightarrow> db" where
  "delete_orphan_blankets d =
     map_schema Main (\<lambda>s. s\<lparr>s_blankets := delete_where (\<lambda>r. sql_in (Some (br_key_guid r)) (orphan_guids d)) (s_blankets s)\<rparr>) d"

definition delete_orphan_keys :: "db \<Rightarrow> db" where
  "delete_orphan_keys d = map_schema Main (\<lambda>s. s\<lparr>s_keys := delete_where (orphan_key d) (s_keys s)\<rparr>) d"

definition update_file :: "(db \<Rightarrow> db) \<Rightarrow> hive_file \<Rightarrow> hive_file" where
  "update_file f file = file\<lparr>hf_db := f (hf_db file)\<rparr>"

definition clean_orphans :: "(env \<times> hive_file, unit) step" where
  "clean_orphans =
     in_tx (and_then (bg_exec (\<lambda>f. Some (update_file delete_orphan_values f))) (\<lambda>_.
       and_then (bg_exec (\<lambda>f. Some (update_file delete_orphan_blankets f))) (\<lambda>_.
         bg_exec (\<lambda>f. Some (update_file delete_orphan_keys f)))))"

definition initialize_hive :: "bytes \<Rightarrow> guid \<Rightarrow> (env \<times> hive_file, guid) step" where
  "initialize_hive name fresh =
     and_then ensure_schema (\<lambda>_.
       and_then (ensure_root_key name fresh) (\<lambda>root.
         and_then clean_orphans (\<lambda>_. ok root)))"

section \<open>The read pool\<close>

definition max_read_connections :: int where "max_read_connections = 16"

definition read_pool_size :: "int \<Rightarrow> int" where
  "read_pool_size num_cpu =
     (let n = num_cpu; n = (if n > max_read_connections then max_read_connections else n)
      in if n < 1 then 1 else n)"

text \<open>\<open>ReadDB\<close>: the index of the connection, and the 32-bit counter afterwards.\<close>

definition read_db :: "nat \<Rightarrow> u32 \<Rightarrow> nat \<times> u32" where
  "read_db pool next =
     (let next' = next + 1; idx = next' - 1 in (unat (idx mod word_of_nat pool), next'))"

section \<open>The maximum sequence\<close>

text \<open>Sequences are stored as signed 64-bit integers; NULL is the maximum of no rows.\<close>

definition sql_max :: "int list \<Rightarrow> int option" where
  "sql_max xs = (if xs = [] then None else Some (foldl max (hd xs) (tl xs)))"

definition sequences :: "store \<Rightarrow> db \<Rightarrow> int list list" where
  "sequences st d =
     [map (\<lambda>r. sint (pr_sequence r)) (s_path_entries (schema_of st d)),
      map (\<lambda>r. sint (vr_sequence r)) (s_values (schema_of st d)),
      map (\<lambda>r. sint (br_sequence r)) (s_blankets (schema_of st d))]"

definition max_sequence_row :: "db \<Rightarrow> int option" where
  "max_sequence_row d = sql_max (List.map_filter sql_max (sequences Main d @ sequences Volatile d))"

definition max_sequence :: "(env \<times> hive_file, u64) step" where
  "max_sequence =
     and_then (bg_query_row (\<lambda>f. [max_sequence_row (hf_db f)])) (\<lambda>seq.
       case seq of None \<Rightarrow> ok 0 | Some n \<Rightarrow> ok (word_of_int n))"

end
