(* ===== verification/Txn.thy ===== *)
theory Txn
  imports World
begin

unbundle bit_operations_syntax

text \<open>
  The transaction manager: \<open>internal/handler/txn.go\<close>, \<open>lease.go\<close> and the parts of
  \<open>request.go\<close> it uses.  Each method of \<open>txnManager\<close> is one operation on the world, with
  every early return a branch.  The request that runs an operation holds the transaction's
  operation gate, so between two blocking points no other request touches the same entry;
  the lease loop runs as operations of its own.
\<close>

section \<open>Begin\<close>

definition new_txn :: "bool \<Rightarrow> u64 \<Rightarrow> u64 \<Rightarrow> u64 \<Rightarrow> txn_info" where
  "new_txn ro ses lease lifetime =
     \<lparr>ti_session = ses, ti_lease_ns = lease, ti_lifetime_ns = lifetime, ti_expired = False,
      ti_cleanup_started = False, ti_hive = None, ti_conn = None, ti_binding = False, ti_failed = False,
      ti_read_only = ro, ti_snapshot_db = False, ti_on_commit = [], ti_on_abort = []\<rparr>"

definition begin_mode :: "u64 \<Rightarrow> bool \<Rightarrow> unit op" where
  "begin_mode i ro w =
     (if find_txn i w \<noteq> None then (Inl Err_Txn_Active, w) else (Inr (), put_txn i (new_txn ro 0 0 0) w))"

text \<open>\<open>leaseExpired\<close> sets the flag and returns it; the result here is the entry with the flag.\<close>

definition lease_expired :: "u64 \<Rightarrow> txn_info \<Rightarrow> txn_info" where
  "lease_expired now info =
     (if ti_session info \<noteq> 0 \<and>
         (ti_lease_ns info \<le> now \<or> (ti_lifetime_ns info \<noteq> 0 \<and> ti_lifetime_ns info \<le> now))
      then info\<lparr>ti_expired := True\<rparr> else info)"

definition begin_leased :: "u64 \<Rightarrow> bool \<Rightarrow> request_header \<Rightarrow> unit op" where
  "begin_leased i ro header w =
     (if session header = 0 then begin_mode i ro w
      else if find_txn i w \<noteq> None then (Inl Err_Txn_Active, w)
      else
        let info = new_txn ro (session header) (leaseNS header) (lifetimeNS header);
            w1 = snd (elapse w);
            info = lease_expired (monotonic_ns w1) info;
            w2 = snd (elapse w1)
        in if ti_expired info then (Inl Err_Expired_Txn, w1)
           else if deadlineNS header \<le> monotonic_ns w2 then (Inl Err_Expired_Txn, w2)
           else (Inr (), put_txn i info w2))"

section \<open>The operation gate\<close>

datatype operation_mode = Normal_Operation | Cleanup_Operation

text \<open>The context of a cleanup is the background one, which has no deadline.\<close>

definition acquire_in :: "nat option \<Rightarrow> unit op" where
  "acquire_in deadline w = (case deadline of Some dl \<Rightarrow> gate_acquire dl w | None \<Rightarrow> (Inr (), snd (elapse w)))"

definition lock_operation_mode :: "nat option \<Rightarrow> u64 \<Rightarrow> operation_mode \<Rightarrow> unit op" where
  "lock_operation_mode deadline i mode w =
     (if find_txn i w = None then (Inl Err_Unknown_Txn, w)
      else case acquire_in deadline w of
        (Inl e, w) \<Rightarrow> (Inl e, w)
      | (Inr _, w) \<Rightarrow>
          (case find_txn i w of
             None \<Rightarrow> (Inl Err_Txn_Ended, w)
           | Some current \<Rightarrow>
               if mode = Cleanup_Operation then (Inr (), w)
               else let info = lease_expired (monotonic_ns w) current; w = put_txn i info w
                    in (if ti_expired info then Inl Err_Txn_Ended else Inr (), w)))"

section \<open>Binding a connection\<close>

definition set_binding :: "u64 \<Rightarrow> bool \<Rightarrow> world \<Rightarrow> world" where
  "set_binding i b w = (case find_txn i w of Some info \<Rightarrow> put_txn i (info\<lparr>ti_binding := b\<rparr>) w | None \<Rightarrow> w)"

text \<open>\<open>getOrBindWrite\<close>: \<open>Conn\<close>, then BEGIN IMMEDIATE, which takes the working copy.\<close>

definition get_or_bind_write :: "nat \<Rightarrow> u64 \<Rightarrow> bytes \<Rightarrow> unit op" where
  "get_or_bind_write deadline i h w =
     (case find_txn i w of
        None \<Rightarrow> (Inl Err_Unknown_Txn, w)
      | Some info \<Rightarrow>
          if ti_read_only info then (Inl Err_Read_Only_Txn, w)
          else if ti_failed info then (Inl Err_Interrupted_Txn, w)
          else if ti_conn info \<noteq> None then
            (if ti_hive info \<noteq> Some h then Inl Err_Other_Hive else Inr (), w)
          else if ti_binding info then (Inl Err_Bind_In_Progress, w)
          else
            (case and_then (storage_call deadline) (\<lambda>_. storage_call deadline) (set_binding i True w) of
               (Inl e, w) \<Rightarrow> (Inl e, set_binding i False w)
             | (Inr _, w) \<Rightarrow>
                 (Inr (), put_txn i (info\<lparr>ti_hive := Some h, ti_conn := Some (hive_db h w), ti_binding := False\<rparr>) w)))"

text \<open>\<open>openPinnedSnapshot\<close>: open, \<open>Conn\<close>, BEGIN DEFERRED, and the read of both schemas that
  fixes the view.\<close>

definition open_pinned_snapshot :: "nat \<Rightarrow> bytes \<Rightarrow> db op" where
  "open_pinned_snapshot deadline h =
     and_then (storage_call deadline) (\<lambda>_. and_then (storage_call deadline) (\<lambda>_.
       and_then (storage_call deadline) (\<lambda>_. and_then (storage_call deadline) (\<lambda>_ w. (Inr (hive_db h w), w)))))"

definition get_read_querier :: "nat \<Rightarrow> u64 \<Rightarrow> bytes \<Rightarrow> bool op" where
  "get_read_querier deadline i h w =
     (case find_txn i w of
        None \<Rightarrow> (Inr False, w)
      | Some info \<Rightarrow>
          if ti_failed info then (Inl Err_Interrupted_Txn, w)
          else if ti_conn info \<noteq> None then
            (if ti_hive info \<noteq> Some h then Inl Err_Other_Hive else Inr True, w)
          else if \<not> ti_read_only info then (Inr False, w)
          else if ti_binding info then (Inl Err_Bind_In_Progress, w)
          else
            (case open_pinned_snapshot deadline h (set_binding i True w) of
               (Inl e, w) \<Rightarrow> (Inl e, set_binding i False w)
             | (Inr d, w) \<Rightarrow>
                 (Inr True, put_txn i (info\<lparr>ti_hive := Some h, ti_snapshot_db := True, ti_conn := Some d,
                    ti_binding := False\<rparr>) w)))"

definition bound_querier :: "u64 \<Rightarrow> bytes \<Rightarrow> world \<Rightarrow> bool" where
  "bound_querier i h w =
     (case find_txn i w of
        Some info \<Rightarrow> ti_hive info = Some h \<and> ti_conn info \<noteq> None \<and> \<not> ti_failed info
      | None \<Rightarrow> False)"

section \<open>Admission of mutations\<close>

definition mutation_allowed :: "u64 \<Rightarrow> world \<Rightarrow> error option" where
  "mutation_allowed i w =
     (if i = 0 then None
      else case find_txn i w of
        None \<Rightarrow> Some Err_Unknown_Txn
      | Some info \<Rightarrow> if ti_read_only info then Some Err_Read_Only_Txn else None)"

definition any_write_bound :: "world \<Rightarrow> bool" where
  "any_write_bound w \<longleftrightarrow> list_ex (\<lambda>(i, info). \<not> ti_read_only info \<and> ti_conn info \<noteq> None) (w_txns w)"

definition hive_busy :: "bytes \<Rightarrow> world \<Rightarrow> bool" where
  "hive_busy h w \<longleftrightarrow>
     list_ex (\<lambda>(i, info). \<not> ti_read_only info \<and> ti_hive info = Some h \<and> ti_conn info \<noteq> None) (w_txns w)"

definition other_writer :: "bytes \<Rightarrow> u64 \<Rightarrow> world \<Rightarrow> bool" where
  "other_writer h i w \<longleftrightarrow>
     list_ex (\<lambda>(j, info). j \<noteq> i \<and> \<not> ti_read_only info \<and> ti_hive info = Some h \<and> ti_conn info \<noteq> None) (w_txns w)"

definition add_commit_hook :: "u64 \<Rightarrow> guid \<Rightarrow> world \<Rightarrow> world" where
  "add_commit_hook i g w =
     (case find_txn i w of Some info \<Rightarrow> put_txn i (info\<lparr>ti_on_commit := ti_on_commit info @ [g]\<rparr>) w | None \<Rightarrow> w)"

definition add_abort_hook :: "u64 \<Rightarrow> guid \<Rightarrow> world \<Rightarrow> world" where
  "add_abort_hook i g w =
     (case find_txn i w of Some info \<Rightarrow> put_txn i (info\<lparr>ti_on_abort := ti_on_abort info @ [g]\<rparr>) w | None \<Rightarrow> w)"

definition run_hooks :: "guid list \<Rightarrow> world \<Rightarrow> world" where
  "run_hooks gs w = foldl (\<lambda>w g. cache_delete g w) w gs"

section \<open>Commit, abort, interruption\<close>

definition commit :: "nat \<Rightarrow> u64 \<Rightarrow> unit op" where
  "commit deadline i w =
     (case lock_operation_mode (Some deadline) i Normal_Operation w of
        (Inl e, w) \<Rightarrow> (Inl e, w)
      | (Inr _, w) \<Rightarrow>
          (case find_txn i w of
             None \<Rightarrow> (Inl Err_Unknown_Txn, w)
           | Some info \<Rightarrow>
               if ti_failed info then (Inl Err_Interrupted_Txn, w)
               else
                 (case (if ti_hive info \<noteq> None then gate_acquire deadline w else (Inr (), w)) of
                    (Inl e, w) \<Rightarrow> (Inl e, w)
                  | (Inr _, w) \<Rightarrow>
                      if ctx_done deadline w then (Inl Err_Ctx, w)
                      else
                        let w = snd (elapse w); info = lease_expired (monotonic_ns w) info; w = put_txn i info w in
                        if ti_expired info then (Inl Err_Expired_Txn, w)
                        else if ti_read_only info then (Inr (), delete_txn i w)
                        else
                          (case (ti_conn info, ti_hive info) of
                             (Some d, Some h) \<Rightarrow>
                               (case commit_conn deadline w of
                                  (Inl e, w) \<Rightarrow> (Inl e, w)
                                | (Inr _, w) \<Rightarrow> (Inr (), delete_txn i (run_hooks (ti_on_commit info) (publish h d w))))
                           | _ \<Rightarrow> (Inr (), delete_txn i w)))))"

definition abort :: "u64 \<Rightarrow> world \<Rightarrow> world" where
  "abort i w =
     (case lock_operation_mode None i Cleanup_Operation w of
        (Inl e, w) \<Rightarrow> w
      | (Inr _, w) \<Rightarrow>
          (case find_txn i w of
             None \<Rightarrow> w
           | Some info \<Rightarrow>
               let w = (if ti_hive info \<noteq> None then snd (elapse w) else w)
               in run_hooks (ti_on_abort info) (delete_txn i w)))"

definition fail_interrupted :: "u64 \<Rightarrow> world \<Rightarrow> bool \<times> world" where
  "fail_interrupted i w =
     (case find_txn i w of
        None \<Rightarrow> (False, w)
      | Some info \<Rightarrow>
          if ti_conn info = None then (False, w)
          else (True, put_txn i (info\<lparr>ti_conn := None, ti_snapshot_db := False, ti_failed := True\<rparr>) w))"

definition close_txns :: "world \<Rightarrow> world" where
  "close_txns w = foldl (\<lambda>w i. abort i w) w (map fst (w_txns w))"

section \<open>Status of an error\<close>

definition is_busy :: "error \<Rightarrow> bool" where
  "is_busy e =
     (case e of
        Err_Writer_Busy \<Rightarrow> True | Err_Ctx \<Rightarrow> True
      | Err_Sqlite code \<Rightarrow> code AND 0xff = 5 \<or> code AND 0xff = 6
      | _ \<Rightarrow> False)"

definition storage_status :: "error \<Rightarrow> u32" where
  "storage_status e = (if is_busy e then status_txn_busy else status_storage_error)"

section \<open>The lease loop\<close>

definition lease_renewal_window :: u64 where "lease_renewal_window = 3000000000"

text \<open>The scan under the manager's mutex: the entry it leaves, and what it asks for.\<close>

definition lease_scan :: "u64 \<Rightarrow> txn_info \<Rightarrow> txn_info" where
  "lease_scan now info =
     (if ti_session info = 0 then info
      else let info = lease_expired now info
           in if ti_expired info then info\<lparr>ti_cleanup_started := True\<rparr> else info)"

definition needs_cleanup :: "u64 \<Rightarrow> txn_info \<Rightarrow> bool" where
  "needs_cleanup now info \<longleftrightarrow>
     ti_session info \<noteq> 0 \<and> ti_expired (lease_expired now info) \<and> \<not> ti_cleanup_started info"

definition needs_renewal :: "u64 \<Rightarrow> txn_info \<Rightarrow> bool" where
  "needs_renewal now info \<longleftrightarrow>
     ti_session info \<noteq> 0 \<and> \<not> ti_expired (lease_expired now info) \<and> ti_lease_ns info - now \<le> lease_renewal_window"

definition renew_one :: "(u64 \<Rightarrow> u64 \<Rightarrow> u64 option) \<Rightarrow> u64 \<Rightarrow> world \<Rightarrow> world" where
  "renew_one renew i w =
     (case find_txn i w of
        None \<Rightarrow> w
      | Some info \<Rightarrow>
          let deadline = renew (ti_session info) i; w = snd (elapse w);
              info = lease_expired (monotonic_ns w) info
          in if ti_expired info then put_txn i info w
             else
               let w = snd (elapse w)
               in (case deadline of
                     Some dl \<Rightarrow> if monotonic_ns w < dl then put_txn i (info\<lparr>ti_lease_ns := dl\<rparr>) w
                                else put_txn i (info\<lparr>ti_expired := True\<rparr>) w
                   | None \<Rightarrow> put_txn i (info\<lparr>ti_expired := True\<rparr>) w))"

text \<open>One turn of the loop, with the cleanups it starts run to their end.\<close>

definition maintain_leases :: "(u64 \<Rightarrow> u64 \<Rightarrow> u64 option) \<Rightarrow> world \<Rightarrow> world" where
  "maintain_leases renew w =
     (let w = snd (elapse w); now = monotonic_ns w;
          cleanup = map fst (filter (\<lambda>(i, info). needs_cleanup now info) (w_txns w));
          pending = map fst (filter (\<lambda>(i, info). needs_renewal now info) (w_txns w));
          w = w\<lparr>w_txns := map (\<lambda>(i, info). (i, lease_scan now info)) (w_txns w)\<rparr>;
          w = foldl (\<lambda>w i. renew_one renew i w) w pending
      in foldl (\<lambda>w i. abort i w) w cleanup)"

end
