(* ===== verification/Routing.thy ===== *)
theory Routing
  imports Txn Fold
begin

text \<open>
  What every handler shares: the life of a request (\<open>internal/handler/request.go\<close>), the choice
  of the connection a statement runs on and the resolution of a GUID to its hive
  (\<open>routing.go\<close>, \<open>querier.go\<close>), and the construction of the handler (\<open>handler.go\<close>).
\<close>

section \<open>Requests\<close>

record request =
  rq_txn :: u64
  rq_deadline :: nat

definition start_request :: "request_header \<Rightarrow> request op" where
  "start_request header w =
     (let w = (if session header \<noteq> 0 then snd (elapse w) else w);
          now = monotonic_ns w;
          budget = (if session header \<noteq> 0 then (if now < deadlineNS header then sint (deadlineNS header - now) else 0)
                    else w_budget w);
          deadline = nat (int (env_now (w_env w)) + budget);
          r = \<lparr>rq_txn = txnID header, rq_deadline = deadline\<rparr>
      in if txnID header \<noteq> 0 then
           (if session header \<noteq> 0 \<and> leaseNS header = 0 then (Inl Err_Expired_Txn, w)
            else case lock_operation_mode (Some deadline) (txnID header) Normal_Operation w of
              (Inl e, w) \<Rightarrow> (Inl e, w)
            | (Inr _, w) \<Rightarrow> (Inr r, w))
         else (Inr r, w))"

definition lock_hive :: "request \<Rightarrow> unit op" where
  "lock_hive r = gate_acquire (rq_deadline r)"

definition finish_request :: "request \<Rightarrow> u32 \<Rightarrow> world \<Rightarrow> u32 \<times> world" where
  "finish_request r status w =
     (let w = snd (elapse w) in
      if ctx_done (rq_deadline r) w \<and> status \<noteq> status_ok then
        (if rq_txn r \<noteq> 0 then
           (case fail_interrupted (rq_txn r) w of
              (True, w) \<Rightarrow> (status_storage_error, w)
            | (False, w) \<Rightarrow> (if status = status_storage_error then status_txn_busy else status, w))
         else (if status = status_storage_error then status_txn_busy else status, w))
      else (status, w))"

definition map_write_err :: "error \<Rightarrow> u32" where
  "map_write_err e =
     (if e = Err_Read_Only_Txn then status_invalid
      else if is_busy e then status_txn_busy
      else status_storage_error)"

definition map_read_err :: "error \<Rightarrow> u32" where
  "map_read_err e = (if is_busy e then status_txn_busy else status_storage_error)"

text \<open>The shell of a handler: start, decode, run, finish.\<close>

type_synonym reply = "u32 \<times> bytes"

definition with_request :: "request_header \<Rightarrow> (request \<Rightarrow> world \<Rightarrow> reply \<times> world) \<Rightarrow> world \<Rightarrow> reply \<times> world" where
  "with_request header body w =
     (case start_request header w of
        (Inl e, w) \<Rightarrow> ((map_write_err e, []), w)
      | (Inr r, w) \<Rightarrow>
          (let ((status, response), w) = body r w; (status, w) = finish_request r status w
           in ((status, response), w)))"

definition answer :: "u32 \<Rightarrow> world \<Rightarrow> reply \<times> world" where
  "answer status w = ((status, []), w)"

definition decoded :: "('a \<times> decoder) option \<Rightarrow> ('a \<Rightarrow> world \<Rightarrow> reply \<times> world) \<Rightarrow> world \<Rightarrow> reply \<times> world" where
  "decoded dec k w = (case dec of None \<Rightarrow> answer status_invalid w | Some (req, _) \<Rightarrow> k req w)"

text \<open>\<open>op_case m h k\<close> is a call followed by the source's test of its error.\<close>

definition op_case :: "'a op \<Rightarrow> (error \<Rightarrow> world \<Rightarrow> 'b) \<Rightarrow> ('a \<Rightarrow> world \<Rightarrow> 'b) \<Rightarrow> world \<Rightarrow> 'b" where
  "op_case m h k w = (case m w of (Inl e, w') \<Rightarrow> h e w' | (Inr x, w') \<Rightarrow> k x w')"

section \<open>Queriers\<close>

datatype querier = Autocommit bytes | Pool bytes | Pinned u64

definition view :: "querier \<Rightarrow> world \<Rightarrow> db" where
  "view q w =
     (case q of
        Autocommit h \<Rightarrow> hive_db h w
      | Pool h \<Rightarrow> hive_db h w
      | Pinned i \<Rightarrow> (case find_txn i w of
                       Some info \<Rightarrow> (case ti_conn info of Some d \<Rightarrow> d | None \<Rightarrow> empty_db)
                     | None \<Rightarrow> empty_db))"

definition put_view :: "querier \<Rightarrow> db \<Rightarrow> world \<Rightarrow> world" where
  "put_view q d w =
     (case q of
        Autocommit h \<Rightarrow> publish h d w
      | Pool h \<Rightarrow> w
      | Pinned i \<Rightarrow> (case find_txn i w of
                       Some info \<Rightarrow> (if ti_conn info = None then w else put_txn i (info\<lparr>ti_conn := Some d\<rparr>) w)
                     | None \<Rightarrow> w))"

text \<open>Statements sent to a connection: their effect is its new view, committed at once on the
  hive's own write connection, private on a pinned one.\<close>

definition run_on :: "querier \<Rightarrow> 'a act \<Rightarrow> 'a op" where
  "run_on q m w = (case m (w_env w, view q w) of (res, e, d) \<Rightarrow> (res, put_view q d (w\<lparr>w_env := e\<rparr>)))"

definition write_q :: "request \<Rightarrow> bytes \<Rightarrow> querier op" where
  "write_q r h w =
     (case mutation_allowed (rq_txn r) w of
        Some e \<Rightarrow> (Inl e, w)
      | None \<Rightarrow>
          (case lock_hive r w of
             (Inl e, w) \<Rightarrow> (Inl e, w)
           | (Inr _, w) \<Rightarrow>
               if other_writer h (rq_txn r) w then (Inl Err_Writer_Busy, w)
               else if rq_txn r \<noteq> 0 then
                 (case get_or_bind_write (rq_deadline r) (rq_txn r) h w of
                    (Inl e, w) \<Rightarrow> (Inl e, w)
                  | (Inr _, w) \<Rightarrow> (Inr (Pinned (rq_txn r)), w))
               else (Inr (Autocommit h), w)))"

definition read_q :: "request \<Rightarrow> bytes \<Rightarrow> querier op" where
  "read_q r h w =
     (case lock_hive r w of
        (Inl e, w) \<Rightarrow> (Inl e, w)
      | (Inr _, w) \<Rightarrow>
          if rq_txn r \<noteq> 0 then
            (case get_read_querier (rq_deadline r) (rq_txn r) h w of
               (Inl e, w) \<Rightarrow> (Inl e, w)
             | (Inr bound, w) \<Rightarrow> (Inr (if bound then Pinned (rq_txn r) else Pool h), w))
          else (Inr (Pool h), w))"

section \<open>Resolving a GUID\<close>

definition keys_with_guid :: "store \<Rightarrow> guid \<Rightarrow> db \<Rightarrow> key_row list" where
  "keys_with_guid st g d = filter (\<lambda>r. kr_guid r = g) (s_keys (schema_of st d))"

fun resolve_loop :: "request \<Rightarrow> guid \<Rightarrow> bytes list \<Rightarrow> bytes option op" where
  "resolve_loop r g [] w = (Inr None, w)"
| "resolve_loop r g (h # hs) w =
     (case gate_acquire (rq_deadline r) w of
        (Inl e, w) \<Rightarrow> (Inl e, w)
      | (Inr _, w) \<Rightarrow>
          (let q = (if bound_querier (rq_txn r) h w then Pinned (rq_txn r) else Pool h) in
           case run_on q (sql_query_row (rq_deadline r) (\<lambda>d. keys_with_guid Main g d @ keys_with_guid Volatile g d)) w of
             (Inr _, w) \<Rightarrow> (Inr (Some h), cache_store g h w)
           | (Inl e, w) \<Rightarrow> if e = Err_No_Rows then resolve_loop r g hs w else (Inl e, w)))"

text \<open>Ranging over the hives map takes them in any order.\<close>

definition resolve_hive :: "request \<Rightarrow> guid \<Rightarrow> bytes option op" where
  "resolve_hive r g w =
     (case w_cache w g of
        Some h \<Rightarrow> (Inr (Some h), w)
      | None \<Rightarrow> (let (ev, w) = elapse w in resolve_loop r g (arrange (ev_order ev) (map fst (w_hives w))) w))"

definition resolve_hive_status :: "request \<Rightarrow> guid \<Rightarrow> world \<Rightarrow> (u32 + bytes) \<times> world" where
  "resolve_hive_status r g w =
     (case resolve_hive r g w of
        (Inl e, w) \<Rightarrow> (Inl (storage_status e), w)
      | (Inr None, w) \<Rightarrow> (Inl status_not_found, w)
      | (Inr (Some h), w) \<Rightarrow> (Inr h, w))"

definition with_hive :: "request \<Rightarrow> guid \<Rightarrow> (bytes \<Rightarrow> world \<Rightarrow> reply \<times> world) \<Rightarrow> world \<Rightarrow> reply \<times> world" where
  "with_hive r g k w =
     (case resolve_hive_status r g w of (Inl st, w) \<Rightarrow> answer st w | (Inr h, w) \<Rightarrow> k h w)"

definition is_volatile_q :: "nat \<Rightarrow> guid \<Rightarrow> store act" where
  "is_volatile_q dl g =
     on_error (sql_query_row dl (keys_with_guid Main g))
       (\<lambda>e. if e \<noteq> Err_No_Rows then fail e
            else on_error (sql_query_row dl (keys_with_guid Volatile g))
                   (\<lambda>e. if e \<noteq> Err_No_Rows then fail e else fail Err_Key_Not_Found)
                   (\<lambda>_. ok Volatile))
       (\<lambda>_. ok Main)"

definition key_exists_in_q :: "nat \<Rightarrow> store \<Rightarrow> guid \<Rightarrow> bool act" where
  "key_exists_in_q dl st g =
     on_error (sql_query_row dl (keys_with_guid st g))
       (\<lambda>e. if e \<noteq> Err_No_Rows then fail e else ok False)
       (\<lambda>_. ok True)"

definition path_key :: "guid \<Rightarrow> bytes \<Rightarrow> bytes \<Rightarrow> path_row \<Rightarrow> bool" where
  "path_key g folded layer r \<longleftrightarrow> pr_parent_guid r = g \<and> pr_child_name_folded r = folded \<and> pr_layer r = layer"

definition path_entry_exists_in_q :: "nat \<Rightarrow> store \<Rightarrow> guid \<Rightarrow> bytes \<Rightarrow> bytes \<Rightarrow> bool act" where
  "path_entry_exists_in_q dl st g folded layer =
     on_error (sql_query_row dl (\<lambda>d. filter (path_key g folded layer) (s_path_entries (schema_of st d))))
       (\<lambda>e. if e \<noteq> Err_No_Rows then fail e else ok False)
       (\<lambda>_. ok True)"

section \<open>Construction\<close>

text \<open>\<open>handler.New\<close>: the hives map by folded name and the cache seeded with the root GUIDs.\<close>

definition request_timeout :: int where "request_timeout = 25000000000"

definition new_handler :: "hive list \<Rightarrow> env \<Rightarrow> world" where
  "new_handler hives e =
     foldl (\<lambda>w hv. cache_store (hv_root_guid hv) (fold_string (hv_name hv))
              (w\<lparr>w_hives := AList.update (fold_string (hv_name hv)) hv (w_hives w)\<rparr>))
       \<lparr>w_hives = [], w_cache = (\<lambda>_. None), w_txns = [], w_env = e, w_budget = request_timeout\<rparr> hives"

end
