(* ===== verification/Paths.thy ===== *)
theory Paths
  imports Routing Rsi_Messages
begin

unbundle bit_operations_syntax

text \<open>
  Path operations: \<open>internal/handler/paths.go\<close> (LOOKUP, CREATE_ENTRY, HIDE_ENTRY, DELETE_ENTRY,
  ENUM_CHILDREN) with the canonicalisation helpers that order every enumeration, and
  \<open>readKeyMeta\<close> of \<open>keys.go\<close>.
\<close>

section \<open>Canonical order\<close>

text \<open>A Go set of GUIDs (\<open>map[rsi.GUID]bool\<close>) is a list of its members in any order.\<close>

definition sorted_guids :: "guid list \<Rightarrow> guid list" where
  "sorted_guids gs = sort (remdups gs)"

definition sort_path_entries :: "lookup_path_entry list \<Rightarrow> lookup_path_entry list" where
  "sort_path_entries entries = sort_key (\<lambda>e. (lpe_layer_name e, lpe_sequence e)) entries"

section \<open>Rows to entries\<close>

definition zero_guid :: guid where "zero_guid = replicate 16 0"

text \<open>\<open>copy(dst[:], src)\<close> into a zeroed 16-byte array.\<close>

definition copy16 :: "bytes \<Rightarrow> guid" where
  "copy16 g = take 16 g @ drop (length (take 16 g)) zero_guid"

definition scan_entry :: "path_row \<Rightarrow> lookup_path_entry" where
  "scan_entry r =
     \<lparr>lpe_layer_name = pr_layer r, lpe_target_type = pr_target_type r,
      lpe_target_guid = (case pr_target_guid r of
                           Some g \<Rightarrow> if pr_target_type r = target_guid_type then copy16 g else zero_guid
                         | None \<Rightarrow> zero_guid),
      lpe_sequence = pr_sequence r\<rparr>"

definition scan_target :: "path_row \<Rightarrow> guid option" where
  "scan_target r =
     (case pr_target_guid r of
        Some g \<Rightarrow> if pr_target_type r = target_guid_type then Some (copy16 g) else None
      | None \<Rightarrow> None)"

definition row_guids :: "path_row list \<Rightarrow> guid list" where
  "row_guids rows = map the (filter (\<lambda>g. g \<noteq> None) (map scan_target rows))"

section \<open>Key metadata of the targets\<close>

definition read_key_meta :: "nat \<Rightarrow> guid \<Rightarrow> lookup_key_meta act" where
  "read_key_meta dl g =
     and_then (sql_query_row dl (\<lambda>d. keys_with_guid Main g d @ keys_with_guid Volatile g d))
       (\<lambda>r. ok \<lparr>lkm_guid = g, lkm_sd = kr_sd r, lkm_volatile = (kr_volatile r \<noteq> 0),
               lkm_symlink = (kr_symlink r \<noteq> 0), lkm_last_write_time = kr_last_write_time r\<rparr>)"

fun read_metadata_loop :: "nat \<Rightarrow> guid list \<Rightarrow> lookup_key_meta list \<Rightarrow> guid list \<Rightarrow> (lookup_key_meta list \<times> guid list) act" where
  "read_metadata_loop dl [] meta dangling = ok (meta, dangling)"
| "read_metadata_loop dl (g # gs) meta dangling =
     on_error (read_key_meta dl g)
       (\<lambda>e. if e = Err_No_Rows then read_metadata_loop dl gs meta (dangling @ [g]) else fail e)
       (\<lambda>entry. read_metadata_loop dl gs (meta @ [entry]) dangling)"

definition read_referenced_metadata :: "nat \<Rightarrow> guid list \<Rightarrow> (lookup_key_meta list \<times> guid list) act" where
  "read_referenced_metadata dl guids = read_metadata_loop dl (sorted_guids guids) [] []"

definition remove_dangling_entries :: "lookup_path_entry list \<Rightarrow> guid list \<Rightarrow> lookup_path_entry list" where
  "remove_dangling_entries entries dangling =
     filter (\<lambda>e. \<not> (lpe_target_type e = target_guid_type \<and> lpe_target_guid e \<in> set dangling)) entries"

definition remove_dangling_children :: "enum_children_child list \<Rightarrow> guid list \<Rightarrow> enum_children_child list" where
  "remove_dangling_children children dangling =
     filter (\<lambda>c. ecc_entries c \<noteq> [])
       (map (\<lambda>c. c\<lparr>ecc_entries := remove_dangling_entries (ecc_entries c) dangling\<rparr>) children)"

section \<open>LOOKUP\<close>

definition child_rows :: "guid \<Rightarrow> bytes \<Rightarrow> store \<Rightarrow> db \<Rightarrow> path_row list" where
  "child_rows parent folded st d =
     filter (\<lambda>r. pr_parent_guid r = parent \<and> pr_child_name_folded r = folded) (s_path_entries (schema_of st d))"

definition lookup_rows :: "nat \<Rightarrow> path_row list \<Rightarrow> (lookup_path_entry list \<times> lookup_key_meta list) act" where
  "lookup_rows dl rows =
     (let entries = sort_path_entries (map scan_entry rows) in
      and_then (read_referenced_metadata dl (row_guids rows))
        (\<lambda>(meta, dangling). ok (if dangling \<noteq> [] then remove_dangling_entries entries dangling else entries, meta)))"

definition lookup_act :: "nat \<Rightarrow> lookup_request \<Rightarrow> (lookup_path_entry list \<times> lookup_key_meta list) act" where
  "lookup_act dl req =
     (let folded = fold_string (lkr_child_name req) in
      and_then (sql_query dl (\<lambda>d. child_rows (lkr_parent_guid req) folded Main d
                                @ child_rows (lkr_parent_guid req) folded Volatile d))
        (lookup_rows dl))"

definition handle_lookup :: "request_header \<Rightarrow> bytes \<Rightarrow> world \<Rightarrow> reply \<times> world" where
  "handle_lookup header payload =
     with_request header (\<lambda>r.
       decoded (decode_lookup_request (new_decoder payload)) (\<lambda>req.
         with_hive r (lkr_parent_guid req) (\<lambda>h.
           op_case (read_q r h) (\<lambda>e. answer (map_read_err e)) (\<lambda>q.
             op_case (run_on q (lookup_act (rq_deadline r) req)) (\<lambda>e. answer (storage_status e))
               (\<lambda>(entries, meta) w. ((status_ok, encode_lookup_response entries meta new_encoder), w))))))"

section \<open>CREATE_ENTRY\<close>

definition insert_entry :: "nat \<Rightarrow> store \<Rightarrow> path_row \<Rightarrow> unit act" where
  "insert_entry dl st r =
     sql_exec dl (\<lambda>d. case insert_row path_pk r (s_path_entries (schema_of st d)) of
        None \<Rightarrow> None | Some t \<Rightarrow> Some (map_schema st (\<lambda>s. s\<lparr>s_path_entries := t\<rparr>) d))"

definition create_entry_in :: "nat \<Rightarrow> create_entry_request \<Rightarrow> store \<Rightarrow> u32 act" where
  "create_entry_in dl req st =
     (let folded = fold_string (cer_child_name req) in
      on_error (path_entry_exists_in_q dl (other_store st) (cer_parent_guid req) folded (cer_layer_name req))
        (\<lambda>e. ok (storage_status e))
        (\<lambda>present. if present then ok status_already_exists
           else on_error
             (insert_entry dl st
                \<lparr>pr_parent_guid = cer_parent_guid req, pr_child_name = cer_child_name req, pr_child_name_folded = folded,
                 pr_layer = cer_layer_name req, pr_target_type = target_guid_type,
                 pr_target_guid = Some (cer_child_guid req), pr_sequence = cer_sequence req\<rparr>)
             (\<lambda>e. ok (if e = Err_Unique then status_already_exists else storage_status e))
             (\<lambda>_. ok status_ok)))"

definition create_entry_act :: "nat \<Rightarrow> create_entry_request \<Rightarrow> u32 act" where
  "create_entry_act dl req =
     on_error (is_volatile_q dl (cer_child_guid req))
       (\<lambda>e. if e = Err_Key_Not_Found then create_entry_in dl req Main else ok (storage_status e))
       (create_entry_in dl req)"

definition handle_create_entry :: "request_header \<Rightarrow> bytes \<Rightarrow> world \<Rightarrow> reply \<times> world" where
  "handle_create_entry header payload =
     with_request header (\<lambda>r.
       decoded (decode_create_entry_request (new_decoder payload)) (\<lambda>req.
         with_hive r (cer_parent_guid req) (\<lambda>h.
           op_case (write_q r h) (\<lambda>e. answer (map_write_err e)) (\<lambda>q.
             op_case (run_on q (create_entry_act (rq_deadline r) req)) (\<lambda>e. answer (storage_status e)) answer))))"

section \<open>HIDE_ENTRY\<close>

text \<open>
  A local transaction of a handler: a pinned connection, BEGIN IMMEDIATE, statements on its
  working copy, and \<open>commitConn\<close>; any failure rolls back, so nothing is published.
\<close>

definition local_txn :: "nat \<Rightarrow> bytes \<Rightarrow> 'a act \<Rightarrow> 'a op" where
  "local_txn dl h m =
     and_then (storage_call dl) (\<lambda>_. and_then (storage_call dl) (\<lambda>_ w.
       (case m (w_env w, hive_db h w) of
          (Inl e, env', d) \<Rightarrow> (Inl e, w\<lparr>w_env := env'\<rparr>)
        | (Inr x, env', d) \<Rightarrow> and_then (commit_conn dl) (\<lambda>_ w. (Inr x, publish h d w)) (w\<lparr>w_env := env'\<rparr>))))"

definition delete_entry_key :: "store \<Rightarrow> guid \<Rightarrow> bytes \<Rightarrow> bytes \<Rightarrow> db \<Rightarrow> db" where
  "delete_entry_key st g folded layer =
     map_schema st (\<lambda>s. s\<lparr>s_path_entries := delete_where (path_key g folded layer) (s_path_entries s)\<rparr>)"

definition replace_entry :: "store \<Rightarrow> path_row \<Rightarrow> db \<Rightarrow> db" where
  "replace_entry st r = map_schema st (\<lambda>s. s\<lparr>s_path_entries := replace_row path_pk r (s_path_entries s)\<rparr>)"

definition hidden_row :: "hide_entry_request \<Rightarrow> bytes \<Rightarrow> path_row" where
  "hidden_row req folded =
     \<lparr>pr_parent_guid = her_parent_guid req, pr_child_name = her_child_name req, pr_child_name_folded = folded,
      pr_layer = her_layer_name req, pr_target_type = target_hidden_type, pr_target_guid = None,
      pr_sequence = her_sequence req\<rparr>"

text \<open>The savepoint: after any error the view is the one before SAVEPOINT.\<close>

definition replace_hidden_entry :: "nat \<Rightarrow> store \<Rightarrow> bytes \<Rightarrow> hide_entry_request \<Rightarrow> unit act" where
  "replace_hidden_entry dl st folded req s =
     (case and_then (sql_exec dl Some) (\<lambda>_.
             and_then (sql_exec dl (\<lambda>d. Some (delete_entry_key (other_store st) (her_parent_guid req) folded (her_layer_name req) d))) (\<lambda>_.
               and_then (sql_exec dl (\<lambda>d. Some (replace_entry st (hidden_row req folded) d))) (\<lambda>_.
                 sql_exec dl Some))) s of
        (Inl e, env', d) \<Rightarrow> (Inl e, env', snd s)
      | (Inr x, s') \<Rightarrow> (Inr x, s'))"

definition hide_entry_locally :: "nat \<Rightarrow> bytes \<Rightarrow> store \<Rightarrow> bytes \<Rightarrow> hide_entry_request \<Rightarrow> unit op" where
  "hide_entry_locally dl h st folded req = local_txn dl h (replace_hidden_entry dl st folded req)"

definition handle_hide_entry :: "request_header \<Rightarrow> bytes \<Rightarrow> world \<Rightarrow> reply \<times> world" where
  "handle_hide_entry header payload =
     with_request header (\<lambda>r.
       decoded (decode_hide_entry_request (new_decoder payload)) (\<lambda>req.
         with_hive r (her_parent_guid req) (\<lambda>h.
           op_case (write_q r h) (\<lambda>e. answer (map_write_err e)) (\<lambda>q.
             (let folded = fold_string (her_child_name req) in
              op_case (run_on q (is_volatile_q (rq_deadline r) (her_parent_guid req)))
                (\<lambda>e. answer (if e = Err_Key_Not_Found then status_not_found else storage_status e))
                (\<lambda>st. op_case (if rq_txn r \<noteq> 0 then run_on q (replace_hidden_entry (rq_deadline r) st folded req)
                              else hide_entry_locally (rq_deadline r) h st folded req)
                        (\<lambda>e. answer (storage_status e))
                        (\<lambda>_. answer status_ok)))))))"

section \<open>DELETE_ENTRY\<close>

definition delete_entry_act :: "nat \<Rightarrow> delete_entry_request \<Rightarrow> unit act" where
  "delete_entry_act dl req =
     (let folded = fold_string (der_child_name req) in
      and_then (sql_exec dl (\<lambda>d. Some (delete_entry_key Main (der_parent_guid req) folded (der_layer_name req) d))) (\<lambda>_.
        sql_exec dl (\<lambda>d. Some (delete_entry_key Volatile (der_parent_guid req) folded (der_layer_name req) d))))"

definition handle_delete_entry :: "request_header \<Rightarrow> bytes \<Rightarrow> world \<Rightarrow> reply \<times> world" where
  "handle_delete_entry header payload =
     with_request header (\<lambda>r.
       decoded (decode_delete_entry_request (new_decoder payload)) (\<lambda>req.
         with_hive r (der_parent_guid req) (\<lambda>h.
           op_case (write_q r h) (\<lambda>e. answer (map_write_err e)) (\<lambda>q.
             op_case (run_on q (delete_entry_act (rq_deadline r) req)) (\<lambda>e. answer (storage_status e))
               (\<lambda>_. answer status_ok)))))"

section \<open>ENUM_CHILDREN\<close>

record child_group =
  cg_display_name :: bytes
  cg_entries :: "lookup_path_entry list"

text \<open>The groups map, as an association list from folded names.\<close>

definition add_child_row :: "(bytes \<times> child_group) list \<Rightarrow> path_row \<Rightarrow> (bytes \<times> child_group) list" where
  "add_child_row groups r =
     (let folded = pr_child_name_folded r; entry = scan_entry r;
          g = (case map_of groups folded of
                 None \<Rightarrow> \<lparr>cg_display_name = pr_child_name r, cg_entries = []\<rparr>
               | Some g \<Rightarrow> if pr_child_name r < cg_display_name g then g\<lparr>cg_display_name := pr_child_name r\<rparr> else g)
      in AList.update folded (g\<lparr>cg_entries := cg_entries g @ [entry]\<rparr>) groups)"

definition read_child_groups :: "path_row list \<Rightarrow> (bytes \<times> child_group) list \<times> guid list" where
  "read_child_groups rows = (foldl add_child_row [] rows, row_guids rows)"

definition ordered_children :: "(bytes \<times> child_group) list \<Rightarrow> enum_children_child list" where
  "ordered_children groups =
     map (\<lambda>folded. let g = the (map_of groups folded) in
            \<lparr>ecc_child_name = cg_display_name g, ecc_entries = sort_path_entries (cg_entries g)\<rparr>)
       (sort (map fst groups))"

definition enum_rows :: "nat \<Rightarrow> path_row list \<Rightarrow> (enum_children_child list \<times> lookup_key_meta list) act" where
  "enum_rows dl rows =
     (let (groups, guids) = read_child_groups rows; children = ordered_children groups in
      and_then (read_referenced_metadata dl guids)
        (\<lambda>(meta, dangling). ok (if dangling \<noteq> [] then remove_dangling_children children dangling else children, meta)))"

definition enum_children_act :: "nat \<Rightarrow> enum_children_request \<Rightarrow> (enum_children_child list \<times> lookup_key_meta list) act" where
  "enum_children_act dl req =
     and_then (sql_query dl (\<lambda>d. filter (\<lambda>r. pr_parent_guid r = ecr_parent_guid req) (s_path_entries (db_main d))
                               @ filter (\<lambda>r. pr_parent_guid r = ecr_parent_guid req) (s_path_entries (db_volatile d))))
       (enum_rows dl)"

definition handle_enum_children :: "request_header \<Rightarrow> bytes \<Rightarrow> world \<Rightarrow> reply \<times> world" where
  "handle_enum_children header payload =
     with_request header (\<lambda>r.
       decoded (decode_enum_children_request (new_decoder payload)) (\<lambda>req.
         with_hive r (ecr_parent_guid req) (\<lambda>h.
           op_case (read_q r h) (\<lambda>e. answer (map_read_err e)) (\<lambda>q.
             op_case (run_on q (enum_children_act (rq_deadline r) req)) (\<lambda>e. answer (storage_status e))
               (\<lambda>(children, meta) w. ((status_ok, encode_enum_children_response children meta new_encoder), w))))))"

end
