(* ===== verification/Keys.thy ===== *)
theory Keys
  imports Paths
begin

unbundle bit_operations_syntax

text \<open>
  Key operations: \<open>internal/handler/keys.go\<close> (CREATE_KEY, READ_KEY, WRITE_KEY, DROP_KEY).
\<close>

section \<open>CREATE_KEY\<close>

definition insert_key :: "nat \<Rightarrow> store \<Rightarrow> key_row \<Rightarrow> unit act" where
  "insert_key dl st r =
     sql_exec dl (\<lambda>d. case insert_row kr_guid r (s_keys (schema_of st d)) of
        None \<Rightarrow> None | Some t \<Rightarrow> Some (map_schema st (\<lambda>s. s\<lparr>s_keys := t\<rparr>) d))"

definition create_key_row :: "create_key_request \<Rightarrow> u64 \<Rightarrow> key_row" where
  "create_key_row req now =
     \<lparr>kr_guid = ckr_guid req, kr_name = ckr_name req, kr_name_folded = fold_string (ckr_name req),
      kr_parent_guid = Some (ckr_parent_guid req), kr_sd = ckr_sd req,
      kr_volatile = (if ckr_volatile req then 1 else 0), kr_symlink = (if ckr_symlink req then 1 else 0),
      kr_last_write_time = now\<rparr>"

definition create_key_act :: "nat \<Rightarrow> create_key_request \<Rightarrow> u64 \<Rightarrow> u32 act" where
  "create_key_act dl req now =
     (let st = (if ckr_volatile req then Volatile else Main) in
      on_error (key_exists_in_q dl (other_store st) (ckr_guid req))
        (\<lambda>e. ok (storage_status e))
        (\<lambda>present. if present then ok status_already_exists
           else on_error (insert_key dl st (create_key_row req now))
             (\<lambda>e. ok (if e = Err_Unique then status_already_exists else storage_status e))
             (\<lambda>_. ok status_ok)))"

text \<open>The fallback search for the parent among the hive roots.\<close>

definition find_root :: "guid \<Rightarrow> (bytes \<times> hive) list \<Rightarrow> bytes option" where
  "find_root g hives = map_option fst (find (\<lambda>(k, hv). hv_root_guid hv = g) hives)"

definition resolve_parent :: "request \<Rightarrow> guid \<Rightarrow> bytes option op" where
  "resolve_parent r g w =
     (case resolve_hive r g w of
        (Inl e, w) \<Rightarrow> (Inl e, w)
      | (Inr (Some h), w) \<Rightarrow> (Inr (Some h), w)
      | (Inr None, w) \<Rightarrow> (let (ev, w) = elapse w in (Inr (find_root g (arrange (ev_order ev) (w_hives w))), w)))"

definition handle_create_key :: "request_header \<Rightarrow> bytes \<Rightarrow> world \<Rightarrow> reply \<times> world" where
  "handle_create_key header payload =
     with_request header (\<lambda>r.
       decoded (decode_create_key_request (new_decoder payload)) (\<lambda>req.
         op_case (resolve_parent r (ckr_parent_guid req)) (\<lambda>e. answer (storage_status e)) (\<lambda>found.
           case found of
             None \<Rightarrow> answer status_not_found
           | Some h \<Rightarrow>
               op_case (write_q r h) (\<lambda>e. answer (map_write_err e)) (\<lambda>q w.
                 op_case (run_on q (create_key_act (rq_deadline r) req (unix_nano w))) (\<lambda>e. answer (storage_status e))
                   (\<lambda>status w.
                      if status = status_ok then
                        let w = cache_store (ckr_guid req) h w;
                            w = (if rq_txn r \<noteq> 0 then add_abort_hook (rq_txn r) (ckr_guid req) w else w)
                        in answer status_ok w
                      else answer status w) w))))"

section \<open>READ_KEY\<close>

definition read_key_full :: "nat \<Rightarrow> guid \<Rightarrow> read_key_response act" where
  "read_key_full dl g =
     and_then (sql_query_row dl (\<lambda>d. keys_with_guid Main g d @ keys_with_guid Volatile g d))
       (\<lambda>r. ok \<lparr>rkp_name = kr_name r,
               rkp_parent_guid = (case kr_parent_guid r of
                                    Some p \<Rightarrow> if length p = 16 then p else zero_guid | None \<Rightarrow> zero_guid),
               rkp_sd = kr_sd r, rkp_volatile = (kr_volatile r \<noteq> 0), rkp_symlink = (kr_symlink r \<noteq> 0),
               rkp_last_write_time = kr_last_write_time r\<rparr>)"

definition handle_read_key :: "request_header \<Rightarrow> bytes \<Rightarrow> world \<Rightarrow> reply \<times> world" where
  "handle_read_key header payload =
     with_request header (\<lambda>r.
       decoded (decode_read_key_request (new_decoder payload)) (\<lambda>req.
         with_hive r (rkr_guid req) (\<lambda>h.
           op_case (read_q r h) (\<lambda>e. answer (map_read_err e)) (\<lambda>q.
             op_case (run_on q (read_key_full (rq_deadline r) (rkr_guid req)))
               (\<lambda>e. answer (if e = Err_No_Rows then status_not_found else storage_status e))
               (\<lambda>m w. ((status_ok, encode_read_key_response m new_encoder), w))))))"

section \<open>WRITE_KEY\<close>

definition update_key :: "nat \<Rightarrow> store \<Rightarrow> guid \<Rightarrow> (key_row \<Rightarrow> key_row) \<Rightarrow> nat act" where
  "update_key dl st g f =
     sql_count dl (\<lambda>d. length (keys_with_guid st g d))
       (map_schema st (\<lambda>s. s\<lparr>s_keys := update_where (\<lambda>r. kr_guid r = g) f (s_keys s)\<rparr>))"

definition rows_status :: "nat act \<Rightarrow> u32 act" where
  "rows_status m = on_error m (\<lambda>e. ok (storage_status e)) (\<lambda>n. ok (if n = 0 then status_not_found else status_ok))"

definition write_key_in :: "nat \<Rightarrow> write_key_request \<Rightarrow> store \<Rightarrow> u32 act" where
  "write_key_in dl req st =
     (let mask = wkr_field_mask req; sd = mask AND write_key_field_sd \<noteq> 0;
          lwt = mask AND write_key_field_last_write_time \<noteq> 0 in
      if sd \<and> lwt then
        rows_status (update_key dl st (wkr_guid req)
          (\<lambda>r. r\<lparr>kr_sd := wkr_sd req, kr_last_write_time := wkr_last_write_time req\<rparr>))
      else if sd then rows_status (update_key dl st (wkr_guid req) (\<lambda>r. r\<lparr>kr_sd := wkr_sd req\<rparr>))
      else if lwt then
        rows_status (update_key dl st (wkr_guid req) (\<lambda>r. r\<lparr>kr_last_write_time := wkr_last_write_time req\<rparr>))
      else on_error (sql_query_row dl (keys_with_guid st (wkr_guid req)))
             (\<lambda>e. ok (if e = Err_No_Rows then status_not_found else storage_status e))
             (\<lambda>_. ok status_ok))"

definition write_key_act :: "nat \<Rightarrow> write_key_request \<Rightarrow> u32 act" where
  "write_key_act dl req =
     on_error (is_volatile_q dl (wkr_guid req))
       (\<lambda>e. ok (if e = Err_Key_Not_Found then status_not_found else storage_status e))
       (write_key_in dl req)"

definition handle_write_key :: "request_header \<Rightarrow> bytes \<Rightarrow> world \<Rightarrow> reply \<times> world" where
  "handle_write_key header payload =
     with_request header (\<lambda>r.
       decoded (decode_write_key_request (new_decoder payload)) (\<lambda>req.
         if wkr_field_mask req AND NOT (write_key_field_sd OR write_key_field_last_write_time) \<noteq> 0
         then answer status_invalid
         else
           with_hive r (wkr_guid req) (\<lambda>h.
             op_case (write_q r h) (\<lambda>e. answer (map_write_err e)) (\<lambda>q.
               op_case (run_on q (write_key_act (rq_deadline r) req)) (\<lambda>e. answer (storage_status e)) answer))))"

section \<open>DROP_KEY\<close>

definition drop_deletes :: "guid \<Rightarrow> (db \<Rightarrow> db) list" where
  "drop_deletes g =
     concat (map (\<lambda>st.
       [map_schema st (\<lambda>s. s\<lparr>s_keys := delete_where (\<lambda>r. kr_guid r = g) (s_keys s)\<rparr>),
        map_schema st (\<lambda>s. s\<lparr>s_path_entries := delete_where (\<lambda>r. pr_target_guid r = Some g) (s_path_entries s)\<rparr>),
        map_schema st (\<lambda>s. s\<lparr>s_values := delete_where (\<lambda>r. vr_key_guid r = g) (s_values s)\<rparr>),
        map_schema st (\<lambda>s. s\<lparr>s_blankets := delete_where (\<lambda>r. br_key_guid r = g) (s_blankets s)\<rparr>)])
       [Main, Volatile])"

fun exec_all :: "nat \<Rightarrow> (db \<Rightarrow> db) list \<Rightarrow> unit act" where
  "exec_all dl [] = ok ()"
| "exec_all dl (f # fs) = and_then (sql_exec dl (\<lambda>d. Some (f d))) (\<lambda>_. exec_all dl fs)"

text \<open>Statements of a \<open>sql.Tx\<close> report its end rather than the context that ended it.\<close>

fun tx_exec_all :: "nat \<Rightarrow> (db \<Rightarrow> db) list \<Rightarrow> unit act" where
  "tx_exec_all dl [] = ok ()"
| "tx_exec_all dl (f # fs) =
     on_error (sql_exec dl (\<lambda>d. Some (f d)))
       (\<lambda>e. fail (if e = Err_Ctx then Err_Tx_Done else e))
       (\<lambda>_. tx_exec_all dl fs)"

definition handle_drop_key :: "request_header \<Rightarrow> bytes \<Rightarrow> world \<Rightarrow> reply \<times> world" where
  "handle_drop_key header payload =
     with_request header (\<lambda>r.
       decoded (decode_drop_key_request (new_decoder payload)) (\<lambda>req.
         op_case (resolve_hive r (dkr_guid req)) (\<lambda>e. answer (storage_status e)) (\<lambda>found.
           case found of
             None \<Rightarrow> answer status_ok
           | Some h \<Rightarrow>
               op_case (write_q r h) (\<lambda>e. answer (map_write_err e)) (\<lambda>q.
                 op_case (if rq_txn r = 0 then local_txn (rq_deadline r) h (tx_exec_all (rq_deadline r) (drop_deletes (dkr_guid req)))
                          else run_on q (exec_all (rq_deadline r) (drop_deletes (dkr_guid req))))
                   (\<lambda>e. answer (storage_status e))
                   (\<lambda>_ w. answer status_ok
                      (if rq_txn r \<noteq> 0 then add_commit_hook (rq_txn r) (dkr_guid req) w
                       else cache_delete (dkr_guid req) w))))))"

end
