(* ===== verification/Values.thy ===== *)
theory Values
  imports Keys
begin

unbundle bit_operations_syntax

text \<open>
  Value operations: \<open>internal/handler/values.go\<close> (QUERY_VALUES, SET_VALUE with its
  compare-and-swap, DELETE_VALUE_ENTRY, SET_BLANKET_TOMBSTONE).
\<close>

section \<open>QUERY_VALUES\<close>

definition scan_value :: "value_row \<Rightarrow> query_values_entry" where
  "scan_value r =
     \<lparr>qve_value_name = vr_name r, qve_layer_name = vr_layer r, qve_type = vr_type r, qve_data = vr_data r,
      qve_sequence = vr_sequence r\<rparr>"

definition scan_blanket :: "blanket_row \<Rightarrow> blanket_tombstone_entry" where
  "scan_blanket r = \<lparr>bte_layer_name = br_layer r, bte_sequence = br_sequence r\<rparr>"

definition value_rows :: "query_values_request \<Rightarrow> store \<Rightarrow> db \<Rightarrow> value_row list" where
  "value_rows req st d =
     filter (\<lambda>r. vr_key_guid r = qvr_guid req \<and>
        (qvr_query_all req \<or> vr_name_folded r = fold_string (qvr_value_name req))) (s_values (schema_of st d))"

definition sort_values :: "query_values_entry list \<Rightarrow> query_values_entry list" where
  "sort_values entries =
     sort_key (\<lambda>e. (fold_string (qve_value_name e), qve_layer_name e, qve_sequence e)) entries"

definition sort_blankets :: "blanket_tombstone_entry list \<Rightarrow> blanket_tombstone_entry list" where
  "sort_blankets bts = sort_key (\<lambda>b. (fold_string (bte_layer_name b), bte_sequence b)) bts"

definition query_value_entries :: "nat \<Rightarrow> query_values_request \<Rightarrow> query_values_entry list act" where
  "query_value_entries dl req =
     and_then (sql_query dl (\<lambda>d. value_rows req Main d @ value_rows req Volatile d))
       (\<lambda>rows. ok (sort_values (map scan_value rows)))"

definition blanket_rows :: "guid \<Rightarrow> store \<Rightarrow> db \<Rightarrow> blanket_row list" where
  "blanket_rows g st d = filter (\<lambda>r. br_key_guid r = g) (s_blankets (schema_of st d))"

definition query_blanket_tombstones :: "nat \<Rightarrow> guid \<Rightarrow> blanket_tombstone_entry list act" where
  "query_blanket_tombstones dl g =
     and_then (sql_query dl (\<lambda>d. blanket_rows g Main d @ blanket_rows g Volatile d))
       (\<lambda>rows. ok (sort_blankets (map scan_blanket rows)))"

definition query_values_act :: "nat \<Rightarrow> query_values_request \<Rightarrow> (query_values_entry list \<times> blanket_tombstone_entry list) act" where
  "query_values_act dl req =
     and_then (query_value_entries dl req) (\<lambda>entries.
       and_then (query_blanket_tombstones dl (qvr_guid req)) (\<lambda>blankets. ok (entries, blankets)))"

definition handle_query_values :: "request_header \<Rightarrow> bytes \<Rightarrow> world \<Rightarrow> reply \<times> world" where
  "handle_query_values header payload =
     with_request header (\<lambda>r.
       decoded (decode_query_values_request (new_decoder payload)) (\<lambda>req.
         with_hive r (qvr_guid req) (\<lambda>h.
           op_case (read_q r h) (\<lambda>e. answer (map_read_err e)) (\<lambda>q.
             op_case (run_on q (query_values_act (rq_deadline r) req)) (\<lambda>e. answer (storage_status e))
               (\<lambda>(entries, blankets) w.
                  ((status_ok, encode_query_values_response entries blankets new_encoder), w))))))"

section \<open>SET_VALUE\<close>

definition set_value_row :: "set_value_request \<Rightarrow> bytes \<Rightarrow> value_row" where
  "set_value_row req folded =
     \<lparr>vr_key_guid = svr_guid req, vr_name = svr_value_name req, vr_name_folded = folded,
      vr_layer = svr_layer_name req, vr_type = svr_type req, vr_data = svr_data req, vr_sequence = svr_sequence req\<rparr>"

definition replace_value :: "store \<Rightarrow> value_row \<Rightarrow> db \<Rightarrow> db" where
  "replace_value st r = map_schema st (\<lambda>s. s\<lparr>s_values := replace_row value_pk r (s_values s)\<rparr>)"

definition value_key :: "guid \<Rightarrow> bytes \<Rightarrow> bytes \<Rightarrow> value_row \<Rightarrow> bool" where
  "value_key g folded layer r \<longleftrightarrow> vr_key_guid r = g \<and> vr_name_folded r = folded \<and> vr_layer r = layer"

definition set_value_cas :: "nat \<Rightarrow> store \<Rightarrow> bytes \<Rightarrow> set_value_request \<Rightarrow> u32 act" where
  "set_value_cas dl st folded req =
     on_error (sql_query_row dl (\<lambda>d. filter (value_key (svr_guid req) folded (svr_layer_name req)) (s_values (schema_of st d))))
       (\<lambda>e. ok (if e = Err_No_Rows then status_cas_failed else storage_status e))
       (\<lambda>r. if vr_sequence r \<noteq> svr_expected_sequence req then ok status_cas_failed
            else on_error (sql_exec dl (\<lambda>d. Some (replace_value st (set_value_row req folded) d)))
                   (\<lambda>e. ok (storage_status e)) (\<lambda>_. ok status_ok))"

definition set_value_local_cas :: "nat \<Rightarrow> bytes \<Rightarrow> store \<Rightarrow> bytes \<Rightarrow> set_value_request \<Rightarrow> world \<Rightarrow> u32 \<times> world" where
  "set_value_local_cas dl h st folded req w =
     (case storage_call dl w of
        (Inl e, w) \<Rightarrow> (storage_status e, w)
      | (Inr _, w) \<Rightarrow>
          (case storage_call dl w of
             (Inl e, w) \<Rightarrow> (if is_busy e then status_txn_busy else storage_status e, w)
           | (Inr _, w) \<Rightarrow>
               (case set_value_cas dl st folded req (w_env w, hive_db h w) of
                  (Inl e, env', d) \<Rightarrow> (storage_status e, w\<lparr>w_env := env'\<rparr>)
                | (Inr status, env', d) \<Rightarrow>
                    (let w = w\<lparr>w_env := env'\<rparr> in
                     if status \<noteq> status_ok then (status, w)
                     else case commit_conn dl w of
                       (Inl e, w) \<Rightarrow> (storage_status e, w)
                     | (Inr _, w) \<Rightarrow> (status_ok, publish h d w)))))"

definition handle_set_value :: "request_header \<Rightarrow> bytes \<Rightarrow> world \<Rightarrow> reply \<times> world" where
  "handle_set_value header payload =
     with_request header (\<lambda>r.
       decoded (decode_set_value_request (new_decoder payload)) (\<lambda>req.
         with_hive r (svr_guid req) (\<lambda>h.
           op_case (write_q r h) (\<lambda>e. answer (map_write_err e)) (\<lambda>q.
             (let folded = fold_string (svr_value_name req) in
              op_case (run_on q (is_volatile_q (rq_deadline r) (svr_guid req)))
                (\<lambda>e. answer (if e = Err_Key_Not_Found then status_not_found else storage_status e))
                (\<lambda>st w.
                   if svr_expected_sequence req \<noteq> 0 then
                     (if rq_txn r = 0 then
                        (let (status, w) = set_value_local_cas (rq_deadline r) h st folded req w in answer status w)
                      else op_case (run_on q (set_value_cas (rq_deadline r) st folded req)) (\<lambda>e. answer (storage_status e)) answer w)
                   else
                     op_case (run_on q (sql_exec (rq_deadline r) (\<lambda>d. Some (replace_value st (set_value_row req folded) d))))
                       (\<lambda>e. answer (storage_status e)) (\<lambda>_. answer status_ok) w))))))"

section \<open>DELETE_VALUE_ENTRY\<close>

definition delete_value_key :: "store \<Rightarrow> guid \<Rightarrow> bytes \<Rightarrow> bytes \<Rightarrow> db \<Rightarrow> db" where
  "delete_value_key st g folded layer =
     map_schema st (\<lambda>s. s\<lparr>s_values := delete_where (value_key g folded layer) (s_values s)\<rparr>)"

definition delete_value_act :: "nat \<Rightarrow> delete_value_entry_request \<Rightarrow> unit act" where
  "delete_value_act dl req =
     (let folded = fold_string (dvr_value_name req) in
      and_then (sql_exec dl (\<lambda>d. Some (delete_value_key Main (dvr_guid req) folded (dvr_layer_name req) d))) (\<lambda>_.
        sql_exec dl (\<lambda>d. Some (delete_value_key Volatile (dvr_guid req) folded (dvr_layer_name req) d))))"

definition handle_delete_value_entry :: "request_header \<Rightarrow> bytes \<Rightarrow> world \<Rightarrow> reply \<times> world" where
  "handle_delete_value_entry header payload =
     with_request header (\<lambda>r.
       decoded (decode_delete_value_entry_request (new_decoder payload)) (\<lambda>req.
         with_hive r (dvr_guid req) (\<lambda>h.
           op_case (write_q r h) (\<lambda>e. answer (map_write_err e)) (\<lambda>q.
             op_case (run_on q (delete_value_act (rq_deadline r) req)) (\<lambda>e. answer (storage_status e))
               (\<lambda>_. answer status_ok)))))"

section \<open>SET_BLANKET_TOMBSTONE\<close>

definition set_blanket :: "store \<Rightarrow> set_blanket_tombstone_request \<Rightarrow> db \<Rightarrow> db" where
  "set_blanket st req =
     map_schema st (\<lambda>s. s\<lparr>s_blankets :=
       (if sbr_set req then
          replace_row blanket_pk
            \<lparr>br_key_guid = sbr_guid req, br_layer = sbr_layer_name req, br_sequence = sbr_sequence req\<rparr> (s_blankets s)
        else delete_where (\<lambda>r. br_key_guid r = sbr_guid req \<and> br_layer r = sbr_layer_name req) (s_blankets s))\<rparr>)"

definition set_blanket_act :: "nat \<Rightarrow> set_blanket_tombstone_request \<Rightarrow> u32 act" where
  "set_blanket_act dl req =
     on_error (is_volatile_q dl (sbr_guid req))
       (\<lambda>e. ok (if e = Err_Key_Not_Found then status_not_found else storage_status e))
       (\<lambda>st. on_error (sql_exec dl (\<lambda>d. Some (set_blanket st req d))) (\<lambda>e. ok (storage_status e)) (\<lambda>_. ok status_ok))"

definition handle_set_blanket_tombstone :: "request_header \<Rightarrow> bytes \<Rightarrow> world \<Rightarrow> reply \<times> world" where
  "handle_set_blanket_tombstone header payload =
     with_request header (\<lambda>r.
       decoded (decode_set_blanket_tombstone_request (new_decoder payload)) (\<lambda>req.
         with_hive r (sbr_guid req) (\<lambda>h.
           op_case (write_q r h) (\<lambda>e. answer (map_write_err e)) (\<lambda>q.
             op_case (run_on q (set_blanket_act (rq_deadline r) req)) (\<lambda>e. answer (storage_status e)) answer))))"

end
