(* ===== verification/Txn_Handlers.thy ===== *)
theory Txn_Handlers
  imports Values
begin

unbundle bit_operations_syntax

text \<open>
  Transaction control and the operations that span hives:
  \<open>internal/handler/txn_handlers.go\<close> (BEGIN, COMMIT, ABORT, DELETE_LAYER, FLUSH).
\<close>

section \<open>BEGIN, COMMIT, ABORT\<close>

definition handle_begin_transaction :: "request_header \<Rightarrow> bytes \<Rightarrow> world \<Rightarrow> reply \<times> world" where
  "handle_begin_transaction header payload =
     (let header = header\<lparr>txnID := 0\<rparr> in
      with_request header (\<lambda>r.
        decoded (decode_begin_transaction_request (new_decoder payload)) (\<lambda>req.
          if btr_mode req \<noteq> txn_read_write \<and> btr_mode req \<noteq> txn_read_only then answer status_invalid
          else op_case (begin_leased (btr_txn_id req) (btr_mode req = txn_read_only) header)
                 (\<lambda>e. answer status_invalid) (\<lambda>_. answer status_ok))))"

definition handle_commit_transaction :: "request_header \<Rightarrow> bytes \<Rightarrow> world \<Rightarrow> reply \<times> world" where
  "handle_commit_transaction header payload w =
     (if session header \<noteq> 0 \<and> leaseNS header = 0 then answer status_invalid w
      else
        let header = header\<lparr>txnID := 0\<rparr> in
        op_case (start_request header) (\<lambda>e. answer (map_write_err e)) (\<lambda>r.
          decoded (decode_commit_transaction_request (new_decoder payload)) (\<lambda>req.
            op_case (commit (rq_deadline r) (ctr_txn_id req))
              (\<lambda>e. answer (if is_busy e then status_txn_busy else storage_status e))
              (\<lambda>_. answer status_ok))) w)"

definition handle_abort_transaction :: "request_header \<Rightarrow> bytes \<Rightarrow> world \<Rightarrow> reply \<times> world" where
  "handle_abort_transaction header payload =
     (let header = header\<lparr>txnID := 0\<rparr> in
      with_request header (\<lambda>r.
        decoded (decode_abort_transaction_request (new_decoder payload)) (\<lambda>req w.
          answer status_ok (abort (atr_txn_id req) w))))"

section \<open>DELETE_LAYER\<close>

definition layer_targets :: "(bytes \<Rightarrow> bool) \<Rightarrow> store \<Rightarrow> db \<Rightarrow> guid option list" where
  "layer_targets P st d =
     map pr_target_guid (filter (\<lambda>r. P (pr_layer r) \<and> pr_target_type r = target_guid_type)
       (s_path_entries (schema_of st d)))"

definition orphan_rows :: "bytes \<Rightarrow> db \<Rightarrow> guid option list" where
  "orphan_rows layer d =
     (let here = layer_targets (\<lambda>l. l = layer) Main d @ layer_targets (\<lambda>l. l = layer) Volatile d;
          elsewhere = layer_targets (\<lambda>l. l \<noteq> layer) Main d @ layer_targets (\<lambda>l. l \<noteq> layer) Volatile d
      in remdups (filter (\<lambda>g. sql_not_in g elsewhere) here))"

definition scan_orphan :: "guid option \<Rightarrow> guid" where
  "scan_orphan g = (case g of Some b \<Rightarrow> if length b = 16 then b else zero_guid | None \<Rightarrow> zero_guid)"

definition find_layer_orphans :: "nat \<Rightarrow> bytes \<Rightarrow> guid list act" where
  "find_layer_orphans dl layer =
     and_then (sql_query dl (orphan_rows layer)) (\<lambda>rows. ok (map scan_orphan rows))"

definition layer_deletes :: "bytes \<Rightarrow> (db \<Rightarrow> db) list" where
  "layer_deletes layer =
     concat (map (\<lambda>st.
       [map_schema st (\<lambda>s. s\<lparr>s_path_entries := delete_where (\<lambda>r. pr_layer r = layer) (s_path_entries s)\<rparr>),
        map_schema st (\<lambda>s. s\<lparr>s_values := delete_where (\<lambda>r. vr_layer r = layer) (s_values s)\<rparr>),
        map_schema st (\<lambda>s. s\<lparr>s_blankets := delete_where (\<lambda>r. br_layer r = layer) (s_blankets s)\<rparr>)])
       [Main, Volatile])"

definition delete_layer_act :: "nat \<Rightarrow> bytes \<Rightarrow> guid list act" where
  "delete_layer_act dl layer =
     and_then (find_layer_orphans dl layer) (\<lambda>orphans.
       and_then (exec_all dl (layer_deletes layer)) (\<lambda>_. ok orphans))"

definition delete_layer_from_hive :: "nat \<Rightarrow> bytes \<Rightarrow> bytes \<Rightarrow> guid list op" where
  "delete_layer_from_hive dl h layer = local_txn dl h (delete_layer_act dl layer)"

fun delete_layer_loop :: "nat \<Rightarrow> bytes \<Rightarrow> bytes list \<Rightarrow> guid list \<Rightarrow> world \<Rightarrow> (u32 + guid list) \<times> world" where
  "delete_layer_loop dl layer [] orphans w = (Inr orphans, w)"
| "delete_layer_loop dl layer (h # hs) orphans w =
     (case gate_acquire dl w of
        (Inl e, w) \<Rightarrow> (Inl (map_write_err e), w)
      | (Inr _, w) \<Rightarrow>
          if other_writer h 0 w then (Inl status_txn_busy, w)
          else (case delete_layer_from_hive dl h layer w of
             (Inl e, w) \<Rightarrow> (Inl (if is_busy e then status_txn_busy else storage_status e), w)
           | (Inr os, w) \<Rightarrow> delete_layer_loop dl layer hs (orphans @ os) w))"

definition handle_delete_layer :: "request_header \<Rightarrow> bytes \<Rightarrow> world \<Rightarrow> reply \<times> world" where
  "handle_delete_layer header payload =
     with_request header (\<lambda>r.
       decoded (decode_delete_layer_request (new_decoder payload)) (\<lambda>req w.
         case mutation_allowed (rq_txn r) w of
           Some e \<Rightarrow> answer (map_write_err e) w
         | None \<Rightarrow>
             if any_write_bound w then answer status_txn_busy w
             else
               let (ev, w) = elapse w in
               (case delete_layer_loop (rq_deadline r) (dlr_layer_name req)
                       (arrange (ev_order ev) (map fst (w_hives w))) [] w of
                  (Inl status, w) \<Rightarrow> answer status w
                | (Inr orphans, w) \<Rightarrow>
                    (let orphans = sort orphans; w = foldl (\<lambda>w g. cache_delete g w) w orphans
                     in ((status_ok, encode_delete_layer_response orphans new_encoder), w)))))"

section \<open>FLUSH\<close>

text \<open>The checkpoint pragma reports through its result row whether readers blocked it.\<close>

definition wal_checkpoint :: "nat \<Rightarrow> bool op" where
  "wal_checkpoint dl w =
     (let (ev, w') = elapse w in
      (if ctx_done dl w' then Inl Err_Ctx
       else case ev_fault ev of Some code \<Rightarrow> Inl (Err_Sqlite code) | None \<Rightarrow> Inr (ev_busy ev), w'))"

definition handle_flush :: "request_header \<Rightarrow> bytes \<Rightarrow> world \<Rightarrow> reply \<times> world" where
  "handle_flush header payload =
     with_request header (\<lambda>r.
       decoded (decode_flush_request (new_decoder payload)) (\<lambda>req w.
         case mutation_allowed (rq_txn r) w of
           Some e \<Rightarrow> answer (map_write_err e) w
         | None \<Rightarrow>
             (let folded = fold_string (flr_hive_name req) in
              if find_hive folded w = None then answer status_invalid w
              else op_case (lock_hive r) (\<lambda>e. answer (map_write_err e)) (\<lambda>_ w.
                if hive_busy folded w then answer status_txn_busy w
                else op_case (wal_checkpoint (rq_deadline r)) (\<lambda>e. answer (storage_status e))
                       (\<lambda>busy. answer (if busy then status_txn_busy else status_ok)) w) w)))"

end
