(* ===== verification/Dispatch.thy ===== *)
theory Dispatch
  imports Txn_Handlers
begin

unbundle bit_operations_syntax

text \<open>
  The dispatcher (\<open>internal/rsi/dispatch.go\<close>), the registration of the operation handlers
  (\<open>handler.go\<close>, \<open>values.go\<close>, \<open>txn_handlers.go\<close>) and the serve loop of the message-oriented
  device (\<open>internal/device/device.go\<close>).
\<close>

section \<open>The handlers table\<close>

type_synonym rsi_handler = "request_header \<Rightarrow> bytes \<Rightarrow> world \<Rightarrow> reply \<times> world"
type_synonym dispatcher = "u16 \<Rightarrow> rsi_handler option"

definition new_dispatcher :: dispatcher where "new_dispatcher = (\<lambda>_. None)"

definition register :: "u16 \<Rightarrow> rsi_handler \<Rightarrow> dispatcher \<Rightarrow> dispatcher" where
  "register op h d = d(op := Some h)"

definition has_handler :: "dispatcher \<Rightarrow> u16 \<Rightarrow> bool" where
  "has_handler d op \<longleftrightarrow> d op \<noteq> None"

definition register_value_handlers :: "dispatcher \<Rightarrow> dispatcher" where
  "register_value_handlers d =
     register op_set_blanket_tombstone handle_set_blanket_tombstone
       (register op_delete_value_entry handle_delete_value_entry
         (register op_set_value handle_set_value
           (register op_query_values handle_query_values d)))"

definition register_txn_handlers :: "dispatcher \<Rightarrow> dispatcher" where
  "register_txn_handlers d =
     register op_flush handle_flush
       (register op_delete_layer handle_delete_layer
         (register op_abort_transaction handle_abort_transaction
           (register op_commit_transaction handle_commit_transaction
             (register op_begin_transaction handle_begin_transaction d))))"

definition register_handlers :: "dispatcher \<Rightarrow> dispatcher" where
  "register_handlers d =
     (let d = register op_lookup handle_lookup d;
          d = register op_create_entry handle_create_entry d;
          d = register op_hide_entry handle_hide_entry d;
          d = register op_delete_entry handle_delete_entry d;
          d = register op_enum_children handle_enum_children d;
          d = register op_create_key handle_create_key d;
          d = register op_read_key handle_read_key d;
          d = register op_write_key handle_write_key d;
          d = register op_drop_key handle_drop_key d
      in register_txn_handlers (register_value_handlers d))"

section \<open>Dispatch\<close>

definition dispatch :: "dispatcher \<Rightarrow> request_header \<Rightarrow> bytes \<Rightarrow> world \<Rightarrow> bytes \<times> world" where
  "dispatch d hdr payload w =
     (case d (opCode hdr) of
        None \<Rightarrow> (write_response (requestID hdr) (opCode hdr) status_invalid [], w)
      | Some h \<Rightarrow>
          (let ((status, resp), w) = h hdr payload w
           in (write_response (requestID hdr) (opCode hdr) status resp, w)))"

end
