(* ===== verification/Device.thy ===== *)
theory Device
  imports Dispatch
begin

unbundle bit_operations_syntax

text \<open>
  The boundary against the registry device: \<open>internal/device/device.go\<close> (the registration and
  the request loop) and \<open>lifetime.go\<close> (the lifetime protocol).  The kernel is not part of the
  repository: its answers are arguments, and the addresses of the buffers a registration
  points to are given by a function from buffers to addresses.
\<close>

section \<open>Registration\<close>

definition reg_src_register :: u32 where "reg_src_register = 0x40185200"
definition reg_src_register_args_size :: nat where "reg_src_register_args_size = 24"
definition reg_src_hive_entry_size :: nat where "reg_src_hive_entry_size = 56"

record hive_registration =
  hr_name :: bytes
  hr_root_guid :: guid

text \<open>\<open>copy\<close> and \<open>PutUint\<close> into a buffer at an offset.\<close>

definition store_at :: "nat \<Rightarrow> bytes \<Rightarrow> bytes \<Rightarrow> bytes" where
  "store_at off bs buf = take off buf @ bs @ drop (off + length bs) buf"

definition put_entry :: "u64 \<Rightarrow> nat \<Rightarrow> hive_registration \<Rightarrow> bytes \<Rightarrow> bytes" where
  "put_entry name_ptr base hv entries =
     (let entries = store_at base (le_bytes 4 (word_of_nat (length (hr_name hv)) :: u32)) entries;
          entries = store_at (base + 8) (le_bytes 8 name_ptr) entries
      in store_at (base + 16) (hr_root_guid hv) entries)"

fun put_entries :: "(nat \<Rightarrow> u64) \<Rightarrow> nat \<Rightarrow> hive_registration list \<Rightarrow> bytes \<Rightarrow> bytes" where
  "put_entries name_addr i [] entries = entries"
| "put_entries name_addr i (hv # hives) entries =
     put_entries name_addr (Suc i) hives
       (put_entry (if hr_name hv = [] then 0 else name_addr i) (i * reg_src_hive_entry_size) hv entries)"

text \<open>The entries array and the argument structure \<open>Register\<close> hands to the kernel.\<close>

definition register_entries :: "(nat \<Rightarrow> u64) \<Rightarrow> hive_registration list \<Rightarrow> bytes" where
  "register_entries name_addr hives =
     put_entries name_addr 0 hives (replicate (length hives * reg_src_hive_entry_size) 0)"

definition register_args :: "u64 \<Rightarrow> hive_registration list \<Rightarrow> u64 \<Rightarrow> bytes" where
  "register_args entries_addr hives max_seq =
     (let args = replicate reg_src_register_args_size 0;
          args = store_at 0 (le_bytes 4 (word_of_nat (length hives) :: u32)) args;
          args = store_at 8 (le_bytes 8 max_seq) args
      in store_at 16 (le_bytes 8 entries_addr) args)"

definition register_hives ::
  "(nat \<Rightarrow> u64) \<Rightarrow> u64 \<Rightarrow> hive_registration list \<Rightarrow> u64 \<Rightarrow> error + bytes \<times> bytes" where
  "register_hives name_addr entries_addr hives max_seq =
     (if hives = [] then Inl Err_No_Hives
      else Inr (register_args entries_addr hives max_seq, register_entries name_addr hives))"

section \<open>The lifetime protocol\<close>

definition reg_src_negotiate :: u32 where "reg_src_negotiate = 0xc0105201"
definition reg_src_request_context :: u32 where "reg_src_request_context = 0xc0285202"
definition reg_src_renew :: u32 where "reg_src_renew = 0xc0205203"

record negotiate_args =
  na_version :: u32
  na_flags :: u32
  na_session :: u64

record context_args =
  ca_session :: u64
  ca_request_id :: u64
  ca_request_deadline :: u64
  ca_lifetime_deadline :: u64
  ca_lease_deadline :: u64

record renew_args =
  ra_session :: u64
  ra_transaction_id :: u64
  ra_lifetime_deadline :: u64
  ra_lease_deadline :: u64

text \<open>An ioctl: the kernel fails or overwrites the argument structure.\<close>

type_synonym 'a ioctl = "'a \<Rightarrow> int + 'a"

definition negotiate :: "negotiate_args ioctl \<Rightarrow> error + u64" where
  "negotiate ioctl =
     (case ioctl \<lparr>na_version = 1, na_flags = 0, na_session = 0\<rparr> of
        Inl errno \<Rightarrow> Inl (Err_Os errno)
      | Inr args \<Rightarrow>
          if na_version args \<noteq> 1 \<or> na_flags args \<noteq> 0 \<or> na_session args = 0 then Inl Err_Negotiation
          else Inr (na_session args))"

definition request_context :: "u64 \<Rightarrow> context_args ioctl \<Rightarrow> request_header \<Rightarrow> int + request_header" where
  "request_context lt_session ioctl hdr =
     (case ioctl \<lparr>ca_session = lt_session, ca_request_id = requestID hdr, ca_request_deadline = 0,
                  ca_lifetime_deadline = 0, ca_lease_deadline = 0\<rparr> of
        Inl errno \<Rightarrow> Inl errno
      | Inr args \<Rightarrow>
          Inr (hdr\<lparr>session := lt_session, deadlineNS := ca_request_deadline args,
                   lifetimeNS := ca_lifetime_deadline args, leaseNS := ca_lease_deadline args\<rparr>))"

definition estale :: int where "estale = 116"

definition renew_lease :: "u64 \<Rightarrow> renew_args ioctl \<Rightarrow> u64 \<Rightarrow> u64 \<Rightarrow> int + u64" where
  "renew_lease lt_session ioctl ses i =
     (if ses \<noteq> lt_session then Inl estale
      else case ioctl \<lparr>ra_session = ses, ra_transaction_id = i, ra_lifetime_deadline = 0, ra_lease_deadline = 0\<rparr> of
        Inl errno \<Rightarrow> Inl errno
      | Inr args \<Rightarrow> Inr (ra_lease_deadline args))"

section \<open>The request loop\<close>

text \<open>
  \<open>ServeWithLifetime\<close>: the reading goroutine and the dispatches in flight.  A dispatch runs its
  handler and then writes the reply; every other goroutine may act between the two.  The
  reading goroutine dispatches a BEGIN itself and reads on when that reply is written.  The
  accepted requests are numbered in the order they are read; their log is kept to state what
  the loop owes.
\<close>

datatype read_result = Message bytes | End_Of_File | Device_Closed | Read_Error int

datatype serve_error = Read_Failed int | Malformed_Framing frame_error | Lifetime_Failed int

datatype loop_state = Reading | Inline nat | Draining "serve_error option" | Returned "serve_error option"

datatype job = Dispatched request_header bytes | Replying bytes

record serving =
  sv_world :: world
  sv_loop :: loop_state
  sv_jobs :: "(nat \<times> job) list"
  sv_accepted :: "(request_header \<times> bytes) list"
  sv_responses :: "bytes list"
  sv_refused :: "(bytes \<times> int) list"

definition receive ::
  "(u64 \<times> context_args ioctl) option \<Rightarrow> read_result \<Rightarrow> serving \<Rightarrow> serving" where
  "receive lifetime r s =
     (case r of
        End_Of_File \<Rightarrow> s\<lparr>sv_loop := Draining None\<rparr>
      | Device_Closed \<Rightarrow> s\<lparr>sv_loop := Draining None\<rparr>
      | Read_Error errno \<Rightarrow> s\<lparr>sv_loop := Draining (Some (Read_Failed errno))\<rparr>
      | Message msg \<Rightarrow>
          (case parse_request msg of
             Inl e \<Rightarrow> s\<lparr>sv_loop := Draining (Some (Malformed_Framing e))\<rparr>
           | Inr (hdr, payload) \<Rightarrow>
               (case (case lifetime of None \<Rightarrow> Inr hdr | Some (ses, ioctl) \<Rightarrow> request_context ses ioctl hdr) of
                  Inl errno \<Rightarrow> s\<lparr>sv_loop := Draining (Some (Lifetime_Failed errno))\<rparr>
                | Inr hdr \<Rightarrow>
                    let n = length (sv_accepted s) in
                    s\<lparr>sv_accepted := sv_accepted s @ [(hdr, payload)],
                      sv_jobs := sv_jobs s @ [(n, Dispatched hdr payload)],
                      sv_loop := (if opCode hdr = op_begin_transaction then Inline n else Reading)\<rparr>)))"

text \<open>\<open>dispatch\<close>: the handler of the request runs and its reply is ready to be written.\<close>

definition handle_job :: "dispatcher \<Rightarrow> nat \<Rightarrow> serving \<Rightarrow> serving" where
  "handle_job d k s =
     (case sv_jobs s ! k of
        (n, Dispatched hdr payload) \<Rightarrow>
          (let (response, w) = dispatch d hdr payload (sv_world s)
           in s\<lparr>sv_world := w, sv_jobs := (sv_jobs s)[k := (n, Replying response)]\<rparr>)
      | (n, Replying response) \<Rightarrow> s)"

text \<open>
  \<open>writeResponse\<close>: one Write of the whole reply under the dispatcher's mutex; an error of the
  device is logged and the dispatch ends.
\<close>

definition write_reply :: "int option \<Rightarrow> nat \<Rightarrow> serving \<Rightarrow> serving" where
  "write_reply outcome k s =
     (case sv_jobs s ! k of
        (n, Dispatched hdr payload) \<Rightarrow> s
      | (n, Replying response) \<Rightarrow>
          s\<lparr>sv_responses := sv_responses s @ [response],
            sv_refused := (case outcome of None \<Rightarrow> sv_refused s | Some errno \<Rightarrow> sv_refused s @ [(response, errno)]),
            sv_jobs := take k (sv_jobs s) @ drop (Suc k) (sv_jobs s),
            sv_loop := (if sv_loop s = Inline n then Reading else sv_loop s)\<rparr>)"

text \<open>A step: a read returns, a handler runs, a reply is written, the wait group is empty, a lease turn.\<close>

fun awaits :: "job \<Rightarrow> bool" where
  "awaits (Dispatched hdr payload) = True" | "awaits (Replying response) = False"

inductive serve_step :: "dispatcher \<Rightarrow> u64 option \<Rightarrow> (u64 \<Rightarrow> u64 \<Rightarrow> u64 option) \<Rightarrow> serving \<Rightarrow> serving \<Rightarrow> bool"
  for d :: dispatcher and lifetime :: "u64 option" and renew :: "u64 \<Rightarrow> u64 \<Rightarrow> u64 option" where
  read: "sv_loop s = Reading \<Longrightarrow> serve_step d lifetime renew s (receive (map_option (\<lambda>ses. (ses, ioctl)) lifetime) r s)"
| handle: "k < length (sv_jobs s) \<Longrightarrow> awaits (snd (sv_jobs s ! k)) \<Longrightarrow> serve_step d lifetime renew s (handle_job d k s)"
| write_back: "k < length (sv_jobs s) \<Longrightarrow> \<not> awaits (snd (sv_jobs s ! k)) \<Longrightarrow> serve_step d lifetime renew s (write_reply outcome k s)"
| drained: "sv_loop s = Draining e \<Longrightarrow> sv_jobs s = [] \<Longrightarrow> serve_step d lifetime renew s (s\<lparr>sv_loop := Returned e\<rparr>)"
| lease: "serve_step d lifetime renew s (s\<lparr>sv_world := maintain_leases renew (sv_world s)\<rparr>)"

end
