(* ===== verification/Startup.thy ===== *)
theory Startup
  imports Hivedb Device
begin

text \<open>
  The life of the process: the runtime directory (\<open>internal/hivedb/runtime.go\<close>), the
  connections and the opening of a hive (\<open>hivedb.go\<close>), and \<open>main.go\<close>.  The host is the
  database files, the entries of the runtime directory, the lock on it and the open
  connections; an operating-system call is a point where time passes and the event may
  report an error.
\<close>

record host =
  ho_env :: env
  ho_files :: "(bytes \<times> hive_file) list"
  ho_tmpfs :: bool
  ho_entries :: "bytes list"
  ho_lock :: "nat option"
  ho_conns :: "(bytes \<times> bytes) list"

type_synonym 'a os = "(host, 'a) step"

definition os_call :: "unit os" where
  "os_call h =
     (let (ev, e) = next_event (ho_env h)
      in (case ev_fault ev of Some errno \<Rightarrow> Inl (Err_Os errno) | None \<Rightarrow> Inr (), h\<lparr>ho_env := e\<rparr>))"

section \<open>The runtime directory\<close>

datatype runtime_protection = Posix_Only_Protection | Native_Protection

definition lock_name :: bytes where "lock_name = str ''.lock''"

text \<open>\<open>Fstatfs\<close>, then the descriptor: parsed, marshalled and applied by the platform library.\<close>

definition protect_runtime_directory :: "unit os" where
  "protect_runtime_directory =
     and_then os_call (\<lambda>_ h.
       if \<not> ho_tmpfs h then (Inl Err_Not_Tmpfs, h)
       else and_then os_call (\<lambda>_. and_then os_call (\<lambda>_. os_call)) h)"

definition acquire_runtime_lock :: "nat \<Rightarrow> unit os" where
  "acquire_runtime_lock me =
     and_then os_call (\<lambda>_ h.
       and_then os_call (\<lambda>_ h. if ho_lock h \<noteq> None then (Inl Err_Lock_Held, h) else (Inr (), h\<lparr>ho_lock := Some me\<rparr>))
         (h\<lparr>ho_entries := List.insert lock_name (ho_entries h)\<rparr>))"

definition release_runtime_lock :: "host \<Rightarrow> host" where
  "release_runtime_lock h = h\<lparr>ho_lock := None\<rparr>"

definition remove_all :: "bytes \<Rightarrow> unit os" where
  "remove_all entry = and_then os_call (\<lambda>_ h. (Inr (), h\<lparr>ho_entries := removeAll entry (ho_entries h)\<rparr>))"

fun remove_entries :: "bytes list \<Rightarrow> unit os" where
  "remove_entries [] = ok ()"
| "remove_entries (entry # entries) =
     (if entry = lock_name then remove_entries entries
      else and_then (remove_all entry) (\<lambda>_. remove_entries entries))"

definition cleanup_runtime_residue :: "unit os" where
  "cleanup_runtime_residue = and_then os_call (\<lambda>_ h. remove_entries (ho_entries h) h)"

definition open_runtime_store :: "nat \<Rightarrow> runtime_protection \<Rightarrow> unit os" where
  "open_runtime_store me protection =
     and_then os_call (\<lambda>_. and_then os_call (\<lambda>_.
       and_then (if protection = Native_Protection then protect_runtime_directory else ok ()) (\<lambda>_.
         and_then (acquire_runtime_lock me) (\<lambda>_ h.
           case cleanup_runtime_residue h of
             (Inl e, h) \<Rightarrow> (Inl e, release_runtime_lock h)
           | (Inr _, h) \<Rightarrow> (Inr (), h)))))"

section \<open>Connections\<close>

definition connection_open_timeout :: nat where "connection_open_timeout = 25000000000"

text \<open>A call of a connection in the context of its opening; a pragma's answer is a bit.\<close>

definition conn_call :: "nat \<Rightarrow> bool os" where
  "conn_call deadline h =
     (let (ev, e) = next_event (ho_env h); h = h\<lparr>ho_env := e\<rparr> in
      (if deadline \<le> env_now e then Inl Err_Ctx
       else case ev_fault ev of Some code \<Rightarrow> Inl (Err_Sqlite code) | None \<Rightarrow> Inr (ev_busy ev), h))"

definition enable_wal :: "nat \<Rightarrow> unit os" where
  "enable_wal deadline =
     and_then (conn_call deadline) (\<lambda>refused. if refused then fail Err_Journal_Mode else ok ())"

definition add_conn :: "bytes \<Rightarrow> bytes \<Rightarrow> host \<Rightarrow> host" where
  "add_conn path vol h = h\<lparr>ho_conns := (path, vol) # ho_conns h\<rparr>"

definition close_conn :: "bytes \<Rightarrow> bytes \<Rightarrow> host \<Rightarrow> host" where
  "close_conn path vol h = h\<lparr>ho_conns := remove1 (path, vol) (ho_conns h)\<rparr>"

text \<open>\<open>Connect\<close>: open, two pragmas, ATTACH, WAL on both schemas; any failure closes it.\<close>

definition connect :: "nat \<Rightarrow> bytes \<Rightarrow> bytes \<Rightarrow> unit os" where
  "connect deadline path vol h =
     (if deadline \<le> env_now (ho_env h) then (Inl Err_Ctx, h)
      else and_then os_call (\<lambda>_ h.
        case and_then (conn_call deadline) (\<lambda>_. and_then (conn_call deadline) (\<lambda>_.
               and_then (conn_call deadline) (\<lambda>_.
                 and_then (enable_wal deadline) (\<lambda>_. enable_wal deadline)))) (add_conn path vol h) of
          (Inl e, h) \<Rightarrow> (Inl e, close_conn path vol h)
        | (Inr _, h) \<Rightarrow> (Inr (), h)) h)"

definition open_conn :: "bytes \<Rightarrow> bytes \<Rightarrow> unit os" where
  "open_conn path vol h = connect (env_now (ho_env h) + connection_open_timeout) path vol h"

fun close_conns :: "nat \<Rightarrow> bytes \<Rightarrow> bytes \<Rightarrow> host \<Rightarrow> host" where
  "close_conns 0 path vol h = h"
| "close_conns (Suc n) path vol h = close_conns n path vol (close_conn path vol h)"

fun open_conns :: "nat \<Rightarrow> nat \<Rightarrow> bytes \<Rightarrow> bytes \<Rightarrow> unit os" where
  "open_conns 0 opened path vol h = (Inr (), h)"
| "open_conns (Suc n) opened path vol h =
     (case open_conn path vol h of
        (Inl e, h) \<Rightarrow> (Inl e, close_conns opened path vol h)
      | (Inr _, h) \<Rightarrow> open_conns n (Suc opened) path vol h)"

definition open_read_pool :: "int \<Rightarrow> bytes \<Rightarrow> bytes \<Rightarrow> unit os" where
  "open_read_pool num_cpu path vol = open_conns (nat (read_pool_size num_cpu)) 0 path vol"

section \<open>A hive\<close>

record open_hive =
  oh_name :: bytes
  oh_root_guid :: guid
  oh_path :: bytes
  oh_volatile :: bytes
  oh_readers :: nat

definition file_at :: "bytes \<Rightarrow> host \<Rightarrow> hive_file" where
  "file_at path h = (case map_of (ho_files h) path of None \<Rightarrow> empty_file | Some f \<Rightarrow> f)"

definition on_file :: "bytes \<Rightarrow> (env \<times> hive_file, 'a) step \<Rightarrow> 'a os" where
  "on_file path m h =
     (case m (ho_env h, file_at path h) of
        (res, e, f) \<Rightarrow> (res, h\<lparr>ho_env := e, ho_files := AList.update path f (ho_files h)\<rparr>))"

text \<open>
  \<open>OpenIn\<close>: the volatile directory, the parent directory, the write connection, the
  initialization and the read pool; the deferred removal of the directory after any error.
  \<open>names\<close> is the choice of \<open>MkdirTemp\<close>, \<open>fresh\<close> the GUID of \<open>crypto/rand\<close>.
\<close>

definition open_hive_files :: "int \<Rightarrow> guid \<Rightarrow> hive_config \<Rightarrow> bytes \<Rightarrow> open_hive os" where
  "open_hive_files num_cpu fresh cfg vol =
     and_then os_call (\<lambda>_. and_then (open_conn (hc_path cfg) vol) (\<lambda>_ h.
       case on_file (hc_path cfg) (initialize_hive (hc_name cfg) fresh) h of
         (Inl e, h) \<Rightarrow> (Inl e, close_conn (hc_path cfg) vol h)
       | (Inr root, h) \<Rightarrow>
           (case open_read_pool num_cpu (hc_path cfg) vol h of
              (Inl e, h) \<Rightarrow> (Inl e, close_conn (hc_path cfg) vol h)
            | (Inr _, h) \<Rightarrow>
                (Inr \<lparr>oh_name = hc_name cfg, oh_root_guid = root, oh_path = hc_path cfg, oh_volatile = vol,
                      oh_readers = nat (read_pool_size num_cpu)\<rparr>, h))))"

definition open_in :: "int \<Rightarrow> (bytes list \<Rightarrow> bytes) \<Rightarrow> guid \<Rightarrow> hive_config \<Rightarrow> open_hive os" where
  "open_in num_cpu names fresh cfg =
     and_then os_call (\<lambda>_ h.
       let vol = names (ho_entries h) in
       case open_hive_files num_cpu fresh cfg vol (h\<lparr>ho_entries := vol # ho_entries h\<rparr>) of
         (Inl e, h) \<Rightarrow> (Inl e, snd (remove_all vol h))
       | (Inr hive, h) \<Rightarrow> (Inr hive, h))"

definition close_hive :: "open_hive \<Rightarrow> host \<Rightarrow> host" where
  "close_hive hive h =
     (let h = close_conns (oh_readers hive) (oh_path hive) (oh_volatile hive) h;
          h = close_conn (oh_path hive) (oh_volatile hive) h
      in snd (remove_all (oh_volatile hive) h))"

section \<open>Startup\<close>

text \<open>\<open>openHives\<close> returns every opened hive even on failure.\<close>

fun open_hives ::
  "int \<Rightarrow> (bytes list \<Rightarrow> bytes) \<Rightarrow> (nat \<Rightarrow> guid) \<Rightarrow> hive_config list \<Rightarrow>
   open_hive list \<Rightarrow> hive_registration list \<Rightarrow> u64 \<Rightarrow> host \<Rightarrow>
   (open_hive list \<times> (error + hive_registration list \<times> u64)) \<times> host" where
  "open_hives num_cpu names rand [] hives regs max_seq h = ((hives, Inr (regs, max_seq)), h)"
| "open_hives num_cpu names rand (cfg # cfgs) hives regs max_seq h =
     (case open_in num_cpu names (rand (length hives)) cfg h of
        (Inl e, h) \<Rightarrow> ((hives, Inl e), h)
      | (Inr hive, h) \<Rightarrow>
          (let hives = hives @ [hive] in
           case on_file (oh_path hive) max_sequence h of
             (Inl e, h) \<Rightarrow> ((hives, Inl e), h)
           | (Inr seq, h) \<Rightarrow>
               open_hives num_cpu names rand cfgs hives
                 (regs @ [\<lparr>hr_name = oh_name hive, hr_root_guid = oh_root_guid hive\<rparr>])
                 (if seq > max_seq then seq else max_seq) h))"

definition close_hives :: "open_hive list \<Rightarrow> host \<Rightarrow> host" where
  "close_hives hives h = foldl (\<lambda>h hive. close_hive hive h) h hives"

datatype startup_error = Bad_Arguments config_error | Startup_Failed error

text \<open>The handlers see each hive by its name, its root GUID and its two databases.\<close>

definition hive_of :: "host \<Rightarrow> open_hive \<Rightarrow> hive" where
  "hive_of h hive =
     \<lparr>hv_name = oh_name hive, hv_root_guid = oh_root_guid hive, hv_db = hf_db (file_at (oh_path hive) h)\<rparr>"

record running =
  dm_hives :: "open_hive list"
  dm_world :: world
  dm_session :: u64
  dm_registration :: "bytes \<times> bytes"

record kernel =
  kn_negotiate :: "negotiate_args ioctl"
  kn_name_addr :: "nat \<Rightarrow> u64"
  kn_entries_addr :: u64

text \<open>The device: open, negotiate, register.\<close>

definition attach_device :: "kernel \<Rightarrow> hive_registration list \<Rightarrow> u64 \<Rightarrow> (u64 \<times> bytes \<times> bytes) os" where
  "attach_device k regs max_seq =
     and_then os_call (\<lambda>_.
       case negotiate (kn_negotiate k) of
         Inl e \<Rightarrow> fail e
       | Inr ses \<Rightarrow>
           (case register_hives (kn_name_addr k) (kn_entries_addr k) regs max_seq of
              Inl e \<Rightarrow> fail e
            | Inr (args, entries) \<Rightarrow> and_then os_call (\<lambda>_. ok (ses, args, entries))))"

definition start_daemon ::
  "kernel \<Rightarrow> int \<Rightarrow> (bytes list \<Rightarrow> bytes) \<Rightarrow> (nat \<Rightarrow> guid) \<Rightarrow> nat \<Rightarrow> bytes list \<Rightarrow> host \<Rightarrow>
   (startup_error + running) \<times> host" where
  "start_daemon k num_cpu names rand me args h =
     (case parse_config args of
        Inl e \<Rightarrow> (Inl (Bad_Arguments e), h)
      | Inr configs \<Rightarrow>
          (case open_runtime_store me Native_Protection h of
             (Inl e, h) \<Rightarrow> (Inl (Startup_Failed e), h)
           | (Inr _, h) \<Rightarrow>
               (case open_hives num_cpu names rand configs [] [] 0 h of
                  ((hives, Inl e), h) \<Rightarrow> (Inl (Startup_Failed e), release_runtime_lock (close_hives hives h))
                | ((hives, Inr (regs, max_seq)), h) \<Rightarrow>
                    (case attach_device k regs max_seq h of
                       (Inl e, h) \<Rightarrow> (Inl (Startup_Failed e), release_runtime_lock (close_hives hives h))
                     | (Inr (ses, registration), h) \<Rightarrow>
                         (Inr \<lparr>dm_hives = hives, dm_world = new_handler (map (hive_of h) hives) (ho_env h),
                               dm_session = ses, dm_registration = registration\<rparr>, h)))))"

section \<open>Shutdown\<close>

text \<open>
  The deferred calls of \<open>run\<close>, the last one first: the handlers are closed, which aborts the
  transactions, then every hive, then the lock is released.  Nothing is written: what was
  committed is in the files since its COMMIT.
\<close>

definition stop_daemon :: "running \<Rightarrow> world \<Rightarrow> host \<Rightarrow> world \<times> host" where
  "stop_daemon dm w h =
     (let w = close_txns w
      in (w, release_runtime_lock (close_hives (dm_hives dm) (h\<lparr>ho_env := w_env w\<rparr>))))"

end
