(* ===== verification/Acts.thy ===== *)
theory Acts
  imports Txn_Handlers
begin

text \<open>
  A small logic of actions, shared by the proofs about handlers.  \<open>holds P m Q E\<close>: from a view
  that satisfies \<open>P\<close>, whatever the environment does, \<open>m\<close> ends with a value and view in \<open>Q\<close> or
  an error and view in \<open>E\<close>.  \<open>calm\<close> environments have no engine errors and enough time.
\<close>

definition holds :: "('d \<Rightarrow> bool) \<Rightarrow> (env \<times> 'd \<Rightarrow> (error + 'a) \<times> env \<times> 'd) \<Rightarrow> ('a \<Rightarrow> 'd \<Rightarrow> bool) \<Rightarrow> (error \<Rightarrow> 'd \<Rightarrow> bool) \<Rightarrow> bool" where
  "holds P m Q E \<longleftrightarrow>
     (\<forall>e d. P d \<longrightarrow> (case m (e, d) of (Inl err, e', d') \<Rightarrow> E err d' | (Inr x, e', d') \<Rightarrow> Q x d'))"

lemma holdsD:
  "holds P m Q E \<Longrightarrow> P d \<Longrightarrow> (case m (e, d) of (Inl err, e', d') \<Rightarrow> E err d' | (Inr x, e', d') \<Rightarrow> Q x d')"
  by (simp add: holds_def)

named_theorems act_rules \<open>rules that decompose an action\<close>

lemma holds_ok [act_rules]: "(\<And>d. P d \<Longrightarrow> Q x d) \<Longrightarrow> holds P (ok x) Q E"
  by (simp add: holds_def ok_def)

lemma holds_fail [act_rules]: "(\<And>d. P d \<Longrightarrow> E e d) \<Longrightarrow> holds P (fail e) Q E"
  by (simp add: holds_def fail_def)

lemma holds_and_then:
  assumes "holds P m R E" and "\<And>x. holds (R x) (k x) Q E"
  shows "holds P (and_then m k) Q E"
  using assms unfolding holds_def and_then_def by (fastforce split: sum.splits prod.splits)

lemma holds_on_error:
  assumes "holds P m R F" and "\<And>x. holds (R x) (k x) Q E" and "\<And>e. holds (F e) (h e) Q E"
  shows "holds P (on_error m h k) Q E"
  using assms unfolding holds_def on_error_def by (fastforce split: sum.splits prod.splits)

lemma holds_conseq:
  "holds P m Q E \<Longrightarrow> (\<And>d. P' d \<Longrightarrow> P d) \<Longrightarrow> (\<And>x d. Q x d \<Longrightarrow> Q' x d) \<Longrightarrow> (\<And>e d. E e d \<Longrightarrow> E' e d) \<Longrightarrow> holds P' m Q' E'"
  unfolding holds_def by (fastforce split: sum.splits prod.splits)

lemma holds_if [act_rules]: "(c \<Longrightarrow> holds P m Q E) \<Longrightarrow> (\<not> c \<Longrightarrow> holds P m' Q E) \<Longrightarrow> holds P (if c then m else m') Q E"
  by simp

lemma holds_case_prod [act_rules]: "(\<And>x y. p = (x, y) \<Longrightarrow> holds P (f x y) Q E) \<Longrightarrow> holds P (case p of (x, y) \<Rightarrow> f x y) Q E"
  by (cases p) simp

lemma holds_impossible: "(\<And>d. \<not> P d) \<Longrightarrow> holds P m Q E"
  by (simp add: holds_def)

text \<open>The errors a statement can report by itself.\<close>

definition call_error :: "error \<Rightarrow> bool" where
  "call_error e \<longleftrightarrow> e = Err_Ctx \<or> (\<exists>code. e = Err_Sqlite code)"

lemma call_error_simps [simp]:
  "call_error Err_Ctx" "call_error (Err_Sqlite c)" "\<not> call_error Err_No_Rows" "\<not> call_error Err_Unique"
  "\<not> call_error Err_Key_Not_Found"
  by (simp_all add: call_error_def)

lemma call_error_distinct [simp]:
  "call_error e \<Longrightarrow> e \<noteq> Err_No_Rows" "call_error e \<Longrightarrow> e \<noteq> Err_Unique" "call_error e \<Longrightarrow> e \<noteq> Err_Key_Not_Found"
  by auto

lemma holds_statement:
  assumes "\<And>ev d res d'. P d \<Longrightarrow> f ev d = (res, d') \<Longrightarrow> (case res of Inl err \<Rightarrow> E err d' | Inr x \<Rightarrow> Q x d')"
    and "\<And>e d. P d \<Longrightarrow> call_error e \<Longrightarrow> E e d"
  shows "holds P (statement dl f) Q E"
  unfolding holds_def
proof (intro allI impI)
  fix e and d assume P: "P d"
  obtain ev e1 where ev: "next_event e = (ev, e1)" by (cases "next_event e")
  obtain res d' where f: "f ev d = (res, d')" by (cases "f ev d")
  from assms(1) [OF P f] assms(2) [OF P] show "case statement dl f (e, d) of (Inl err, e', d') \<Rightarrow> E err d' | (Inr x, e', d') \<Rightarrow> Q x d'"
    by (cases res; cases "ev_fault ev") (simp_all add: statement_def ev f)
qed

lemma holds_sql_exec:
  assumes "\<And>d d'. P d \<Longrightarrow> f d = Some d' \<Longrightarrow> Q () d'"
    and "\<And>d. P d \<Longrightarrow> f d = None \<Longrightarrow> E Err_Unique d"
    and "\<And>e d. P d \<Longrightarrow> call_error e \<Longrightarrow> E e d"
  shows "holds P (sql_exec dl f) Q E"
  unfolding sql_exec_def by (rule holds_statement) (use assms in \<open>auto split: option.splits\<close>)

lemma holds_sql_count:
  assumes "\<And>d. P d \<Longrightarrow> Q (n d) (f d)" and "\<And>e d. P d \<Longrightarrow> call_error e \<Longrightarrow> E e d"
  shows "holds P (sql_count dl n f) Q E"
  unfolding sql_count_def by (rule holds_statement) (use assms in auto)

lemma holds_sql_query:
  assumes "\<And>d rows. P d \<Longrightarrow> mset rows = mset (q d) \<Longrightarrow> Q rows d" and "\<And>e d. P d \<Longrightarrow> call_error e \<Longrightarrow> E e d"
  shows "holds P (sql_query dl q) Q E"
  unfolding sql_query_def by (rule holds_statement) (use assms in auto)

lemma arrange_Nil_iff [simp]: "arrange p xs = [] \<longleftrightarrow> xs = []"
  by (metis arrange_Nil length_0_conv length_arrange)

lemma holds_sql_query_row:
  assumes "\<And>d r. P d \<Longrightarrow> r \<in> set (q d) \<Longrightarrow> Q r d"
    and "\<And>d. P d \<Longrightarrow> q d = [] \<Longrightarrow> E Err_No_Rows d"
    and "\<And>e d. P d \<Longrightarrow> call_error e \<Longrightarrow> E e d"
  shows "holds P (sql_query_row dl q) Q E"
  unfolding sql_query_row_def
proof (rule holds_statement)
  fix ev d and res :: "error + 'a" and d'
  assume P: "P d" and r: "(case arrange (ev_order ev) (q d) of [] \<Rightarrow> Inl Err_No_Rows | r # _ \<Rightarrow> Inr r, d) = (res, d')"
  show "case res of Inl err \<Rightarrow> E err d' | Inr x \<Rightarrow> Q x d'"
  proof (cases "arrange (ev_order ev) (q d)")
    case Nil
    with P r assms(2) show ?thesis by auto
  next
    case (Cons x xs)
    then have "x \<in> set (q d)" using set_arrange [of "ev_order ev" "q d"] by auto
    with Cons P r assms(1) show ?thesis by auto
  qed
qed (use assms(3) in auto)


end
