(* ===== verification/Db_Inv.thy ===== *)
theory Db_Inv
  imports Acts Rsi_Codecs
begin

text \<open>
  The integrity of a hive's database and what each handler action may do to it.  \<open>db_ok\<close> is
  the invariant: primary keys in each schema, GUIDs and entry triples unique across the two
  schemas (which no primary key can say), folded columns that are the fold of the name,
  targets that match their type.  \<open>mutation\<close> collects the effects of the writing actions; the
  lemmas show each keeps the invariant from every outcome, errors included.
\<close>

section \<open>The invariant\<close>

definition key_row_ok :: "store \<Rightarrow> key_row \<Rightarrow> bool" where
  "key_row_ok st r \<longleftrightarrow>
     length (kr_guid r) = 16 \<and> kr_name_folded r = fold_string (kr_name r) \<and> (kr_volatile r \<noteq> 0 \<longleftrightarrow> st = Volatile)"

definition path_row_ok :: "path_row \<Rightarrow> bool" where
  "path_row_ok r \<longleftrightarrow>
     pr_child_name_folded r = fold_string (pr_child_name r) \<and>
     (case pr_target_guid r of
        Some g \<Rightarrow> pr_target_type r = target_guid_type \<and> length g = 16
      | None \<Rightarrow> pr_target_type r = target_hidden_type)"

definition value_row_ok :: "value_row \<Rightarrow> bool" where
  "value_row_ok r \<longleftrightarrow> vr_name_folded r = fold_string (vr_name r)"

definition table_ok :: "('r \<Rightarrow> 'k) \<Rightarrow> ('r \<Rightarrow> bool) \<Rightarrow> 'r list \<Rightarrow> bool" where
  "table_ok key P t \<longleftrightarrow> distinct (map key t) \<and> list_all P t"

definition apart :: "('r \<Rightarrow> 'k) \<Rightarrow> 'r list \<Rightarrow> 'r list \<Rightarrow> bool" where
  "apart key t u \<longleftrightarrow> list_all (\<lambda>r. key r \<notin> set (map key u)) t"

definition keys_ok :: "db \<Rightarrow> bool" where
  "keys_ok d \<longleftrightarrow>
     table_ok kr_guid (key_row_ok Main) (s_keys (db_main d)) \<and>
     table_ok kr_guid (key_row_ok Volatile) (s_keys (db_volatile d)) \<and>
     apart kr_guid (s_keys (db_main d)) (s_keys (db_volatile d))"

definition paths_ok :: "db \<Rightarrow> bool" where
  "paths_ok d \<longleftrightarrow>
     table_ok path_pk path_row_ok (s_path_entries (db_main d)) \<and>
     table_ok path_pk path_row_ok (s_path_entries (db_volatile d)) \<and>
     apart path_pk (s_path_entries (db_main d)) (s_path_entries (db_volatile d))"

definition values_ok :: "db \<Rightarrow> bool" where
  "values_ok d \<longleftrightarrow>
     table_ok value_pk value_row_ok (s_values (db_main d)) \<and>
     table_ok value_pk value_row_ok (s_values (db_volatile d))"

definition blankets_ok :: "db \<Rightarrow> bool" where
  "blankets_ok d \<longleftrightarrow>
     table_ok blanket_pk (\<lambda>_. True) (s_blankets (db_main d)) \<and>
     table_ok blanket_pk (\<lambda>_. True) (s_blankets (db_volatile d))"

definition db_ok :: "db \<Rightarrow> bool" where
  "db_ok d \<longleftrightarrow> keys_ok d \<and> paths_ok d \<and> values_ok d \<and> blankets_ok d"

lemma db_ok_empty [simp]: "db_ok empty_db"
  by (simp add: db_ok_def keys_ok_def paths_ok_def values_ok_def blankets_ok_def table_ok_def apart_def
      empty_db_def empty_schema_def)

lemma apart_iff: "apart key t u \<longleftrightarrow> key ` set t \<inter> key ` set u = {}"
  by (auto simp: apart_def list_all_iff)

lemma apart_sym: "apart key t u \<longleftrightarrow> apart key u t"
  unfolding apart_iff by blast

text \<open>Statements on one table.\<close>

lemma table_ok_insert: "table_ok key P t \<Longrightarrow> key r \<notin> key ` set t \<Longrightarrow> P r \<Longrightarrow> table_ok key P (t @ [r])"
  by (auto simp: table_ok_def)

lemma table_ok_delete: "table_ok key P t \<Longrightarrow> table_ok key P (delete_where Q t)"
  by (auto simp: table_ok_def delete_where_def distinct_map_filter_key list_all_iff)

lemma table_ok_replace: "table_ok key P t \<Longrightarrow> P r \<Longrightarrow> table_ok key P (replace_row key r t)"
  by (auto simp: table_ok_def replace_row_def distinct_map_filter_key list_all_iff)

lemma table_ok_update:
  "table_ok key P t \<Longrightarrow> (\<And>r. key (f r) = key r) \<Longrightarrow> (\<And>r. P r \<Longrightarrow> P (f r)) \<Longrightarrow> table_ok key P (update_where Q f t)"
  unfolding table_ok_def update_where_def by (auto simp: list_all_iff comp_def if_distrib cong: if_cong)

lemma apart_delete: "apart key t u \<Longrightarrow> apart key (delete_where P t) u"
  by (auto simp: apart_iff delete_where_def)

lemma apart_insert: "apart key t u \<Longrightarrow> key r \<notin> key ` set u \<Longrightarrow> apart key (t @ [r]) u"
  by (auto simp: apart_iff)

lemma apart_replace: "apart key t u \<Longrightarrow> key r \<notin> key ` set u \<Longrightarrow> apart key (replace_row key r t) u"
  by (auto simp: apart_iff replace_row_def)

lemma apart_update: "apart key t u \<Longrightarrow> (\<And>r. key (f r) = key r) \<Longrightarrow> apart key (update_where P f t) u"
  by (auto simp: apart_iff update_where_def)

lemmas table_oks = table_ok_insert table_ok_delete table_ok_replace table_ok_update
lemmas aparts = apart_delete apart_insert apart_replace apart_update

lemma db_ok_cases:
  "db_ok d \<longleftrightarrow>
     table_ok kr_guid (key_row_ok st) (s_keys (schema_of st d)) \<and>
     table_ok kr_guid (key_row_ok (other_store st)) (s_keys (schema_of (other_store st) d)) \<and>
     apart kr_guid (s_keys (schema_of st d)) (s_keys (schema_of (other_store st) d)) \<and>
     table_ok path_pk path_row_ok (s_path_entries (schema_of st d)) \<and>
     table_ok path_pk path_row_ok (s_path_entries (schema_of (other_store st) d)) \<and>
     apart path_pk (s_path_entries (schema_of st d)) (s_path_entries (schema_of (other_store st) d)) \<and>
     table_ok value_pk value_row_ok (s_values (schema_of st d)) \<and>
     table_ok value_pk value_row_ok (s_values (schema_of (other_store st) d)) \<and>
     table_ok blanket_pk (\<lambda>_. True) (s_blankets (schema_of st d)) \<and>
     table_ok blanket_pk (\<lambda>_. True) (s_blankets (schema_of (other_store st) d))"
  by (cases st) (auto simp: db_ok_def keys_ok_def paths_ok_def values_ok_def blankets_ok_def apart_sym)

text \<open>Statements on a database.\<close>

lemma db_ok_insert_key:
  "db_ok d \<Longrightarrow> key_row_ok st r \<Longrightarrow> kr_guid r \<notin> kr_guid ` set (s_keys (schema_of st d)) \<Longrightarrow>
   kr_guid r \<notin> kr_guid ` set (s_keys (schema_of (other_store st) d)) \<Longrightarrow>
   db_ok (map_schema st (\<lambda>s. s\<lparr>s_keys := s_keys (schema_of st d) @ [r]\<rparr>) d)"
  unfolding db_ok_cases [of _ st] by (simp add: sql_simps table_ok_insert apart_insert)

lemma db_ok_insert_path:
  "db_ok d \<Longrightarrow> path_row_ok r \<Longrightarrow> path_pk r \<notin> path_pk ` set (s_path_entries (schema_of st d)) \<Longrightarrow>
   path_pk r \<notin> path_pk ` set (s_path_entries (schema_of (other_store st) d)) \<Longrightarrow>
   db_ok (map_schema st (\<lambda>s. s\<lparr>s_path_entries := s_path_entries (schema_of st d) @ [r]\<rparr>) d)"
  unfolding db_ok_cases [of _ st] by (simp add: sql_simps table_ok_insert apart_insert)

lemma db_ok_delete [inv_intros]:
  "db_ok d \<Longrightarrow> db_ok (map_schema st (\<lambda>s. s\<lparr>s_keys := delete_where P (s_keys s)\<rparr>) d)"
  "db_ok d \<Longrightarrow> db_ok (map_schema st (\<lambda>s. s\<lparr>s_path_entries := delete_where Q (s_path_entries s)\<rparr>) d)"
  "db_ok d \<Longrightarrow> db_ok (map_schema st (\<lambda>s. s\<lparr>s_values := delete_where V (s_values s)\<rparr>) d)"
  "db_ok d \<Longrightarrow> db_ok (map_schema st (\<lambda>s. s\<lparr>s_blankets := delete_where B (s_blankets s)\<rparr>) d)"
  unfolding db_ok_cases [of _ st] by (simp_all add: sql_simps table_ok_delete apart_delete)

lemma db_ok_replace_path:
  "db_ok d \<Longrightarrow> path_row_ok r \<Longrightarrow> path_pk r \<notin> path_pk ` set (s_path_entries (schema_of (other_store st) d)) \<Longrightarrow>
   db_ok (replace_entry st r d)"
  unfolding db_ok_cases [of _ st] replace_entry_def by (simp add: sql_simps table_ok_replace apart_replace)

lemma db_ok_replace_value [inv_intros]: "db_ok d \<Longrightarrow> value_row_ok r \<Longrightarrow> db_ok (replace_value st r d)"
  unfolding db_ok_cases [of _ st] replace_value_def by (simp add: sql_simps table_ok_replace)

lemma db_ok_set_blanket [inv_intros]: "db_ok d \<Longrightarrow> db_ok (set_blanket st req d)"
  unfolding db_ok_cases [of _ st] set_blanket_def by (simp add: sql_simps table_ok_replace table_ok_delete)

lemma db_ok_update_key:
  "db_ok d \<Longrightarrow> (\<And>r. kr_guid (f r) = kr_guid r) \<Longrightarrow> (\<And>r. kr_name (f r) = kr_name r) \<Longrightarrow>
   (\<And>r. kr_name_folded (f r) = kr_name_folded r) \<Longrightarrow> (\<And>r. kr_volatile (f r) = kr_volatile r) \<Longrightarrow>
   db_ok (map_schema st (\<lambda>s. s\<lparr>s_keys := update_where P f (s_keys s)\<rparr>) d)"
  unfolding db_ok_cases [of _ st]
  by (simp add: sql_simps apart_update) (intro table_ok_update; simp add: key_row_ok_def)

section \<open>Every writing action keeps it\<close>

definition has_key :: "store \<Rightarrow> guid \<Rightarrow> db \<Rightarrow> bool" where
  "has_key st g d \<longleftrightarrow> g \<in> kr_guid ` set (s_keys (schema_of st d))"

definition has_entry :: "store \<Rightarrow> guid \<Rightarrow> bytes \<Rightarrow> bytes \<Rightarrow> db \<Rightarrow> bool" where
  "has_entry st g folded layer d \<longleftrightarrow> (g, folded, layer) \<in> path_pk ` set (s_path_entries (schema_of st d))"

lemma all_store: "(\<forall>st. Q st) \<longleftrightarrow> Q Main \<and> Q Volatile"
  by (metis store.exhaust)

lemma keys_with_guid_empty: "keys_with_guid st g d = [] \<longleftrightarrow> \<not> has_key st g d"
  by (auto simp: keys_with_guid_def filter_empty_conv has_key_def)

lemma keys_with_guid_member: "r \<in> set (keys_with_guid st g d) \<Longrightarrow> has_key st g d"
  by (auto simp: keys_with_guid_def has_key_def)

lemma path_rows_empty:
  "filter (path_key g folded layer) (s_path_entries (schema_of st d)) = [] \<longleftrightarrow> \<not> has_entry st g folded layer d"
  by (auto simp: filter_empty_conv path_key_def path_pk_def has_entry_def)

lemma path_rows_member:
  "r \<in> set (filter (path_key g folded layer) (s_path_entries (schema_of st d))) \<Longrightarrow> has_entry st g folded layer d"
  by (auto simp: path_key_def path_pk_def has_entry_def)

lemma holds_key_probe:
  "holds P (sql_query_row dl (keys_with_guid st g)) (\<lambda>_ d. P d \<and> has_key st g d)
     (\<lambda>e d. P d \<and> (call_error e \<or> e = Err_No_Rows \<and> \<not> has_key st g d))"
  by (rule holds_sql_query_row) (auto simp: keys_with_guid_empty dest: keys_with_guid_member)

lemma holds_is_volatile:
  "holds P (is_volatile_q dl g) (\<lambda>st d. P d \<and> has_key st g d)
     (\<lambda>e d. P d \<and> (call_error e \<or> e = Err_Key_Not_Found \<and> (\<forall>st. \<not> has_key st g d)))"
  (is "holds P _ ?Q ?E")
  unfolding is_volatile_q_def
proof (rule holds_on_error [OF holds_key_probe])
  show "holds (\<lambda>d. P d \<and> has_key Main g d) (ok Main) ?Q ?E" by (rule holds_ok) simp
next
  fix e
  have inner: "holds (\<lambda>d. P d \<and> \<not> has_key Main g d)
      (on_error (sql_query_row dl (keys_with_guid Volatile g))
         (\<lambda>e. if e \<noteq> Err_No_Rows then fail e else fail Err_Key_Not_Found) (\<lambda>_. ok Volatile)) ?Q ?E"
  proof (rule holds_on_error [OF holds_key_probe])
    show "holds (\<lambda>d. (P d \<and> \<not> has_key Main g d) \<and> has_key Volatile g d) (ok Volatile) ?Q ?E"
      by (rule holds_ok) simp
    show "holds (\<lambda>d. (P d \<and> \<not> has_key Main g d) \<and> (call_error f \<or> f = Err_No_Rows \<and> \<not> has_key Volatile g d))
        (if f \<noteq> Err_No_Rows then fail f else fail Err_Key_Not_Found) ?Q ?E" for f
      by (rule holds_if; rule holds_fail) (auto simp: all_store)
  qed
  show "holds (\<lambda>d. P d \<and> (call_error e \<or> e = Err_No_Rows \<and> \<not> has_key Main g d))
      (if e \<noteq> Err_No_Rows then fail e
       else on_error (sql_query_row dl (keys_with_guid Volatile g))
              (\<lambda>e. if e \<noteq> Err_No_Rows then fail e else fail Err_Key_Not_Found) (\<lambda>_. ok Volatile)) ?Q ?E"
  proof (rule holds_if)
    show "holds (\<lambda>d. P d \<and> (call_error e \<or> e = Err_No_Rows \<and> \<not> has_key Main g d)) (fail e) ?Q ?E" if "e \<noteq> Err_No_Rows"
      using that by (intro holds_fail) auto
    show "holds (\<lambda>d. P d \<and> (call_error e \<or> e = Err_No_Rows \<and> \<not> has_key Main g d))
      (on_error (sql_query_row dl (keys_with_guid Volatile g))
         (\<lambda>e. if e \<noteq> Err_No_Rows then fail e else fail Err_Key_Not_Found) (\<lambda>_. ok Volatile)) ?Q ?E" if "\<not> e \<noteq> Err_No_Rows"
      using that by (intro holds_conseq [OF inner]) auto
  qed
qed

lemma holds_probe:
  assumes "\<And>d. q d = [] \<longleftrightarrow> \<not> R d"
  shows "holds P (on_error (sql_query_row dl q) (\<lambda>e. if e \<noteq> Err_No_Rows then fail e else ok False) (\<lambda>_. ok True))
     (\<lambda>b d. P d \<and> b = R d) (\<lambda>e d. P d \<and> call_error e)"
proof (rule holds_on_error)
  show "holds P (sql_query_row dl q) (\<lambda>_ d. P d \<and> R d) (\<lambda>e d. P d \<and> (call_error e \<or> e = Err_No_Rows \<and> \<not> R d))"
    by (rule holds_sql_query_row) (use assms in \<open>auto, metis empty_iff list.set(1)\<close>)
  show "holds (\<lambda>d. P d \<and> R d) (ok True) (\<lambda>b d. P d \<and> b = R d) (\<lambda>e d. P d \<and> call_error e)"
    by (rule holds_ok) simp
  show "holds (\<lambda>d. P d \<and> (call_error e \<or> e = Err_No_Rows \<and> \<not> R d)) (if e \<noteq> Err_No_Rows then fail e else ok False)
      (\<lambda>b d. P d \<and> b = R d) (\<lambda>e d. P d \<and> call_error e)" for e
    by (rule holds_if; (rule holds_fail | rule holds_ok)) auto
qed

lemma holds_key_exists:
  "holds P (key_exists_in_q dl st g) (\<lambda>b d. P d \<and> b = has_key st g d) (\<lambda>e d. P d \<and> call_error e)"
  unfolding key_exists_in_q_def by (rule holds_probe) (rule keys_with_guid_empty)

lemma holds_entry_exists:
  "holds P (path_entry_exists_in_q dl st g folded layer) (\<lambda>b d. P d \<and> b = has_entry st g folded layer d)
     (\<lambda>e d. P d \<and> call_error e)"
  unfolding path_entry_exists_in_q_def by (rule holds_probe) (rule path_rows_empty)

section \<open>The outcome of each writing action\<close>

definition storage_failure :: "u32 \<Rightarrow> bool" where
  "storage_failure status \<longleftrightarrow> status = status_txn_busy \<or> status = status_storage_error"

lemma storage_failure_status [simp]: "storage_failure (storage_status e)"
  by (simp add: storage_failure_def storage_status_def)

definition created_entry :: "create_entry_request \<Rightarrow> path_row" where
  "created_entry req =
     \<lparr>pr_parent_guid = cer_parent_guid req, pr_child_name = cer_child_name req,
      pr_child_name_folded = fold_string (cer_child_name req), pr_layer = cer_layer_name req,
      pr_target_type = target_guid_type, pr_target_guid = Some (cer_child_guid req), pr_sequence = cer_sequence req\<rparr>"

definition add_entry :: "store \<Rightarrow> path_row \<Rightarrow> db \<Rightarrow> db" where
  "add_entry st r d = map_schema st (\<lambda>s. s\<lparr>s_path_entries := s_path_entries (schema_of st d) @ [r]\<rparr>) d"

definition entry_taken :: "create_entry_request \<Rightarrow> db \<Rightarrow> bool" where
  "entry_taken req d \<longleftrightarrow>
     (\<exists>st. has_entry st (cer_parent_guid req) (fold_string (cer_child_name req)) (cer_layer_name req) d)"

lemma entry_taken_iff:
  "entry_taken req d \<longleftrightarrow>
     has_entry st (cer_parent_guid req) (fold_string (cer_child_name req)) (cer_layer_name req) d \<or>
     has_entry (other_store st) (cer_parent_guid req) (fold_string (cer_child_name req)) (cer_layer_name req) d"
  unfolding entry_taken_def by (cases st) (metis other_store.simps store.exhaust)+

definition create_entry_outcome :: "create_entry_request \<Rightarrow> db \<Rightarrow> store \<Rightarrow> u32 \<Rightarrow> db \<Rightarrow> bool" where
  "create_entry_outcome req d0 st status d \<longleftrightarrow>
     status = status_ok \<and> \<not> entry_taken req d0 \<and> d = add_entry st (created_entry req) d0 \<or>
     status = status_already_exists \<and> entry_taken req d0 \<and> d = d0 \<or>
     storage_failure status \<and> d = d0"

lemma holds_create_entry_in:
  "holds (\<lambda>d. d = d0) (create_entry_in dl req st) (create_entry_outcome req d0 st) (\<lambda>_ _. False)"
  (is "holds _ _ ?Q ?E")
proof -
  let ?k = "(cer_parent_guid req, fold_string (cer_child_name req), cer_layer_name req)"
  have pk: "path_pk (created_entry req) = ?k" by (simp add: created_entry_def path_pk_def)
  have taken: "entry_taken req d0 \<longleftrightarrow>
      ?k \<in> path_pk ` set (s_path_entries (schema_of st d0)) \<or>
      has_entry (other_store st) (cer_parent_guid req) (fold_string (cer_child_name req)) (cer_layer_name req) d0"
    by (subst entry_taken_iff [of _ _ st]) (simp add: has_entry_def)
  have ins: "holds (\<lambda>d. d = d0 \<and> \<not> has_entry (other_store st) (cer_parent_guid req) (fold_string (cer_child_name req)) (cer_layer_name req) d)
      (on_error (insert_entry dl st (created_entry req))
         (\<lambda>e. ok (if e = Err_Unique then status_already_exists else storage_status e)) (\<lambda>_. ok status_ok)) ?Q ?E"
  proof (rule holds_on_error [where R = "\<lambda>_ d. ?Q status_ok d" and
        F = "\<lambda>e d. d = d0 \<and> (e = Err_Unique \<and> entry_taken req d0 \<or> call_error e)"])
    show "holds (\<lambda>d. d = d0 \<and> \<not> has_entry (other_store st) (cer_parent_guid req) (fold_string (cer_child_name req)) (cer_layer_name req) d)
        (insert_entry dl st (created_entry req)) (\<lambda>_ d. ?Q status_ok d)
        (\<lambda>e d. d = d0 \<and> (e = Err_Unique \<and> entry_taken req d0 \<or> call_error e))"
      unfolding insert_entry_def
      by (rule holds_sql_exec)
        (auto simp: sql_simps pk taken create_entry_outcome_def add_entry_def split: option.splits)
  qed (rule holds_ok, auto simp: create_entry_outcome_def)+
  show ?thesis
    unfolding create_entry_in_def Let_def
  proof (rule holds_on_error [OF holds_entry_exists])
    show "holds (\<lambda>d. d = d0 \<and> call_error e) (ok (storage_status e)) ?Q ?E" for e
      by (rule holds_ok) (simp add: create_entry_outcome_def)
    show "holds (\<lambda>d. d = d0 \<and> present = has_entry (other_store st) (cer_parent_guid req) (fold_string (cer_child_name req)) (cer_layer_name req) d)
      (if present then ok status_already_exists
       else on_error (insert_entry dl st
           \<lparr>pr_parent_guid = cer_parent_guid req, pr_child_name = cer_child_name req,
            pr_child_name_folded = fold_string (cer_child_name req), pr_layer = cer_layer_name req,
            pr_target_type = target_guid_type, pr_target_guid = Some (cer_child_guid req), pr_sequence = cer_sequence req\<rparr>)
         (\<lambda>e. ok (if e = Err_Unique then status_already_exists else storage_status e)) (\<lambda>_. ok status_ok)) ?Q ?E" for present
      by (rule holds_if, rule holds_ok, use taken in \<open>simp add: create_entry_outcome_def\<close>,
          rule holds_conseq [OF ins [unfolded created_entry_def]], auto)
  qed
qed

text \<open>The store of a new entry: the child's when its key exists, the persistent one otherwise.\<close>

definition entry_store :: "create_entry_request \<Rightarrow> db \<Rightarrow> store" where
  "entry_store req d = (if \<not> has_key Main (cer_child_guid req) d \<and> has_key Volatile (cer_child_guid req) d then Volatile else Main)"

lemma holds_create_entry:
  assumes "keys_ok d0"
  shows "holds (\<lambda>d. d = d0) (create_entry_act dl req) (create_entry_outcome req d0 (entry_store req d0)) (\<lambda>_ _. False)"
proof -
  have excl: "\<not> (has_key Main g d0 \<and> has_key Volatile g d0)" for g
    using assms by (auto simp: keys_ok_def apart_iff has_key_def)
  show ?thesis
    unfolding create_entry_act_def
  proof (rule holds_on_error [OF holds_is_volatile])
    show "holds (\<lambda>d. d = d0 \<and> has_key st (cer_child_guid req) d) (create_entry_in dl req st)
        (create_entry_outcome req d0 (entry_store req d0)) (\<lambda>_ _. False)" for st
    proof (cases "has_key st (cer_child_guid req) d0")
      case True
      then have "entry_store req d0 = st" using excl by (cases st) (auto simp: entry_store_def)
      then show ?thesis by (intro holds_conseq [OF holds_create_entry_in]) auto
    qed (rule holds_impossible, auto)
    show "holds (\<lambda>d. d = d0 \<and> (call_error e \<or> e = Err_Key_Not_Found \<and> (\<forall>st. \<not> has_key st (cer_child_guid req) d)))
        (if e = Err_Key_Not_Found then create_entry_in dl req Main else ok (storage_status e))
        (create_entry_outcome req d0 (entry_store req d0)) (\<lambda>_ _. False)" for e
    proof (cases "e = Err_Key_Not_Found \<and> (\<forall>st. \<not> has_key st (cer_child_guid req) d0)")
      case True
      then have "entry_store req d0 = Main" by (simp add: entry_store_def)
      with True show ?thesis by simp (rule holds_conseq [OF holds_create_entry_in], auto)
    next
      case False
      then show ?thesis by (auto intro!: holds_impossible holds_ok simp: create_entry_outcome_def)
    qed
  qed
qed

text \<open>CREATE_KEY.\<close>

definition key_store :: "create_key_request \<Rightarrow> store" where
  "key_store req = (if ckr_volatile req then Volatile else Main)"

definition add_key :: "store \<Rightarrow> key_row \<Rightarrow> db \<Rightarrow> db" where
  "add_key st r d = map_schema st (\<lambda>s. s\<lparr>s_keys := s_keys (schema_of st d) @ [r]\<rparr>) d"

definition key_taken :: "guid \<Rightarrow> db \<Rightarrow> bool" where
  "key_taken g d \<longleftrightarrow> has_key Main g d \<or> has_key Volatile g d"

lemma key_taken_iff: "key_taken g d \<longleftrightarrow> has_key st g d \<or> has_key (other_store st) g d"
  by (cases st) (auto simp: key_taken_def)

text \<open>The row a CREATE_KEY promises.\<close>

definition created_key :: "create_key_request \<Rightarrow> u64 \<Rightarrow> key_row" where
  "created_key req now =
     \<lparr>kr_guid = ckr_guid req, kr_name = ckr_name req, kr_name_folded = fold_string (ckr_name req),
      kr_parent_guid = Some (ckr_parent_guid req), kr_sd = ckr_sd req,
      kr_volatile = (if ckr_volatile req then 1 else 0), kr_symlink = (if ckr_symlink req then 1 else 0),
      kr_last_write_time = now\<rparr>"

lemma create_key_row_created: "create_key_row req now = created_key req now"
  by (simp add: create_key_row_def created_key_def)

definition create_key_outcome :: "create_key_request \<Rightarrow> u64 \<Rightarrow> db \<Rightarrow> u32 \<Rightarrow> db \<Rightarrow> bool" where
  "create_key_outcome req now d0 status d \<longleftrightarrow>
     status = status_ok \<and> \<not> key_taken (ckr_guid req) d0 \<and> d = add_key (key_store req) (created_key req now) d0 \<or>
     status = status_already_exists \<and> key_taken (ckr_guid req) d0 \<and> d = d0 \<or>
     storage_failure status \<and> d = d0"

lemma holds_create_key:
  "holds (\<lambda>d. d = d0) (create_key_act dl req now) (create_key_outcome req now d0) (\<lambda>_ _. False)"
  (is "holds _ _ ?Q ?E")
proof -
  let ?st = "key_store req"
  have pk: "kr_guid (created_key req now) = ckr_guid req" by (simp add: created_key_def)
  have taken: "key_taken (ckr_guid req) d0 \<longleftrightarrow>
      ckr_guid req \<in> kr_guid ` set (s_keys (schema_of ?st d0)) \<or> has_key (other_store ?st) (ckr_guid req) d0"
    by (subst key_taken_iff [of _ _ ?st]) (simp add: has_key_def)
  have ins: "holds (\<lambda>d. d = d0 \<and> \<not> has_key (other_store ?st) (ckr_guid req) d)
      (on_error (insert_key dl ?st (created_key req now))
         (\<lambda>e. ok (if e = Err_Unique then status_already_exists else storage_status e)) (\<lambda>_. ok status_ok)) ?Q ?E"
  proof (rule holds_on_error [where R = "\<lambda>_ d. ?Q status_ok d" and
        F = "\<lambda>e d. d = d0 \<and> (e = Err_Unique \<and> key_taken (ckr_guid req) d0 \<or> call_error e)"])
    show "holds (\<lambda>d. d = d0 \<and> \<not> has_key (other_store ?st) (ckr_guid req) d)
        (insert_key dl ?st (created_key req now)) (\<lambda>_ d. ?Q status_ok d)
        (\<lambda>e d. d = d0 \<and> (e = Err_Unique \<and> key_taken (ckr_guid req) d0 \<or> call_error e))"
      unfolding insert_key_def
      by (rule holds_sql_exec) (auto simp: sql_simps pk taken create_key_outcome_def add_key_def split: option.splits)
  qed (rule holds_ok, auto simp: create_key_outcome_def)+
  show ?thesis
    unfolding create_key_act_def Let_def key_store_def [symmetric] create_key_row_created
  proof (rule holds_on_error [OF holds_key_exists])
    show "holds (\<lambda>d. d = d0 \<and> call_error e) (ok (storage_status e)) ?Q ?E" for e
      by (rule holds_ok) (simp add: create_key_outcome_def)
    show "holds (\<lambda>d. d = d0 \<and> present = has_key (other_store ?st) (ckr_guid req) d)
      (if present then ok status_already_exists
       else on_error (insert_key dl ?st (created_key req now))
         (\<lambda>e. ok (if e = Err_Unique then status_already_exists else storage_status e)) (\<lambda>_. ok status_ok)) ?Q ?E" for present
      by (rule holds_if, rule holds_ok, use taken in \<open>simp add: create_key_outcome_def\<close>,
          rule holds_conseq [OF ins], auto)
  qed
qed

text \<open>HIDE_ENTRY: the marker it promises, and the rows the marker takes the place of.\<close>

definition hidden_marker :: "hide_entry_request \<Rightarrow> path_row" where
  "hidden_marker req =
     \<lparr>pr_parent_guid = her_parent_guid req, pr_child_name = her_child_name req,
      pr_child_name_folded = fold_string (her_child_name req), pr_layer = her_layer_name req,
      pr_target_type = target_hidden_type, pr_target_guid = None, pr_sequence = her_sequence req\<rparr>"

definition masked :: "hide_entry_request \<Rightarrow> path_row \<Rightarrow> bool" where
  "masked req r \<longleftrightarrow>
     pr_parent_guid r = her_parent_guid req \<and> pr_child_name_folded r = fold_string (her_child_name req) \<and>
     pr_layer r = her_layer_name req"

definition hide_entry :: "store \<Rightarrow> hide_entry_request \<Rightarrow> db \<Rightarrow> db" where
  "hide_entry st req d =
     map_schema st (\<lambda>s. s\<lparr>s_path_entries := filter (\<lambda>r. \<not> masked req r) (s_path_entries s) @ [hidden_marker req]\<rparr>)
       (map_schema (other_store st) (\<lambda>s. s\<lparr>s_path_entries := filter (\<lambda>r. \<not> masked req r) (s_path_entries s)\<rparr>) d)"

lemma hide_entry_code:
  "replace_entry st (hidden_row req (fold_string (her_child_name req)))
     (delete_entry_key (other_store st) (her_parent_guid req) (fold_string (her_child_name req)) (her_layer_name req) d) =
   hide_entry st req d"
proof -
  have row: "hidden_row req (fold_string (her_child_name req)) = hidden_marker req"
    by (simp add: hidden_row_def hidden_marker_def)
  have pk: "path_pk r \<noteq> path_pk (hidden_marker req) \<longleftrightarrow> \<not> masked req r" for r
    by (simp add: path_pk_def hidden_marker_def masked_def)
  have key: "path_key (her_parent_guid req) (fold_string (her_child_name req)) (her_layer_name req) = masked req"
    by (simp add: fun_eq_iff path_key_def masked_def)
  show ?thesis
    unfolding row replace_entry_def delete_entry_key_def hide_entry_def replace_row_def delete_where_def pk key by simp
qed

lemma holds_exec_total:
  "holds (\<lambda>d. d = d0) (sql_exec dl (\<lambda>d. Some (f d))) (\<lambda>_ d. d = f d0) (\<lambda>e d. d = d0 \<and> call_error e)"
  by (rule holds_sql_exec) auto

lemma holds_hide_entry:
  "holds (\<lambda>d. d = d0) (replace_hidden_entry dl st (fold_string (her_child_name req)) req)
     (\<lambda>_ d. d = hide_entry st req d0) (\<lambda>e d. d = d0 \<and> call_error e)"
proof -
  let ?f = "fold_string (her_child_name req)"
  let ?del = "\<lambda>d. delete_entry_key (other_store st) (her_parent_guid req) ?f (her_layer_name req) d"
  let ?rep = "\<lambda>d. replace_entry st (hidden_row req ?f) d"
  let ?body = "and_then (sql_exec dl Some) (\<lambda>_. and_then (sql_exec dl (\<lambda>d. Some (?del d))) (\<lambda>_.
      and_then (sql_exec dl (\<lambda>d. Some (?rep d))) (\<lambda>_. sql_exec dl Some)))"
  have id: "Some = (\<lambda>d :: db. Some (id d))" by auto
  have "holds (\<lambda>d. d = d0) ?body (\<lambda>_ d. d = hide_entry st req d0) (\<lambda>e d. call_error e)"
    by (subst (1 2) id, (rule holds_and_then, rule holds_conseq [OF holds_exec_total], assumption, assumption, simp)+,
        rule holds_conseq [OF holds_exec_total]) (auto simp: hide_entry_code)
  then show ?thesis
    unfolding holds_def replace_hidden_entry_def by (fastforce split: sum.splits prod.splits)
qed

text \<open>DELETE_ENTRY, DELETE_VALUE_ENTRY, DROP_KEY and DELETE_LAYER are sequences of deletions.\<close>

fun apply_all :: "(db \<Rightarrow> db) list \<Rightarrow> db \<Rightarrow> db" where
  "apply_all [] d = d"
| "apply_all (f # fs) d = apply_all fs (f d)"

inductive run_prefix :: "(db \<Rightarrow> db) list \<Rightarrow> db \<Rightarrow> db \<Rightarrow> bool" where
  stop: "run_prefix fs d d"
| next_one: "run_prefix fs (f d) d' \<Longrightarrow> run_prefix (f # fs) d d'"

lemma run_prefix_keeps: "run_prefix fs d d' \<Longrightarrow> P d \<Longrightarrow> (\<And>f d. f \<in> set fs \<Longrightarrow> P d \<Longrightarrow> P (f d)) \<Longrightarrow> P d'"
  by (induction rule: run_prefix.induct) auto

lemma holds_exec_all:
  "holds (\<lambda>d. d = d0) (exec_all dl fs) (\<lambda>_ d. d = apply_all fs d0) (\<lambda>e d. call_error e \<and> run_prefix fs d0 d)"
proof (induction fs arbitrary: d0)
  case (Cons f fs)
  show ?case
    unfolding exec_all.simps
  proof (rule holds_and_then)
    show "holds (\<lambda>d. d = d0) (sql_exec dl (\<lambda>d. Some (f d))) (\<lambda>_ d. d = f d0) (\<lambda>e d. call_error e \<and> run_prefix (f # fs) d0 d)"
      by (rule holds_conseq [OF holds_exec_total]) (auto intro: stop)
    show "holds (\<lambda>d. d = f d0) (exec_all dl fs) (\<lambda>_ d. d = apply_all (f # fs) d0) (\<lambda>e d. call_error e \<and> run_prefix (f # fs) d0 d)"
      by (rule holds_conseq [OF Cons.IH]) (auto intro: next_one)
  qed
qed (auto intro: holds_ok)

lemma holds_tx_exec_all:
  "holds (\<lambda>d. d = d0) (tx_exec_all dl fs) (\<lambda>_ d. d = apply_all fs d0) (\<lambda>_ _. True)"
proof (induction fs arbitrary: d0)
  case (Cons f fs)
  show ?case
    unfolding tx_exec_all.simps
    by (rule holds_on_error [OF holds_exec_total], rule holds_conseq [OF Cons.IH]) (auto intro: holds_fail)
qed (auto intro: holds_ok)

lemma delete_entry_is_exec_all:
  "delete_entry_act dl req = exec_all dl
     [delete_entry_key Main (der_parent_guid req) (fold_string (der_child_name req)) (der_layer_name req),
      delete_entry_key Volatile (der_parent_guid req) (fold_string (der_child_name req)) (der_layer_name req)]"
  by (simp add: delete_entry_act_def Let_def and_then_def ok_def fun_eq_iff split: sum.splits prod.splits)

lemma delete_value_is_exec_all:
  "delete_value_act dl req = exec_all dl
     [delete_value_key Main (dvr_guid req) (fold_string (dvr_value_name req)) (dvr_layer_name req),
      delete_value_key Volatile (dvr_guid req) (fold_string (dvr_value_name req)) (dvr_layer_name req)]"
  by (simp add: delete_value_act_def Let_def and_then_def ok_def fun_eq_iff split: sum.splits prod.splits)

lemma run_prefix_all: "run_prefix fs d (apply_all fs d)"
  by (induction fs arbitrary: d) (auto intro: run_prefix.intros)

lemma apply_all_keeps: "P d \<Longrightarrow> (\<And>f d. f \<in> set fs \<Longrightarrow> P d \<Longrightarrow> P (f d)) \<Longrightarrow> P (apply_all fs d)"
  by (rule run_prefix_keeps [OF run_prefix_all])

text \<open>WRITE_KEY.\<close>

definition write_key_update :: "write_key_request \<Rightarrow> key_row \<Rightarrow> key_row" where
  "write_key_update req r =
     (let mask = wkr_field_mask req;
          r = (if mask AND write_key_field_sd \<noteq> 0 then r\<lparr>kr_sd := wkr_sd req\<rparr> else r)
      in (if mask AND write_key_field_last_write_time \<noteq> 0 then r\<lparr>kr_last_write_time := wkr_last_write_time req\<rparr> else r))"

definition update_keys :: "store \<Rightarrow> guid \<Rightarrow> (key_row \<Rightarrow> key_row) \<Rightarrow> db \<Rightarrow> db" where
  "update_keys st g f = map_schema st (\<lambda>s. s\<lparr>s_keys := update_where (\<lambda>r. kr_guid r = g) f (s_keys s)\<rparr>)"

definition write_key_outcome :: "write_key_request \<Rightarrow> db \<Rightarrow> u32 \<Rightarrow> db \<Rightarrow> bool" where
  "write_key_outcome req d0 status d \<longleftrightarrow>
     status = status_ok \<and> (\<exists>st. has_key st (wkr_guid req) d0 \<and> d = update_keys st (wkr_guid req) (write_key_update req) d0) \<or>
     status = status_not_found \<and> \<not> key_taken (wkr_guid req) d0 \<and> d = d0 \<or>
     storage_failure status \<and> d = d0"

lemma update_keys_id: "update_keys st g (\<lambda>r. r) d = d"
  by (cases st) (simp_all add: update_keys_def update_where_def)

lemma holds_rows_status:
  assumes "\<And>d. P d \<Longrightarrow> 0 < n d \<and> Q status_ok (f d)" and "\<And>d status. P d \<Longrightarrow> storage_failure status \<Longrightarrow> Q status d"
  shows "holds P (rows_status (sql_count dl n f)) Q (\<lambda>_ _. False)"
  unfolding rows_status_def
  by (rule holds_on_error [where R = "\<lambda>k d. 0 < k \<and> Q status_ok d" and F = "\<lambda>_ d. \<forall>status. storage_failure status \<longrightarrow> Q status d"],
      rule holds_sql_count, use assms in auto, (rule holds_ok, auto)+)

lemma holds_write_key_in:
  assumes "has_key st (wkr_guid req) d0"
  shows "holds (\<lambda>d. d = d0) (write_key_in dl req st) (write_key_outcome req d0) (\<lambda>_ _. False)"
proof -
  have upd: "holds (\<lambda>d. d = d0) (rows_status (update_key dl st (wkr_guid req) f)) (write_key_outcome req d0) (\<lambda>_ _. False)"
    if "f = write_key_update req" for f
    unfolding update_key_def update_keys_def [symmetric]
    by (rule holds_rows_status) (use assms that in \<open>auto simp: write_key_outcome_def keys_with_guid_empty\<close>)
  let ?mask = "wkr_field_mask req"
  consider (both) "?mask AND write_key_field_sd \<noteq> 0" "?mask AND write_key_field_last_write_time \<noteq> 0"
    | (sd) "?mask AND write_key_field_sd \<noteq> 0" "?mask AND write_key_field_last_write_time = 0"
    | (lwt) "?mask AND write_key_field_sd = 0" "?mask AND write_key_field_last_write_time \<noteq> 0"
    | (none) "?mask AND write_key_field_sd = 0" "?mask AND write_key_field_last_write_time = 0"
    by blast
  then show ?thesis
  proof cases
    case none
    then have id: "write_key_update req = (\<lambda>r. r)" by (simp add: write_key_update_def fun_eq_iff)
    have "holds (\<lambda>d. d = d0) (on_error (sql_query_row dl (keys_with_guid st (wkr_guid req)))
             (\<lambda>e. ok (if e = Err_No_Rows then status_not_found else storage_status e)) (\<lambda>_. ok status_ok))
        (write_key_outcome req d0) (\<lambda>_ _. False)"
    proof (rule holds_on_error [OF holds_key_probe])
      show "holds (\<lambda>d. d = d0 \<and> has_key st (wkr_guid req) d) (ok status_ok) (write_key_outcome req d0) (\<lambda>_ _. False)"
        by (rule holds_ok) (use assms in \<open>auto simp: write_key_outcome_def id update_keys_id\<close>)
      show "holds (\<lambda>d. d = d0 \<and> (call_error e \<or> e = Err_No_Rows \<and> \<not> has_key st (wkr_guid req) d))
          (ok (if e = Err_No_Rows then status_not_found else storage_status e)) (write_key_outcome req d0) (\<lambda>_ _. False)" for e
        by (rule holds_ok) (use assms in \<open>auto simp: write_key_outcome_def\<close>)
    qed
    with none show ?thesis by (simp add: write_key_in_def Let_def)
  qed (simp_all add: write_key_in_def Let_def upd write_key_update_def fun_eq_iff)
qed

lemma holds_write_key: "holds (\<lambda>d. d = d0) (write_key_act dl req) (write_key_outcome req d0) (\<lambda>_ _. False)"
  unfolding write_key_act_def
proof (rule holds_on_error [OF holds_is_volatile])
  show "holds (\<lambda>d. d = d0 \<and> has_key st (wkr_guid req) d) (write_key_in dl req st) (write_key_outcome req d0) (\<lambda>_ _. False)" for st
  proof (cases "has_key st (wkr_guid req) d0")
    case True
    show ?thesis by (rule holds_conseq [OF holds_write_key_in [OF True]]) auto
  qed (rule holds_impossible, auto)
  show "holds (\<lambda>d. d = d0 \<and> (call_error e \<or> e = Err_Key_Not_Found \<and> (\<forall>st. \<not> has_key st (wkr_guid req) d)))
      (ok (if e = Err_Key_Not_Found then status_not_found else storage_status e)) (write_key_outcome req d0) (\<lambda>_ _. False)" for e
    by (rule holds_ok) (auto simp: write_key_outcome_def key_taken_def)
qed

text \<open>SET_VALUE.\<close>

text \<open>SET_VALUE: the row it promises, and the rows this row takes the place of.\<close>

definition stored_value :: "set_value_request \<Rightarrow> value_row" where
  "stored_value req =
     \<lparr>vr_key_guid = svr_guid req, vr_name = svr_value_name req, vr_name_folded = fold_string (svr_value_name req),
      vr_layer = svr_layer_name req, vr_type = svr_type req, vr_data = svr_data req, vr_sequence = svr_sequence req\<rparr>"

definition replaced :: "set_value_request \<Rightarrow> value_row \<Rightarrow> bool" where
  "replaced req r \<longleftrightarrow>
     vr_key_guid r = svr_guid req \<and> vr_name_folded r = fold_string (svr_value_name req) \<and> vr_layer r = svr_layer_name req"

definition value_at :: "store \<Rightarrow> set_value_request \<Rightarrow> db \<Rightarrow> value_row list" where
  "value_at st req d = filter (replaced req) (s_values (schema_of st d))"

definition set_value :: "store \<Rightarrow> set_value_request \<Rightarrow> db \<Rightarrow> db" where
  "set_value st req =
     map_schema st (\<lambda>s. s\<lparr>s_values := filter (\<lambda>r. \<not> replaced req r) (s_values s) @ [stored_value req]\<rparr>)"

lemma value_key_replaced:
  "value_key (svr_guid req) (fold_string (svr_value_name req)) (svr_layer_name req) = replaced req"
  by (simp add: fun_eq_iff value_key_def replaced_def)

lemma set_value_row_stored: "set_value_row req (fold_string (svr_value_name req)) = stored_value req"
  by (simp add: set_value_row_def stored_value_def)

lemma set_value_code: "replace_value st (set_value_row req (fold_string (svr_value_name req))) = set_value st req"
proof -
  have "value_pk r \<noteq> value_pk (stored_value req) \<longleftrightarrow> \<not> replaced req r" for r
    by (simp add: value_pk_def stored_value_def replaced_def)
  then show ?thesis by (simp add: replace_value_def set_value_def set_value_row_stored replace_row_def)
qed

definition cas_outcome :: "store \<Rightarrow> set_value_request \<Rightarrow> db \<Rightarrow> u32 \<Rightarrow> db \<Rightarrow> bool" where
  "cas_outcome st req d0 status d \<longleftrightarrow>
     status = status_ok \<and> (\<exists>r \<in> set (value_at st req d0). vr_sequence r = svr_expected_sequence req) \<and> d = set_value st req d0 \<or>
     status = status_cas_failed \<and> d = d0 \<and>
       (value_at st req d0 = [] \<or> (\<exists>r \<in> set (value_at st req d0). vr_sequence r \<noteq> svr_expected_sequence req)) \<or>
     storage_failure status \<and> d = d0"

lemma holds_set_value_cas:
  "holds (\<lambda>d. d = d0) (set_value_cas dl st (fold_string (svr_value_name req)) req) (cas_outcome st req d0) (\<lambda>_ _. False)"
  unfolding set_value_cas_def value_key_replaced
proof (rule holds_on_error [where R = "\<lambda>r d. d = d0 \<and> r \<in> set (value_at st req d0)" and
      F = "\<lambda>e d. d = d0 \<and> (call_error e \<or> e = Err_No_Rows \<and> value_at st req d0 = [])"])
  show "holds (\<lambda>d. d = d0) (sql_query_row dl (\<lambda>d. filter (replaced req) (s_values (schema_of st d))))
      (\<lambda>r d. d = d0 \<and> r \<in> set (value_at st req d0)) (\<lambda>e d. d = d0 \<and> (call_error e \<or> e = Err_No_Rows \<and> value_at st req d0 = []))"
    by (rule holds_sql_query_row) (auto simp: value_at_def)
  show "holds (\<lambda>d. d = d0 \<and> (call_error e \<or> e = Err_No_Rows \<and> value_at st req d0 = []))
      (ok (if e = Err_No_Rows then status_cas_failed else storage_status e)) (cas_outcome st req d0) (\<lambda>_ _. False)" for e
    by (rule holds_ok) (auto simp: cas_outcome_def)
  show "holds (\<lambda>d. d = d0 \<and> r \<in> set (value_at st req d0))
      (if vr_sequence r \<noteq> svr_expected_sequence req then ok status_cas_failed
       else on_error (sql_exec dl (\<lambda>d. Some (replace_value st (set_value_row req (fold_string (svr_value_name req))) d)))
          (\<lambda>e. ok (storage_status e)) (\<lambda>_. ok status_ok)) (cas_outcome st req d0) (\<lambda>_ _. False)" for r
  proof (rule holds_if)
    show "holds (\<lambda>d. d = d0 \<and> r \<in> set (value_at st req d0)) (ok status_cas_failed) (cas_outcome st req d0) (\<lambda>_ _. False)"
      if "vr_sequence r \<noteq> svr_expected_sequence req"
      by (rule holds_ok) (use that in \<open>auto simp: cas_outcome_def\<close>)
    assume seq: "\<not> vr_sequence r \<noteq> svr_expected_sequence req"
    show "holds (\<lambda>d. d = d0 \<and> r \<in> set (value_at st req d0))
       (on_error (sql_exec dl (\<lambda>d. Some (replace_value st (set_value_row req (fold_string (svr_value_name req))) d)))
          (\<lambda>e. ok (storage_status e)) (\<lambda>_. ok status_ok)) (cas_outcome st req d0) (\<lambda>_ _. False)"
    proof (cases "r \<in> set (value_at st req d0)")
      case True
      have "holds (\<lambda>d. d = d0) (on_error (sql_exec dl (\<lambda>d. Some (replace_value st (set_value_row req (fold_string (svr_value_name req))) d)))
          (\<lambda>e. ok (storage_status e)) (\<lambda>_. ok status_ok)) (cas_outcome st req d0) (\<lambda>_ _. False)"
        by (rule holds_on_error [OF holds_exec_total]; rule holds_ok)
          (use True seq in \<open>auto simp: cas_outcome_def set_value_code\<close>)
      then show ?thesis by (rule holds_conseq) auto
    qed (rule holds_impossible, auto)
  qed
qed

text \<open>SET_BLANKET_TOMBSTONE.\<close>

definition set_blanket_outcome :: "set_blanket_tombstone_request \<Rightarrow> db \<Rightarrow> u32 \<Rightarrow> db \<Rightarrow> bool" where
  "set_blanket_outcome req d0 status d \<longleftrightarrow>
     status = status_ok \<and> (\<exists>st. has_key st (sbr_guid req) d0 \<and> d = set_blanket st req d0) \<or>
     status = status_not_found \<and> \<not> key_taken (sbr_guid req) d0 \<and> d = d0 \<or>
     storage_failure status \<and> d = d0"

lemma holds_set_blanket: "holds (\<lambda>d. d = d0) (set_blanket_act dl req) (set_blanket_outcome req d0) (\<lambda>_ _. False)"
  unfolding set_blanket_act_def
proof (rule holds_on_error [OF holds_is_volatile])
  show "holds (\<lambda>d. d = d0 \<and> (call_error e \<or> e = Err_Key_Not_Found \<and> (\<forall>st. \<not> has_key st (sbr_guid req) d)))
      (ok (if e = Err_Key_Not_Found then status_not_found else storage_status e)) (set_blanket_outcome req d0) (\<lambda>_ _. False)" for e
    by (rule holds_ok) (auto simp: set_blanket_outcome_def key_taken_def)
  show "holds (\<lambda>d. d = d0 \<and> has_key st (sbr_guid req) d)
      (on_error (sql_exec dl (\<lambda>d. Some (set_blanket st req d))) (\<lambda>e. ok (storage_status e)) (\<lambda>_. ok status_ok))
      (set_blanket_outcome req d0) (\<lambda>_ _. False)" for st
  proof (cases "has_key st (sbr_guid req) d0")
    case True
    have "holds (\<lambda>d. d = d0) (on_error (sql_exec dl (\<lambda>d. Some (set_blanket st req d))) (\<lambda>e. ok (storage_status e)) (\<lambda>_. ok status_ok))
        (set_blanket_outcome req d0) (\<lambda>_ _. False)"
      by (rule holds_on_error [OF holds_exec_total]; rule holds_ok) (use True in \<open>auto simp: set_blanket_outcome_def\<close>)
    then show ?thesis by (rule holds_conseq) auto
  qed (rule holds_impossible, auto)
qed

section \<open>Mutations\<close>

text \<open>
  What one handler may do to a database it writes: the effects of its action, for a request
  whose GUIDs have the length the decoder gives them.
\<close>

inductive mutation :: "db \<Rightarrow> db \<Rightarrow> bool" where
  none: "mutation d d"
| create_entry: "length (cer_child_guid req) = 16 \<Longrightarrow> \<not> entry_taken req d \<Longrightarrow>
     mutation d (add_entry st (created_entry req) d)"
| hide_entry: "mutation d (hide_entry st req d)"
| create_key: "length (ckr_guid req) = 16 \<Longrightarrow> \<not> key_taken (ckr_guid req) d \<Longrightarrow>
     mutation d (add_key (key_store req) (created_key req now) d)"
| write_key: "mutation d (update_keys st g (write_key_update req) d)"
| set_value: "mutation d (set_value st req d)"
| set_blanket: "mutation d (set_blanket st req d)"
| delete_entries: "run_prefix [delete_entry_key Main g folded layer, delete_entry_key Volatile g folded layer] d d' \<Longrightarrow> mutation d d'"
| delete_values: "run_prefix [delete_value_key Main g folded layer, delete_value_key Volatile g folded layer] d d' \<Longrightarrow> mutation d d'"
| drop_key: "run_prefix (drop_deletes g) d d' \<Longrightarrow> mutation d d'"
| delete_layer: "run_prefix (layer_deletes layer) d d' \<Longrightarrow> mutation d d'"

lemma created_entry_ok: "length (cer_child_guid req) = 16 \<Longrightarrow> path_row_ok (created_entry req)"
  by (simp add: created_entry_def path_row_ok_def)

lemma hidden_row_ok: "path_row_ok (hidden_row req (fold_string (her_child_name req)))"
  by (simp add: hidden_row_def path_row_ok_def)

lemma created_key_ok: "length (ckr_guid req) = 16 \<Longrightarrow> key_row_ok (key_store req) (created_key req now)"
  by (simp add: created_key_def key_row_ok_def key_store_def)

lemma db_ok_hide: "db_ok d \<Longrightarrow> db_ok (hide_entry st req d)"
  unfolding hide_entry_code [symmetric] delete_entry_key_def
proof (rule db_ok_replace_path)
  let ?f = "fold_string (her_child_name req)"
  let ?d = "map_schema (other_store st) (\<lambda>s. s\<lparr>s_path_entries :=
      delete_where (path_key (her_parent_guid req) ?f (her_layer_name req)) (s_path_entries s)\<rparr>) d"
  show "db_ok ?d" if "db_ok d" using that by (rule db_ok_delete)
  show "path_pk (hidden_row req ?f) \<notin> path_pk ` set (s_path_entries (schema_of (other_store st) ?d))"
    by (auto simp: sql_simps delete_where_def path_pk_def hidden_row_def path_key_def)
qed (rule hidden_row_ok)

lemma mutation_db_ok: "mutation d d' \<Longrightarrow> db_ok d \<Longrightarrow> db_ok d'"
proof (induction rule: mutation.induct)
  case (create_entry req d st)
  have "path_pk (created_entry req) \<notin> path_pk ` set (s_path_entries (schema_of st' d))" for st'
    using create_entry(2) by (auto simp: entry_taken_def has_entry_def created_entry_def path_pk_def)
  with create_entry show ?case unfolding add_entry_def by (intro db_ok_insert_path created_entry_ok)
next
  case (create_key req d now)
  have "kr_guid (created_key req now) \<notin> kr_guid ` set (s_keys (schema_of st' d))" for st'
    using create_key(2) by (cases st') (auto simp: key_taken_def has_key_def created_key_def)
  with create_key show ?case unfolding add_key_def by (intro db_ok_insert_key created_key_ok)
next
  case (write_key d st g req)
  then show ?case
    unfolding update_keys_def by (intro db_ok_update_key) (simp_all add: write_key_update_def Let_def)
next
  case (set_value d st req)
  then show ?case
    unfolding set_value_code [symmetric] by (intro db_ok_replace_value) (simp_all add: set_value_row_def value_row_ok_def)
next
  case (delete_entries g folded layer d d')
  then show ?case by (elim run_prefix_keeps) (auto simp: delete_entry_key_def intro: db_ok_delete)
next
  case (delete_values g folded layer d d')
  then show ?case by (elim run_prefix_keeps) (auto simp: delete_value_key_def intro: db_ok_delete)
next
  case (drop_key g d d')
  then show ?case by (elim run_prefix_keeps) (auto simp: drop_deletes_def intro: db_ok_delete)
next
  case (delete_layer layer d d')
  then show ?case by (elim run_prefix_keeps) (auto simp: layer_deletes_def intro: db_ok_delete)
qed (auto intro: db_ok_hide db_ok_set_blanket)

section \<open>Actions as mutations\<close>

definition mutates :: "'a act \<Rightarrow> bool" where
  "mutates m \<longleftrightarrow> (\<forall>e d. mutation d (snd (snd (m (e, d)))))"

lemma mutatesI: "(\<And>d0. holds (\<lambda>d. d = d0) m (\<lambda>_. mutation d0) (\<lambda>_. mutation d0)) \<Longrightarrow> mutates m"
  unfolding mutates_def
proof (intro allI)
  fix e d assume "\<And>d0. holds (\<lambda>d. d = d0) m (\<lambda>_. mutation d0) (\<lambda>_. mutation d0)"
  from holdsD [OF this [of d], of d e] show "mutation d (snd (snd (m (e, d))))"
    by (cases "m (e, d)"; cases "fst (m (e, d))") auto
qed

lemma mutatesI_conseq:
  assumes "\<And>d0. holds (\<lambda>d. d = d0) m (Q d0) (E d0)"
    and "\<And>d0 x d. Q d0 x d \<Longrightarrow> mutation d0 d" and "\<And>d0 e d. E d0 e d \<Longrightarrow> mutation d0 d"
  shows "mutates m"
  by (rule mutatesI, rule holds_conseq [OF assms(1)]) (auto intro: assms(2,3))

lemma mutates_create_entry:
  assumes "length (cer_child_guid req) = 16"
  shows "mutates (create_entry_act dl req)"
proof (rule mutatesI_conseq [where Q = "\<lambda>d0 s d. \<exists>st. create_entry_outcome req d0 st s d" and E = "\<lambda>_ _ _. False"])
  show "holds (\<lambda>d. d = d0) (create_entry_act dl req) (\<lambda>s d. \<exists>st. create_entry_outcome req d0 st s d) (\<lambda>_ _. False)" for d0
    unfolding create_entry_act_def
  proof (rule holds_on_error [OF holds_is_volatile])
    show "holds (\<lambda>d. d = d0 \<and> has_key st (cer_child_guid req) d) (create_entry_in dl req st)
        (\<lambda>s d. \<exists>st. create_entry_outcome req d0 st s d) (\<lambda>_ _. False)" for st
      by (rule holds_conseq [OF holds_create_entry_in [of d0 dl req st]]) auto
    show "holds (\<lambda>d. d = d0 \<and> (call_error e \<or> e = Err_Key_Not_Found \<and> (\<forall>st. \<not> has_key st (cer_child_guid req) d)))
        (if e = Err_Key_Not_Found then create_entry_in dl req Main else ok (storage_status e))
        (\<lambda>s d. \<exists>st. create_entry_outcome req d0 st s d) (\<lambda>_ _. False)" for e
      by (rule holds_if, rule holds_conseq [OF holds_create_entry_in [of d0 dl req Main]], auto)
        (rule holds_ok, auto simp: create_entry_outcome_def)
  qed
qed (use assms in \<open>auto simp: create_entry_outcome_def intro: mutation.intros\<close>)

lemma mutates_create_key: "length (ckr_guid req) = 16 \<Longrightarrow> mutates (create_key_act dl req now)"
  by (rule mutatesI_conseq [OF holds_create_key]) (auto simp: create_key_outcome_def intro: mutation.intros)

lemma mutates_hide: "mutates (replace_hidden_entry dl st (fold_string (her_child_name req)) req)"
  by (rule mutatesI_conseq [OF holds_hide_entry]) (auto intro: mutation.intros)

lemma mutates_delete_entry: "mutates (delete_entry_act dl req)"
  unfolding delete_entry_is_exec_all
  by (rule mutatesI_conseq [OF holds_exec_all])
    (simp only: mutation.delete_entries [OF run_prefix_all], elim conjE, erule mutation.delete_entries)

lemma mutates_delete_value: "mutates (delete_value_act dl req)"
  unfolding delete_value_is_exec_all
  by (rule mutatesI_conseq [OF holds_exec_all])
    (simp only: mutation.delete_values [OF run_prefix_all], elim conjE, erule mutation.delete_values)

lemma mutates_write_key: "mutates (write_key_act dl req)"
  by (rule mutatesI_conseq [OF holds_write_key]) (auto simp: write_key_outcome_def intro: mutation.intros)

lemma mutates_drop: "mutates (exec_all dl (drop_deletes g))"
  by (rule mutatesI_conseq [OF holds_exec_all]) (auto intro: mutation.drop_key run_prefix_all)

lemma mutates_set_value: "mutates (sql_exec dl (\<lambda>d. Some (replace_value st (set_value_row req (fold_string (svr_value_name req))) d)))"
  by (rule mutatesI_conseq [OF holds_exec_total]) (auto simp: set_value_code intro: mutation.intros)

lemma mutates_set_value_cas: "mutates (set_value_cas dl st (fold_string (svr_value_name req)) req)"
  by (rule mutatesI_conseq [OF holds_set_value_cas]) (auto simp: cas_outcome_def intro: mutation.intros)

lemma mutates_set_blanket: "mutates (set_blanket_act dl req)"
  by (rule mutatesI_conseq [OF holds_set_blanket]) (auto simp: set_blanket_outcome_def intro: mutation.intros)

text \<open>The transactional deletions publish only their complete result.\<close>

definition succeeds_with :: "'a act \<Rightarrow> (db \<Rightarrow> db \<Rightarrow> bool) \<Rightarrow> bool" where
  "succeeds_with m T \<longleftrightarrow> (\<forall>e d x e' d'. m (e, d) = (Inr x, e', d') \<longrightarrow> T d d')"

lemma succeeds_withI: "(\<And>d0. holds (\<lambda>d. d = d0) m (\<lambda>_. T d0) (\<lambda>_ _. True)) \<Longrightarrow> succeeds_with m T"
  unfolding succeeds_with_def
proof (intro allI impI)
  fix e d x e' d'
  assume "\<And>d0. holds (\<lambda>d. d = d0) m (\<lambda>_. T d0) (\<lambda>_ _. True)" and "m (e, d) = (Inr x, e', d')"
  with holdsD [OF this(1) [of d], of d e] show "T d d'" by simp
qed

lemma mutates_succeeds: "mutates m \<Longrightarrow> succeeds_with m mutation"
  unfolding mutates_def succeeds_with_def by (metis snd_conv)

lemma succeeds_tx_drop: "succeeds_with (tx_exec_all dl (drop_deletes g)) mutation"
  by (rule succeeds_withI, rule holds_conseq [OF holds_tx_exec_all]) (auto intro: mutation.drop_key run_prefix_all)

lemma holds_find_orphans:
  "holds (\<lambda>d. d = d0) (find_layer_orphans dl layer) (\<lambda>os d. d = d0 \<and> mset os = mset (map scan_orphan (orphan_rows layer d0)))
     (\<lambda>e d. d = d0 \<and> call_error e)"
  unfolding find_layer_orphans_def
proof (rule holds_and_then [where R = "\<lambda>rows d. d = d0 \<and> mset rows = mset (orphan_rows layer d0)"])
  show "holds (\<lambda>d. d = d0) (sql_query dl (orphan_rows layer)) (\<lambda>rows d. d = d0 \<and> mset rows = mset (orphan_rows layer d0))
      (\<lambda>e d. d = d0 \<and> call_error e)"
    by (rule holds_sql_query) auto
qed (rule holds_ok, metis mset_map_eq)

lemma holds_delete_layer:
  "holds (\<lambda>d. d = d0) (delete_layer_act dl layer)
     (\<lambda>os d. d = apply_all (layer_deletes layer) d0 \<and> mset os = mset (map scan_orphan (orphan_rows layer d0)))
     (\<lambda>_ _. True)"
  unfolding delete_layer_act_def
proof (rule holds_and_then [where R = "\<lambda>os d. d = d0 \<and> mset os = mset (map scan_orphan (orphan_rows layer d0))"])
  show "holds (\<lambda>d. d = d0) (find_layer_orphans dl layer) (\<lambda>os d. d = d0 \<and> mset os = mset (map scan_orphan (orphan_rows layer d0)))
      (\<lambda>_ _. True)"
    by (rule holds_conseq [OF holds_find_orphans]) auto
  show "holds (\<lambda>d. d = d0 \<and> mset os = mset (map scan_orphan (orphan_rows layer d0)))
      (and_then (exec_all dl (layer_deletes layer)) (\<lambda>_. ok os))
      (\<lambda>os d. d = apply_all (layer_deletes layer) d0 \<and> mset os = mset (map scan_orphan (orphan_rows layer d0))) (\<lambda>_ _. True)" for os
  proof (cases "mset os = mset (map scan_orphan (orphan_rows layer d0))")
    case True
    show ?thesis
      by (rule holds_and_then [where R = "\<lambda>_ d. d = apply_all (layer_deletes layer) d0"],
          rule holds_conseq [OF holds_exec_all], auto intro: holds_ok simp: True)
  qed (rule holds_impossible, auto)
qed

lemma succeeds_delete_layer: "succeeds_with (delete_layer_act dl layer) mutation"
  by (rule succeeds_withI, rule holds_conseq [OF holds_delete_layer]) (auto intro: mutation.delete_layer run_prefix_all)

end
