(* ===== verification/Hivedb_Laws.thy ===== *)
theory Hivedb_Laws
  imports Hivedb Db_Inv
begin

text \<open>
  What opening a hive database guarantees: the outcome of each startup step from every file,
  the state of the file after a success and after any failure, that a second start changes
  nothing, and the bounds of the read pool and of the maximum sequence.
\<close>

section \<open>Outcomes\<close>

lemma holds_pre_ex: "(\<And>x. holds (P x) m Q E) \<Longrightarrow> holds (\<lambda>d. \<exists>x. P x d) m Q E"
  unfolding holds_def by (intro allI impI, elim exE) simp

lemma holds_pre_conj: "(c \<Longrightarrow> holds P m Q E) \<Longrightarrow> holds (\<lambda>d. c \<and> P d) m Q E"
  unfolding holds_def by (intro allI impI, elim conjE) simp

lemma holds_background:
  assumes "\<And>ev d res d'. P d \<Longrightarrow> f ev d = (res, d') \<Longrightarrow> (case res of Inl err \<Rightarrow> E err d' | Inr x \<Rightarrow> Q x d')"
    and "\<And>c d. P d \<Longrightarrow> E (Err_Sqlite c) d"
  shows "holds P (background f) Q E"
  unfolding holds_def
proof (intro allI impI)
  fix e and d assume P: "P d"
  obtain ev e1 where ev: "next_event e = (ev, e1)" by (cases "next_event e")
  obtain res d' where f: "f ev d = (res, d')" by (cases "f ev d")
  from assms(1) [OF P f] assms(2) [OF P] show "case background f (e, d) of (Inl err, e', d') \<Rightarrow> E err d' | (Inr x, e', d') \<Rightarrow> Q x d'"
    by (cases res; cases "ev_fault ev") (simp_all add: background_def ev f)
qed

lemma holds_bg_exec:
  assumes "\<And>d d'. P d \<Longrightarrow> f d = Some d' \<Longrightarrow> Q () d'" and "\<And>d. P d \<Longrightarrow> f d = None \<Longrightarrow> E Err_Unique d"
    and "\<And>c d. P d \<Longrightarrow> E (Err_Sqlite c) d"
  shows "holds P (bg_exec f) Q E"
  unfolding bg_exec_def by (rule holds_background) (use assms in \<open>auto split: option.splits\<close>)

lemma holds_bg_query_row:
  assumes "\<And>d r. P d \<Longrightarrow> r \<in> set (q d) \<Longrightarrow> Q r d" and "\<And>d. P d \<Longrightarrow> q d = [] \<Longrightarrow> E Err_No_Rows d"
    and "\<And>c d. P d \<Longrightarrow> E (Err_Sqlite c) d"
  shows "holds P (bg_query_row q) Q E"
  unfolding bg_query_row_def
proof (rule holds_background)
  fix ev d and res :: "error + 'b" and d'
  assume P: "P d" and r: "(case arrange (ev_order ev) (q d) of [] \<Rightarrow> Inl Err_No_Rows | r # _ \<Rightarrow> Inr r, d) = (res, d')"
  show "case res of Inl err \<Rightarrow> E err d' | Inr x \<Rightarrow> Q x d'"
  proof (cases "arrange (ev_order ev) (q d)")
    case (Cons x xs)
    then have "x \<in> set (q d)" using set_arrange [of "ev_order ev" "q d"] by auto
    with Cons P r assms(1) show ?thesis by auto
  qed (use P r assms(2) in auto)
qed (use assms(3) in auto)

text \<open>A transaction that fails leaves the file as it was.\<close>

lemma holds_in_tx:
  assumes "holds (\<lambda>d. d = d0) m Q (\<lambda>_ _. True)" and "\<And>e. E e d0"
  shows "holds (\<lambda>d. d = d0) (in_tx m) Q E"
proof -
  have "holds (\<lambda>d. d = d0) (and_then (bg_exec Some) (\<lambda>_. and_then m (\<lambda>x. and_then (bg_exec Some) (\<lambda>_. ok x)))) Q (\<lambda>_ _. True)"
  proof (rule holds_and_then)
    show "holds (\<lambda>d. d = d0) (bg_exec Some) (\<lambda>_ d. d = d0) (\<lambda>_ _. True)" by (rule holds_bg_exec) auto
    show "holds (\<lambda>d. d = d0) (and_then m (\<lambda>x. and_then (bg_exec Some) (\<lambda>_. ok x))) Q (\<lambda>_ _. True)" for x :: unit
    proof (rule holds_and_then [OF assms(1)])
      show "holds (Q x) (and_then (bg_exec Some) (\<lambda>_. ok x)) Q (\<lambda>_ _. True)" for x
        by (rule holds_and_then [where R = "\<lambda>_. Q x"]) (auto intro: holds_bg_exec holds_ok)
    qed
  qed
  then show ?thesis using assms(2) unfolding holds_def in_tx_def by (fastforce split: sum.splits prod.splits)
qed

text \<open>The version table after the schema step.\<close>

definition versioned :: "hive_file \<Rightarrow> hive_file" where
  "versioned f = (if hf_version f = None then f\<lparr>hf_version := Some [schema_version]\<rparr> else f)"

lemma holds_create_schema:
  assumes "hf_version f0 = None"
  shows "holds (\<lambda>f. f = f0) create_schema (\<lambda>_ f. f = versioned f0) (\<lambda>_ f. f = f0)"
  unfolding create_schema_def
proof (rule holds_in_tx, rule holds_and_then)
  show "holds (\<lambda>f. f = f0) (bg_exec (\<lambda>f. Some (f\<lparr>hf_version := Some (version_rows f)\<rparr>)))
      (\<lambda>_ f. f = f0\<lparr>hf_version := Some []\<rparr>) (\<lambda>_ _. True)"
    by (rule holds_bg_exec) (auto simp: version_rows_def assms)
  show "holds (\<lambda>f. f = f0\<lparr>hf_version := Some []\<rparr>) (bg_exec (\<lambda>f. Some (f\<lparr>hf_version := Some (version_rows f @ [schema_version])\<rparr>)))
      (\<lambda>_ f. f = versioned f0) (\<lambda>_ _. True)"
    by (rule holds_bg_exec) (auto simp: version_rows_def versioned_def assms)
qed simp

lemma holds_validate:
  "holds (\<lambda>f. f = f0) validate_schema_version (\<lambda>_ f. f = f0 \<and> schema_version \<in> set (version_rows f0)) (\<lambda>_ f. f = f0)"
  unfolding validate_schema_version_def
proof (rule holds_and_then)
  show "holds (\<lambda>f. f = f0) (bg_query_row version_rows) (\<lambda>v f. f = f0 \<and> v \<in> set (version_rows f0)) (\<lambda>_ f. f = f0)"
    by (rule holds_bg_query_row) auto
  show "holds (\<lambda>f. f = f0 \<and> v \<in> set (version_rows f0))
      (if v > schema_version then fail (Err_Schema_Version v) else if v < schema_version then fail (Err_Schema_Version v) else ok ())
      (\<lambda>_ f. f = f0 \<and> schema_version \<in> set (version_rows f0)) (\<lambda>_ f. f = f0)" for v
    by (intro holds_if holds_fail holds_ok) (auto dest: antisym)
qed

lemma holds_ensure_schema:
  "holds (\<lambda>f. f = f0) ensure_schema
     (\<lambda>_ f. f = versioned f0 \<and> (hf_version f0 = None \<or> schema_version \<in> set (version_rows f0)))
     (\<lambda>_ f. f = f0 \<or> hf_version f0 = None \<and> f = versioned f0)"
  unfolding ensure_schema_def
proof (rule holds_and_then)
  let ?ok = "\<lambda>f. f = versioned f0 \<and> (hf_version f0 = None \<or> schema_version \<in> set (version_rows f0))"
  let ?bad = "\<lambda>f. f = f0 \<or> hf_version f0 = None \<and> f = versioned f0"
  show "holds (\<lambda>f. f = f0) (bg_query_row (\<lambda>f. [if hf_version f = None then 0 else 1 :: nat]))
      (\<lambda>n f. f = f0 \<and> (n = 0 \<longleftrightarrow> hf_version f0 = None)) (\<lambda>_. ?bad)"
    by (rule holds_bg_query_row) auto
  show "holds (\<lambda>f. f = f0 \<and> (n = 0 \<longleftrightarrow> hf_version f0 = None))
      (and_then (if n = 0 then create_schema else validate_schema_version) (\<lambda>_. bg_exec Some)) (\<lambda>_. ?ok) (\<lambda>_. ?bad)" for n
  proof (rule holds_and_then)
    show "holds (\<lambda>f. f = f0 \<and> (n = 0 \<longleftrightarrow> hf_version f0 = None)) (if n = 0 then create_schema else validate_schema_version)
        (\<lambda>_. ?ok) (\<lambda>_. ?bad)"
    proof (cases "hf_version f0 = None")
      case True
      then show ?thesis by (cases "n = 0") (auto intro: holds_conseq [OF holds_create_schema [OF True]] holds_impossible)
    next
      case False
      then show ?thesis
        by (cases "n = 0") (auto intro: holds_conseq [OF holds_validate [of f0]] holds_impossible simp: versioned_def)
    qed
    show "holds ?ok (bg_exec Some) (\<lambda>_. ?ok) (\<lambda>_. ?bad)" for x :: unit
      by (rule holds_bg_exec) (auto simp: versioned_def)
  qed
qed

text \<open>The database with its root key.\<close>

definition rooted :: "bytes \<Rightarrow> guid \<Rightarrow> db \<Rightarrow> guid \<Rightarrow> db \<Rightarrow> bool" where
  "rooted name fresh d g d' \<longleftrightarrow>
     (d' = d \<and> g \<in> set (parentless d) \<and> length g = 16) \<or>
     (parentless d = [] \<and> g = fresh \<and> fresh \<notin> kr_guid ` set (s_keys (db_main d)) \<and>
      (\<exists>now. d' = map_schema Main (\<lambda>s. s\<lparr>s_keys := s_keys (db_main d) @ [root_row name fresh now]\<rparr>) d))"

lemma root_row_guid [simp]: "kr_guid (root_row name g now) = g"
  by (simp add: root_row_def)

lemma holds_ensure_root:
  "holds (\<lambda>f. f = f0) (ensure_root_key name fresh)
     (\<lambda>g f. \<exists>d. rooted name fresh (hf_db f0) g d \<and> f = f0\<lparr>hf_db := d\<rparr>) (\<lambda>_ f. f = f0)"
  unfolding ensure_root_key_def
proof (rule holds_on_error)
  let ?done = "\<lambda>g f. \<exists>d. rooted name fresh (hf_db f0) g d \<and> f = f0\<lparr>hf_db := d\<rparr>"
  show "holds (\<lambda>f. f = f0) (bg_query_row (\<lambda>f. parentless (hf_db f)))
      (\<lambda>g f. f = f0 \<and> g \<in> set (parentless (hf_db f0)))
      (\<lambda>e f. f = f0 \<and> (e = Err_No_Rows \<longrightarrow> parentless (hf_db f0) = []))"
    by (rule holds_bg_query_row) auto
  show "holds (\<lambda>f. f = f0 \<and> g \<in> set (parentless (hf_db f0)))
      (if length g \<noteq> 16 then fail (Err_Root_Guid_Length (length g)) else ok g) ?done (\<lambda>_ f. f = f0)" for g
    by (intro holds_if holds_fail holds_ok) (auto simp: rooted_def intro!: exI [of _ "hf_db f0"])
  show "holds (\<lambda>f. f = f0 \<and> (e = Err_No_Rows \<longrightarrow> parentless (hf_db f0) = []))
      (if e \<noteq> Err_No_Rows then fail e
       else (\<lambda>s. and_then (bg_exec (insert_root (root_row name fresh (word_of_nat (env_epoch (fst s) + env_now (fst s))))))
              (\<lambda>_. ok fresh) s)) ?done (\<lambda>_ f. f = f0)" for e
  proof (rule holds_if)
    show "holds (\<lambda>f. f = f0 \<and> (e = Err_No_Rows \<longrightarrow> parentless (hf_db f0) = [])) (fail e) ?done (\<lambda>_ f. f = f0)"
      by (rule holds_fail) simp
    assume e: "\<not> e \<noteq> Err_No_Rows"
    have at: "holds (\<lambda>f. f = f0 \<and> parentless (hf_db f0) = [])
        (and_then (bg_exec (insert_root (root_row name fresh now))) (\<lambda>_. ok fresh)) ?done (\<lambda>_ f. f = f0)" for now
    proof (rule holds_and_then)
      show "holds (\<lambda>f. f = f0 \<and> parentless (hf_db f0) = []) (bg_exec (insert_root (root_row name fresh now)))
          (\<lambda>_. ?done fresh) (\<lambda>_ f. f = f0)"
        by (rule holds_bg_exec) (auto simp: insert_root_def rooted_def sql_simps split: option.splits)
    qed (rule holds_ok)
    show "holds (\<lambda>f. f = f0 \<and> (e = Err_No_Rows \<longrightarrow> parentless (hf_db f0) = []))
        (\<lambda>s. and_then (bg_exec (insert_root (root_row name fresh (word_of_nat (env_epoch (fst s) + env_now (fst s))))))
              (\<lambda>_. ok fresh) s) ?done (\<lambda>_ f. f = f0)"
      using at e unfolding holds_def by simp
  qed
qed

text \<open>The database without its orphans.\<close>

definition swept :: "db \<Rightarrow> db" where
  "swept d = delete_orphan_keys (delete_orphan_blankets (delete_orphan_values d))"

lemma holds_clean_orphans:
  "holds (\<lambda>f. f = f0) clean_orphans (\<lambda>_ f. f = update_file swept f0) (\<lambda>_ f. f = f0)"
  unfolding clean_orphans_def
proof (rule holds_in_tx, rule holds_and_then)
  show "holds (\<lambda>f. f = f0) (bg_exec (\<lambda>f. Some (update_file delete_orphan_values f)))
      (\<lambda>_ f. f = update_file delete_orphan_values f0) (\<lambda>_ _. True)" by (rule holds_bg_exec) auto
  show "holds (\<lambda>f. f = update_file delete_orphan_values f0)
      (and_then (bg_exec (\<lambda>f. Some (update_file delete_orphan_blankets f))) (\<lambda>_. bg_exec (\<lambda>f. Some (update_file delete_orphan_keys f))))
      (\<lambda>_ f. f = update_file swept f0) (\<lambda>_ _. True)" for x :: unit
    by (rule holds_and_then [where R = "\<lambda>_ f. f = update_file (delete_orphan_blankets \<circ> delete_orphan_values) f0"];
        rule holds_bg_exec) (auto simp: update_file_def swept_def)
qed simp

definition opened :: "bytes \<Rightarrow> guid \<Rightarrow> hive_file \<Rightarrow> guid \<Rightarrow> hive_file \<Rightarrow> bool" where
  "opened name fresh f g f' \<longleftrightarrow>
     (hf_version f = None \<or> schema_version \<in> set (version_rows f)) \<and>
     (\<exists>d. rooted name fresh (hf_db f) g d \<and> f' = (versioned f)\<lparr>hf_db := swept d\<rparr>)"

text \<open>What a failed start may leave: the file, its version table, or its root key as well.\<close>

definition half_opened :: "bytes \<Rightarrow> guid \<Rightarrow> hive_file \<Rightarrow> hive_file \<Rightarrow> bool" where
  "half_opened name fresh f f' \<longleftrightarrow>
     f' = f \<or> f' = versioned f \<or>
     (hf_version f = None \<or> schema_version \<in> set (version_rows f)) \<and>
       (\<exists>g d. rooted name fresh (hf_db f) g d \<and> f' = (versioned f)\<lparr>hf_db := d\<rparr>)"

lemma versioned_db [simp]: "hf_db (versioned f) = hf_db f" "update_file h (f\<lparr>hf_db := d\<rparr>) = f\<lparr>hf_db := h d\<rparr>"
  by (simp_all add: versioned_def update_file_def)

lemma holds_initialize:
  "holds (\<lambda>f. f = f0) (initialize_hive name fresh) (opened name fresh f0) (\<lambda>_. half_opened name fresh f0)"
  unfolding initialize_hive_def
proof (rule holds_and_then)
  let ?ready = "\<lambda>f. f = versioned f0 \<and> (hf_version f0 = None \<or> schema_version \<in> set (version_rows f0))"
  show "holds (\<lambda>f. f = f0) ensure_schema (\<lambda>_. ?ready) (\<lambda>_. half_opened name fresh f0)"
    by (rule holds_conseq [OF holds_ensure_schema]) (auto simp: half_opened_def)
  let ?with = "\<lambda>g f. (hf_version f0 = None \<or> schema_version \<in> set (version_rows f0)) \<and>
      (\<exists>d. rooted name fresh (hf_db f0) g d \<and> f = (versioned f0)\<lparr>hf_db := d\<rparr>)"
  show "holds ?ready (and_then (ensure_root_key name fresh) (\<lambda>root. and_then clean_orphans (\<lambda>_. ok root)))
      (opened name fresh f0) (\<lambda>_. half_opened name fresh f0)" for x :: unit
  proof (rule holds_and_then)
    show "holds ?ready (ensure_root_key name fresh) ?with (\<lambda>_. half_opened name fresh f0)"
    proof (cases "hf_version f0 = None \<or> schema_version \<in> set (version_rows f0)")
      case True
      show ?thesis
        by (rule holds_conseq [OF holds_ensure_root [of "versioned f0"]]) (use True in \<open>auto simp: half_opened_def\<close>)
    qed (simp add: holds_impossible)
    show "holds (?with g) (and_then clean_orphans (\<lambda>_. ok g)) (opened name fresh f0) (\<lambda>_. half_opened name fresh f0)" for g
    proof -
      have "holds (\<lambda>f. f = (versioned f0)\<lparr>hf_db := d\<rparr>) (and_then clean_orphans (\<lambda>_. ok g)) (opened name fresh f0)
          (\<lambda>_. half_opened name fresh f0)"
        if "rooted name fresh (hf_db f0) g d" "hf_version f0 = None \<or> schema_version \<in> set (version_rows f0)" for d
      proof (rule holds_and_then [where R = "\<lambda>_. opened name fresh f0 g"])
        show "holds (\<lambda>f. f = (versioned f0)\<lparr>hf_db := d\<rparr>) clean_orphans (\<lambda>_. opened name fresh f0 g) (\<lambda>_. half_opened name fresh f0)"
        proof (rule holds_conseq [OF holds_clean_orphans])
          show "opened name fresh f0 g f" if "f = update_file swept ((versioned f0)\<lparr>hf_db := d\<rparr>)" for f
            unfolding opened_def that versioned_db
            using \<open>rooted name fresh (hf_db f0) g d\<close> \<open>hf_version f0 = None \<or> schema_version \<in> set (version_rows f0)\<close>
            by (intro conjI exI [of _ d]) (assumption | rule HOL.refl)+
          show "half_opened name fresh f0 f" if "f = (versioned f0)\<lparr>hf_db := d\<rparr>" for f
            unfolding half_opened_def that
            using \<open>rooted name fresh (hf_db f0) g d\<close> \<open>hf_version f0 = None \<or> schema_version \<in> set (version_rows f0)\<close>
            by - (rule disjI2, rule disjI2, intro conjI exI [of _ g] exI [of _ d], (assumption | rule HOL.refl)+)
        qed
      qed (rule holds_ok)
      then show ?thesis by (intro holds_pre_ex holds_pre_conj)
    qed
  qed
qed

section \<open>The opened database\<close>

text \<open>A file between two runs: an intact database whose volatile schema is empty.\<close>

definition file_ok :: "hive_file \<Rightarrow> bool" where
  "file_ok f \<longleftrightarrow> db_ok (hf_db f) \<and> db_volatile (hf_db f) = empty_schema"

lemma main_targets_some: "db_ok d \<Longrightarrow> None \<notin> set (main_targets d)"
  by (auto simp: main_targets_def db_ok_def paths_ok_def table_ok_def list_all_iff path_row_ok_def
      target_guid_type_def target_hidden_type_def split: option.splits)

lemma orphan_key_iff:
  assumes "db_ok d"
  shows "orphan_key d r \<longleftrightarrow> kr_parent_guid r \<noteq> None \<and> Some (kr_guid r) \<notin> set (main_targets d)"
  using main_targets_some [OF assms] by (auto simp: orphan_key_def sql_not_in_def)

lemma swept_fields [simp]:
  "db_volatile (swept d) = db_volatile d" "s_path_entries (db_main (swept d)) = s_path_entries (db_main d)"
  "main_targets (swept d) = main_targets d"
  "s_keys (db_main (swept d)) = filter (\<lambda>r. \<not> orphan_key d r) (s_keys (db_main d))"
  "s_values (db_main (swept d)) = filter (\<lambda>r. Some (vr_key_guid r) \<notin> set (orphan_guids d)) (s_values (db_main d))"
  "s_blankets (db_main (swept d)) = filter (\<lambda>r. Some (br_key_guid r) \<notin> set (orphan_guids d)) (s_blankets (db_main d))"
proof -
  have steps: "main_targets (delete_orphan_values d) = main_targets d" "main_targets (delete_orphan_blankets d) = main_targets d"
    "main_targets (delete_orphan_keys d) = main_targets d" for d
    by (simp_all add: main_targets_def delete_orphan_values_def delete_orphan_blankets_def delete_orphan_keys_def)
  then have orphans: "orphan_key (delete_orphan_values d) = orphan_key d" "orphan_key (delete_orphan_blankets d) = orphan_key d" for d
    by (simp_all add: orphan_key_def fun_eq_iff)
  have guids: "orphan_guids (delete_orphan_values d) = orphan_guids d" for d
    unfolding orphan_guids_def orphans by (simp add: delete_orphan_values_def)
  show "db_volatile (swept d) = db_volatile d" "s_path_entries (db_main (swept d)) = s_path_entries (db_main d)"
    "main_targets (swept d) = main_targets d"
    by (simp_all add: swept_def steps) (simp_all add: delete_orphan_values_def delete_orphan_blankets_def delete_orphan_keys_def)
  show "s_keys (db_main (swept d)) = filter (\<lambda>r. \<not> orphan_key d r) (s_keys (db_main d))"
    by (simp add: swept_def delete_orphan_keys_def orphans delete_where_def)
      (simp add: delete_orphan_values_def delete_orphan_blankets_def)
  show "s_values (db_main (swept d)) = filter (\<lambda>r. Some (vr_key_guid r) \<notin> set (orphan_guids d)) (s_values (db_main d))"
    by (simp add: swept_def delete_orphan_keys_def delete_orphan_blankets_def)
      (simp add: delete_orphan_values_def delete_where_def sql_in_def)
  show "s_blankets (db_main (swept d)) = filter (\<lambda>r. Some (br_key_guid r) \<notin> set (orphan_guids d)) (s_blankets (db_main d))"
    by (simp add: swept_def delete_orphan_keys_def delete_orphan_blankets_def guids delete_where_def sql_in_def)
      (simp add: delete_orphan_values_def)
qed

lemma swept_no_orphans: "orphan_guids (swept d) = []"
proof -
  have "orphan_key (swept d) = orphan_key d" by (simp add: orphan_key_def fun_eq_iff)
  then show ?thesis by (auto simp: orphan_guids_def filter_empty_conv)
qed

lemma swept_same:
  assumes "orphan_guids d = []"
  shows "swept d = d"
proof -
  have "filter (\<lambda>r. \<not> orphan_key d r) (s_keys (db_main d)) = s_keys (db_main d)"
    using assms by (auto simp: orphan_guids_def filter_empty_conv filter_id_conv)
  then have "db_main (swept d) = db_main d" by (intro schema.equality) (simp_all add: assms)
  then show ?thesis by (intro db.equality) simp_all
qed

lemma db_ok_swept: "db_ok d \<Longrightarrow> db_ok (swept d)"
  unfolding swept_def delete_orphan_keys_def delete_orphan_blankets_def delete_orphan_values_def by (intro db_ok_delete)

lemma parentless_swept [simp]: "parentless (swept d) = parentless d"
proof -
  have "filter (\<lambda>r. kr_parent_guid r = None) (filter (\<lambda>r. \<not> orphan_key d r) xs) = filter (\<lambda>r. kr_parent_guid r = None) xs" for xs
    by (induction xs) (auto simp: orphan_key_def)
  then show ?thesis by (simp add: parentless_def)
qed

lemma rooted_ok:
  assumes "rooted name fresh d g d'" and "db_ok d" and "length fresh = 16" and "db_volatile d = empty_schema"
  shows "db_ok d'" "db_volatile d' = empty_schema" "length g = 16" "g \<in> set (parentless d')"
    "s_path_entries (db_main d') = s_path_entries (db_main d)" "length (parentless d') = max 1 (length (parentless d))"
proof -
  show "length g = 16" "db_volatile d' = empty_schema" "s_path_entries (db_main d') = s_path_entries (db_main d)"
    using assms by (auto simp: rooted_def)
  consider (old) "d' = d" "g \<in> set (parentless d)"
    | (new) now where "parentless d = []" "g = fresh" "fresh \<notin> kr_guid ` set (s_keys (db_main d))"
        "d' = map_schema Main (\<lambda>s. s\<lparr>s_keys := s_keys (db_main d) @ [root_row name fresh now]\<rparr>) d"
    using assms(1) by (auto simp: rooted_def)
  then have "db_ok d' \<and> g \<in> set (parentless d') \<and> length (parentless d') = max 1 (length (parentless d))"
  proof cases
    case old
    then have "parentless d \<noteq> []" by auto
    then show ?thesis using old assms(2) by (simp add: Suc_le_eq)
  next
    case new
    have "parentless d' = parentless d @ [fresh]" by (simp add: new(4) parentless_def root_row_def)
    moreover have "db_ok d'"
      unfolding new(4) using db_ok_insert_key [of d Main "root_row name fresh now"] assms new(3)
      by (simp add: key_row_ok_def root_row_def empty_schema_def)
    ultimately show ?thesis using new by simp
  qed
  then show "db_ok d'" "g \<in> set (parentless d')" "length (parentless d') = max 1 (length (parentless d))" by simp_all
qed

lemma opened_ok:
  assumes "opened name fresh f g f'" and "file_ok f" and "length fresh = 16"
  shows "file_ok f' \<and> length g = 16 \<and> g \<in> set (parentless (hf_db f')) \<and> schema_version \<in> set (version_rows f') \<and>
    orphan_guids (hf_db f') = [] \<and> s_path_entries (db_main (hf_db f')) = s_path_entries (db_main (hf_db f))"
proof -
  from assms(1) obtain d where d: "rooted name fresh (hf_db f) g d" "f' = (versioned f)\<lparr>hf_db := swept d\<rparr>"
    and v: "hf_version f = None \<or> schema_version \<in> set (version_rows f)" by (auto simp: opened_def)
  note ok = rooted_ok [OF d(1) _ assms(3)]
  have "schema_version \<in> set (version_rows f')" using v by (auto simp: d(2) version_rows_def versioned_def)
  with ok assms(2) show ?thesis by (simp add: file_ok_def d(2) db_ok_swept swept_no_orphans)
qed

lemma half_opened_ok:
  assumes "half_opened name fresh f f'" and "file_ok f" and "length fresh = 16"
  shows "file_ok f'"
  using assms rooted_ok(1,2) [of name fresh "hf_db f"] by (auto simp: half_opened_def file_ok_def)

text \<open>A second start finds the root and changes nothing.\<close>

lemma opened_again:
  assumes "opened name fresh f g f'" and "opened name' fresh' f' g' f''" and "file_ok f" and "length fresh = 16"
    and "length (parentless (hf_db f)) \<le> 1"
  shows "g' = g \<and> f'' = f'"
proof -
  from assms(1) obtain d where d: "rooted name fresh (hf_db f) g d" "f' = (versioned f)\<lparr>hf_db := swept d\<rparr>"
    by (auto simp: opened_def)
  note ok = rooted_ok [OF d(1) _ assms(4)]
  have one: "length (parentless d) = 1" "g \<in> set (parentless d)"
    using ok(4,6) assms(3,5) by (simp_all add: file_ok_def)
  then have p: "parentless d = [g]" by (auto simp: length_Suc_conv)
  from assms(2) obtain d2 where d2: "rooted name' fresh' (hf_db f') g' d2" "f'' = (versioned f')\<lparr>hf_db := swept d2\<rparr>"
    by (auto simp: opened_def)
  have "d2 = swept d \<and> g' = g" using d2(1) p by (auto simp: d(2) rooted_def)
  moreover have "versioned f' = f'" by (auto simp: d(2) versioned_def)
  ultimately show ?thesis by (simp add: d2(2) swept_same [OF swept_no_orphans]) (simp add: d(2))
qed

section \<open>The maximum sequence\<close>

lemma sql_max_Some: "sql_max xs = Some m \<longleftrightarrow> xs \<noteq> [] \<and> m = Max (set xs)"
proof -
  have "foldl max x xs = Max (set (x # xs))" for x and xs :: "int list"
  proof (induction xs arbitrary: x)
    case (Cons a xs)
    have "Max (insert (max x a) (set xs)) = max x (Max (insert a (set xs)))"
      by (cases "set xs = {}") (simp_all add: max.assoc)
    with Cons show ?case by simp
  qed simp
  then show ?thesis by (cases xs) (auto simp: sql_max_def)
qed

lemma sql_max_None [simp]: "sql_max xs = None \<longleftrightarrow> xs = []"
  by (simp add: sql_max_def)

definition all_sequences :: "db \<Rightarrow> u64 list" where
  "all_sequences d =
     concat (map (\<lambda>st. map pr_sequence (s_path_entries (schema_of st d)) @ map vr_sequence (s_values (schema_of st d)) @
       map br_sequence (s_blankets (schema_of st d))) [Main, Volatile])"

lemma sequences_all: "set (concat (sequences Main d @ sequences Volatile d)) = sint ` set (all_sequences d)"
  by (auto simp: sequences_def all_sequences_def)

lemma map_filter_set: "set (List.map_filter f xs) = {y. \<exists>x\<in>set xs. f x = Some y}"
  by (induction xs) (auto simp: List.map_filter_def)

lemma max_of_parts:
  "sql_max (List.map_filter sql_max xss) = (if concat xss = [] then None else Some (Max (set (concat xss))))"
proof (cases "concat xss = []")
  case True
  then have "List.map_filter sql_max xss = []" by (auto simp: List.map_filter_def filter_empty_conv)
  with True show ?thesis by simp
next
  case False
  let ?ms = "List.map_filter sql_max xss"
  have ms: "set ?ms = {Max (set xs) | xs. xs \<in> set xss \<and> xs \<noteq> []}"
    by (auto simp: map_filter_set sql_max_Some)
  have "?ms \<noteq> []"
  proof
    assume "?ms = []"
    then have "set ?ms = {}" by simp
    with False show False unfolding ms by auto
  qed
  moreover have "Max (set ?ms) = Max (set (concat xss))"
  proof (rule Max_eqI [symmetric], goal_cases)
    case (2 y)
    then obtain xs where xs: "xs \<in> set xss" "y \<in> set xs" by auto
    have "Max (set xs) \<in> set ?ms" unfolding ms using xs by auto
    then have "Max (set xs) \<le> Max (set ?ms)" by simp
    moreover have "y \<le> Max (set xs)" using xs by simp
    ultimately show ?case by simp
  next
    case 3
    have "Max (set ?ms) \<in> set ?ms" using \<open>?ms \<noteq> []\<close> by simp
    then obtain xs where "xs \<in> set xss" "xs \<noteq> []" "Max (set ?ms) = Max (set xs)" unfolding ms by auto
    then show ?case by (metis List.finite_set Max_in UN_iff set_concat set_empty)
  qed simp
  ultimately show ?thesis using False sql_max_Some [of ?ms "Max (set ?ms)"] by simp
qed

lemma max_sequence_row_eq:
  "max_sequence_row d = (if all_sequences d = [] then None else Some (Max (sint ` set (all_sequences d))))"
proof -
  have "concat (sequences Main d @ sequences Volatile d) = [] \<longleftrightarrow> all_sequences d = []"
    using sequences_all [of d] by (metis image_is_empty set_empty)
  then show ?thesis unfolding max_sequence_row_def max_of_parts sequences_all by simp
qed

section \<open>Properties\<close>

lemma initialize_hive_outcome:
  assumes "initialize_hive name fresh (e, f) = (res, e', f')"
  shows "case res of Inl err \<Rightarrow> half_opened name fresh f f' | Inr g \<Rightarrow> opened name fresh f g f'"
  using holdsD [OF holds_initialize [of f name fresh], where d = f and e = e] assms by (auto split: sum.splits)

text \<open>
  The promise of an opening, over the rows themselves: the row of a root that did not exist,
  when the keys of the file get one, and which keys the entries of the file reach.
\<close>

definition new_root :: "bytes \<Rightarrow> guid \<Rightarrow> u64 \<Rightarrow> key_row" where
  "new_root name g now =
     \<lparr>kr_guid = g, kr_name = name, kr_name_folded = fold_string name, kr_parent_guid = None,
      kr_sd = default_hive_root_sd, kr_volatile = 0, kr_symlink = 0, kr_last_write_time = now\<rparr>"

definition with_root :: "bytes \<Rightarrow> guid \<Rightarrow> key_row list \<Rightarrow> guid \<Rightarrow> key_row list \<Rightarrow> bool" where
  "with_root name fresh keys g keys' \<longleftrightarrow>
     (keys' = keys \<and> (\<exists>r. r \<in> set keys \<and> kr_guid r = g \<and> kr_parent_guid r = None)) \<or>
     (None \<notin> kr_parent_guid ` set keys \<and> g = fresh \<and> fresh \<notin> kr_guid ` set keys \<and>
      (\<exists>now. keys' = keys @ [new_root name fresh now]))"

definition reached :: "path_row list \<Rightarrow> key_row \<Rightarrow> bool" where
  "reached entries r \<longleftrightarrow>
     kr_parent_guid r = None \<or>
     (\<exists>e. e \<in> set entries \<and> pr_target_type e = target_guid_type \<and> pr_target_guid e = Some (kr_guid r))"

lemma parentless_None: "parentless d = [] \<longleftrightarrow> None \<notin> kr_parent_guid ` set (s_keys (db_main d))"
  by (force simp: parentless_def filter_empty_conv)

lemma rooted_with_root:
  assumes "rooted name fresh d g d'"
  shows "with_root name fresh (s_keys (db_main d)) g (s_keys (db_main d'))"
    "d' = d\<lparr>db_main := (db_main d)\<lparr>s_keys := s_keys (db_main d')\<rparr>\<rparr>"
  using assms by (auto simp: rooted_def with_root_def root_row_def new_root_def parentless_None) (auto simp: parentless_def)

lemma orphan_reached: "db_ok d \<Longrightarrow> orphan_key d r \<longleftrightarrow> \<not> reached (s_path_entries (db_main d)) r"
  by (force simp: orphan_key_iff reached_def main_targets_def)

lemma swept_reached:
  assumes "db_ok d"
  shows "swept d = d\<lparr>db_main :=
     \<lparr>s_keys = filter (reached (s_path_entries (db_main d))) (s_keys (db_main d)),
      s_path_entries = s_path_entries (db_main d),
      s_values = filter (\<lambda>v. \<not> (\<exists>r. r \<in> set (s_keys (db_main d)) \<and> kr_guid r = vr_key_guid v \<and>
        \<not> reached (s_path_entries (db_main d)) r)) (s_values (db_main d)),
      s_blankets = filter (\<lambda>b. \<not> (\<exists>r. r \<in> set (s_keys (db_main d)) \<and> kr_guid r = br_key_guid b \<and>
        \<not> reached (s_path_entries (db_main d)) r)) (s_blankets (db_main d))\<rparr>\<rparr>"
proof -
  have "Some g \<in> set (orphan_guids d) \<longleftrightarrow>
      (\<exists>r. r \<in> set (s_keys (db_main d)) \<and> kr_guid r = g \<and> \<not> reached (s_path_entries (db_main d)) r)" for g
    using orphan_reached [OF assms] by (auto simp: orphan_guids_def)
  then have "db_main (swept d) =
     \<lparr>s_keys = filter (reached (s_path_entries (db_main d))) (s_keys (db_main d)),
      s_path_entries = s_path_entries (db_main d),
      s_values = filter (\<lambda>v. \<not> (\<exists>r. r \<in> set (s_keys (db_main d)) \<and> kr_guid r = vr_key_guid v \<and>
        \<not> reached (s_path_entries (db_main d)) r)) (s_values (db_main d)),
      s_blankets = filter (\<lambda>b. \<not> (\<exists>r. r \<in> set (s_keys (db_main d)) \<and> kr_guid r = br_key_guid b \<and>
        \<not> reached (s_path_entries (db_main d)) r)) (s_blankets (db_main d))\<rparr>"
    using orphan_reached [OF assms] by (intro schema.equality) simp_all
  then show ?thesis by (intro db.equality) simp_all
qed

text \<open>C25: opening a hive succeeds only with a file that is ready to serve: its version is the
  supported one, the GUID that is returned is that of a key without parent, and this key was
  in the file or is a new root under the name of the hive.  Exactly the keys with a parent
  that no entry targets are gone, with exactly their values and tombstones; every other row
  of the file, and its version table, is the one the file held.\<close>

theorem hive_opens:
  assumes "initialize_hive name fresh (e, f) = (Inr g, e', f')" and "file_ok f" and "length fresh = 16"
  shows "file_ok f' \<and> length g = 16 \<and> 1 \<in> set (version_rows f') \<and>
    hf_version f' = (if hf_version f = None then Some [1] else hf_version f) \<and>
    (\<exists>keys. with_root name fresh (s_keys (db_main (hf_db f))) g keys \<and>
      (let entries = s_path_entries (db_main (hf_db f));
           orphaned = (\<lambda>g. \<exists>r. r \<in> set keys \<and> kr_guid r = g \<and> \<not> reached entries r)
       in hf_db f' = (hf_db f)\<lparr>db_main :=
         \<lparr>s_keys = filter (reached entries) keys, s_path_entries = entries,
          s_values = filter (\<lambda>v. \<not> orphaned (vr_key_guid v)) (s_values (db_main (hf_db f))),
          s_blankets = filter (\<lambda>b. \<not> orphaned (br_key_guid b)) (s_blankets (db_main (hf_db f)))\<rparr>\<rparr>))"
proof -
  have opened: "opened name fresh f g f'" using initialize_hive_outcome [OF assms(1)] by simp
  then obtain d where d: "rooted name fresh (hf_db f) g d" "f' = (versioned f)\<lparr>hf_db := swept d\<rparr>"
    by (auto simp: opened_def)
  have ok: "db_ok d" using rooted_ok(1) [OF d(1) _ assms(3)] assms(2) by (simp add: file_ok_def)
  note root = rooted_with_root [OF d(1)]
  have "s_path_entries (db_main d) = s_path_entries (db_main (hf_db f))" "s_values (db_main d) = s_values (db_main (hf_db f))"
    "s_blankets (db_main d) = s_blankets (db_main (hf_db f))" "d\<lparr>db_main := x\<rparr> = (hf_db f)\<lparr>db_main := x\<rparr>" for x
    by (subst root(2), simp)+
  with swept_reached [OF ok] root(1) opened_ok [OF opened assms(2,3)] show ?thesis
    by (intro conjI exI [of _ "s_keys (db_main d)"]) (auto simp: d(2) versioned_def schema_version_def Let_def)
qed

definition boot_env :: env where "boot_env = \<lparr>env_now = 0, env_epoch = 0, env_events = []\<rparr>"

definition boot_guid :: guid where "boot_guid = replicate 16 7"

lemma file_ok_new [simp]: "file_ok empty_file"
  by (simp add: file_ok_def empty_file_def) (simp add: empty_db_def)

text \<open>Without faults and delays every statement has the effect of its text.\<close>

lemma boot_sql:
  "bg_exec h (boot_env, d) = (case h d of None \<Rightarrow> (Inl Err_Unique, boot_env, d) | Some d' \<Rightarrow> (Inr (), boot_env, d'))"
  "bg_query_row q (boot_env, d) = ((case q d of [] \<Rightarrow> Inl Err_No_Rows | r # _ \<Rightarrow> Inr r), boot_env, d)"
  for h :: "'d \<Rightarrow> 'd option" and q :: "'d \<Rightarrow> 'r list" and d
proof -
  have "arrange [] xs = xs" for xs :: "'r list" using length_arrange [of "[]" xs] by (auto simp: arrange_def)
  then show "bg_exec h (boot_env, d) = (case h d of None \<Rightarrow> (Inl Err_Unique, boot_env, d) | Some d' \<Rightarrow> (Inr (), boot_env, d'))"
    "bg_query_row q (boot_env, d) = ((case q d of [] \<Rightarrow> Inl Err_No_Rows | r # _ \<Rightarrow> Inr r), boot_env, d)"
    by (simp_all add: bg_exec_def bg_query_row_def background_def next_event_def boot_env_def quiet_def Let_def split: option.split list.split)
qed

lemmas boot_steps = ok_def fail_def and_then_def on_error_def in_tx_def boot_sql

lemma boot_new: "\<exists>f. initialize_hive name boot_guid (boot_env, empty_file) = (Inr boot_guid, boot_env, f)"
proof -
  have schema: "ensure_schema (boot_env, empty_file) = (Inr (), boot_env, versioned empty_file)"
    by (simp add: ensure_schema_def create_schema_def boot_steps empty_file_def version_rows_def versioned_def)
  have "parentless (hf_db (versioned empty_file)) = []" by (simp add: versioned_def empty_file_def parentless_def empty_db_def empty_schema_def)
  then have "\<exists>f. ensure_root_key name boot_guid (boot_env, versioned empty_file) = (Inr boot_guid, boot_env, f)"
    by (simp add: ensure_root_key_def boot_steps insert_root_def insert_row_def versioned_def empty_file_def empty_db_def empty_schema_def)
  with schema show ?thesis by (auto simp: initialize_hive_def clean_orphans_def boot_steps)
qed

lemma boot_again:
  assumes "hf_version f = Some [1]" and "parentless (hf_db f) = [g]" and "length g = 16"
  shows "\<exists>f'. initialize_hive name fresh (boot_env, f) = (Inr g, boot_env, f')"
proof -
  have "ensure_schema (boot_env, f) = (Inr (), boot_env, f)"
    using assms(1) by (simp add: ensure_schema_def validate_schema_version_def boot_steps version_rows_def schema_version_def)
  with assms(2,3) show ?thesis
    by (simp add: initialize_hive_def ensure_root_key_def clean_orphans_def boot_steps)
qed

theorem hive_opens_witness:
  "\<exists>f' now. initialize_hive [] boot_guid (boot_env, empty_file) = (Inr boot_guid, boot_env, f') \<and>
     hf_version f' = Some [1] \<and> s_keys (db_main (hf_db f')) = [new_root [] boot_guid now]"
proof -
  obtain f where f: "initialize_hive [] boot_guid (boot_env, empty_file) = (Inr boot_guid, boot_env, f)" using boot_new by blast
  have none: "hf_version empty_file = None" "s_keys (db_main (hf_db empty_file)) = []"
    by (simp_all add: empty_file_def empty_db_def empty_schema_def)
  have "length boot_guid = 16" by (simp add: boot_guid_def)
  from hive_opens [OF f file_ok_new this] none obtain keys where
    "hf_version f = Some [1]" "with_root [] boot_guid [] boot_guid keys"
    "s_keys (db_main (hf_db f)) = filter (reached (s_path_entries (db_main (hf_db empty_file)))) keys"
    by (auto simp: Let_def)
  with f show ?thesis by (auto simp: with_root_def reached_def new_root_def)
qed


text \<open>The sixth statement of a first start, the schema of the volatile database, fails.\<close>

definition failing_env :: env where
  "failing_env = boot_env\<lparr>env_events := replicate 5 quiet @ [quiet\<lparr>ev_fault := Some 10\<rparr>]\<rparr>"


text \<open>C27: a file of any other schema version, newer or older, is refused, and none of its tables is
  touched.\<close>

theorem schema_version_guard:
  assumes "hf_version f = Some rows" and "schema_version \<notin> set rows"
  shows "\<exists>err e'. initialize_hive name fresh (e, f) = (Inl err, e', f)"
proof -
  obtain res e' f' where i: "initialize_hive name fresh (e, f) = (res, e', f')" by (metis surj_pair)
  with initialize_hive_outcome [OF i] assms show ?thesis
    by (cases res) (auto simp: opened_def half_opened_def version_rows_def versioned_def)
qed

theorem schema_version_guard_witness: "\<exists>err e'. initialize_hive [] boot_guid (boot_env, \<lparr>hf_version = Some [2], hf_db = empty_db\<rparr>) =
    (Inl err, e', \<lparr>hf_version = Some [2], hf_db = empty_db\<rparr>)"
  using schema_version_guard [of "\<lparr>hf_version = Some [2], hf_db = empty_db\<rparr>" "[2]" "[]" boot_guid boot_env]
  by (simp add: schema_version_def)

text \<open>C28: a later start of an opened file, under any name and with any random GUID, serves the
  same root key and leaves the file as it is.\<close>

theorem restart_changes_nothing:
  assumes "initialize_hive name fresh (e, f) = (Inr g, e', f')"
    and "initialize_hive name' fresh' (e2, f') = (Inr g', e2', f'')"
    and "file_ok f" and "length fresh = 16" and "length (parentless (hf_db f)) \<le> 1"
  shows "g' = g \<and> f'' = f'"
  using opened_again [of name fresh f g f' name' fresh' g' f''] initialize_hive_outcome [OF assms(1)]
    initialize_hive_outcome [OF assms(2)] assms(3-5) by simp

theorem restart_changes_nothing_witness:
  "\<exists>f. initialize_hive [] boot_guid (boot_env, empty_file) = (Inr boot_guid, boot_env, f) \<and>
     initialize_hive [] (replicate 16 9) (boot_env, f) = (Inr boot_guid, boot_env, f)"
proof -
  obtain f where f: "initialize_hive [] boot_guid (boot_env, empty_file) = (Inr boot_guid, boot_env, f)" using boot_new by blast
  have fresh: "length boot_guid = 16" by (simp add: boot_guid_def)
  have empty: "parentless (hf_db empty_file) = []" by (simp add: empty_file_def parentless_def empty_db_def empty_schema_def)
  have "opened [] boot_guid empty_file boot_guid f" using initialize_hive_outcome [OF f] by simp
  then obtain d where d: "rooted [] boot_guid (hf_db empty_file) boot_guid d" "f = (versioned empty_file)\<lparr>hf_db := swept d\<rparr>"
    by (auto simp: opened_def)
  have "parentless d = [boot_guid]" using d(1) empty by (auto simp: rooted_def) (simp add: parentless_def root_row_def)
  then have "parentless (hf_db f) = [boot_guid]" "hf_version f = Some [1]"
    by (simp_all add: d(2)) (simp add: versioned_def empty_file_def schema_version_def)
  from boot_again [OF this(2,1) fresh, of "[]" "replicate 16 9"] obtain f' where
    f': "initialize_hive [] (replicate 16 9) (boot_env, f) = (Inr boot_guid, boot_env, f')" by blast
  from restart_changes_nothing [OF f f' file_ok_new fresh] f f' empty show ?thesis by simp
qed

text \<open>C40: the read pool has one to sixteen connections, whatever the number of processors; the
  round robin stays inside it for every value of its 32-bit counter, and takes the next
  connection at every call but the one that wraps the counter.\<close>

theorem read_pool_round_robin:
  fixes c :: u32 and num_cpu :: int
  defines "pool \<equiv> nat (read_pool_size num_cpu)"
  shows "1 \<le> pool \<and> pool \<le> 16 \<and> fst (read_db pool c) < pool \<and>
    (c = - 1 \<or> fst (read_db pool (snd (read_db pool c))) = (fst (read_db pool c) + 1) mod pool)"
proof -
  have pool: "1 \<le> pool" "pool \<le> 16"
    by (auto simp: pool_def read_pool_size_def max_read_connections_def Let_def)
  have p32: "unat (word_of_nat pool :: u32) = pool" using pool by (simp add: unat_of_nat)
  have at: "fst (read_db pool c) = unat c mod pool" for c :: u32
    by (simp add: read_db_def unat_mod p32)
  have "unat (c + 1) = unat c + 1" if "c \<noteq> - 1"
  proof -
    from that have "1 + c \<noteq> 0" by (metis add.commute eq_neg_iff_add_eq_0)
    then show ?thesis using unatSuc [of c] by (simp add: add.commute)
  qed
  then have "c = - 1 \<or> fst (read_db pool (c + 1)) = (fst (read_db pool c) + 1) mod pool"
    by (cases "c = - 1") (simp_all add: at mod_Suc_eq)
  moreover have "snd (read_db pool c) = c + 1" by (simp add: read_db_def)
  ultimately show ?thesis using pool at [of c] by simp
qed

lemma max_sequence_value:
  assumes "max_sequence (e, f) = (Inr m, e', f')" and "list_all (\<lambda>s. s < 2 ^ 63) (all_sequences (hf_db f))"
  shows "list_all (\<lambda>s. s \<le> m) (all_sequences (hf_db f)) \<and> (m = 0 \<or> m \<in> set (all_sequences (hf_db f))) \<and> f' = f"
proof -
  let ?all = "all_sequences (hf_db f)"
  have "holds (\<lambda>d. d = f) max_sequence
      (\<lambda>m d. d = f \<and> m = (case max_sequence_row (hf_db f) of None \<Rightarrow> 0 | Some n \<Rightarrow> word_of_int n)) (\<lambda>_ _. True)"
    unfolding max_sequence_def
    by (rule holds_and_then [where R = "\<lambda>r d. d = f \<and> r = max_sequence_row (hf_db f)"])
      (auto intro!: holds_bg_query_row holds_ok split: option.split)
  from holdsD [OF this, where d = f and e = e] assms(1)
  have m: "m = (if ?all = [] then 0 else word_of_int (Max (sint ` set ?all)))" "f' = f"
    by (simp_all add: max_sequence_row_eq split: if_splits)
  show ?thesis
  proof (cases "?all = []")
    case False
    then have "Max (sint ` set ?all) \<in> sint ` set ?all" by (intro Max_in) simp_all
    then obtain s where s: "s \<in> set ?all" "sint s = Max (sint ` set ?all)" by auto
    then have ms: "m = s" using m False by (simp flip: s(2))
    have "t \<le> s" if "t \<in> set ?all" for t
    proof -
      have "sint t \<le> sint s" using that s by simp
      moreover have "sint x = uint x" if "x \<in> set ?all" for x
      proof -
        have "x < 2 ^ 63" using assms(2) that by (simp add: list_all_iff)
        then have "uint x < 2 ^ 63" by (simp add: word_less_def)
        then show ?thesis by (simp add: sint_uint signed_take_bit_int_eq_self_iff order_trans [OF _ uint_ge_0])
      qed
      ultimately show ?thesis using that s(1) by (simp add: word_le_def)
    qed
    with ms s m(2) show ?thesis by (simp add: list_all_iff)
  qed (simp add: m)
qed

lemma max_sequence_cases:
  assumes "max_sequence (e, f) = (res, e', f')"
  shows "f' = f \<and> (\<forall>m. res = Inr m \<longrightarrow> list_all (\<lambda>s. s < 2 ^ 63) (all_sequences (hf_db f)) \<longrightarrow> list_all (\<lambda>s. s \<le> m) (all_sequences (hf_db f)))"
proof -
  have "holds (\<lambda>d. d = f) max_sequence (\<lambda>_ d. d = f) (\<lambda>_ d. d = f)"
    unfolding max_sequence_def
    by (rule holds_and_then [where R = "\<lambda>_ d. d = f"]) (auto intro!: holds_bg_query_row holds_ok split: option.split)
  from holdsD [OF this, where d = f and e = e] assms have "f' = f" by (auto split: sum.splits)
  with max_sequence_value [of e f _ e' f'] assms show ?thesis by auto
qed

text \<open>The sequence a hive reports is at least every sequence its tables hold, in both
  schemas, and is one of them, or 0 when there is none.\<close>

theorem max_sequence_exact:
  assumes "max_sequence (e, f) = (Inr m, e', f')" and "list_all (\<lambda>s. s < 2 ^ 63) (all_sequences (hf_db f))"
  shows "list_all (\<lambda>s. s \<le> m) (all_sequences (hf_db f)) \<and> (m = 0 \<or> m \<in> set (all_sequences (hf_db f))) \<and> f' = f"
  by (rule max_sequence_value [OF assms])

theorem max_sequence_exact_witness: "\<exists>e'. max_sequence (boot_env, empty_file) = (Inr 0, e', empty_file)"
proof -
  obtain m e' f' where m: "max_sequence (boot_env, empty_file) = (m, e', f')" by (metis surj_pair)
  have all: "all_sequences (hf_db empty_file) = []" by (simp add: all_sequences_def empty_file_def empty_db_def empty_schema_def)
  have "m = Inr 0" using m
    by (simp add: max_sequence_def and_then_def bg_query_row_def background_def next_event_def boot_env_def quiet_def Let_def
        max_sequence_row_eq all ok_def)
  with max_sequence_exact [of boot_env empty_file 0 e' f'] m all show ?thesis by simp
qed

end
