(* ===== verification/Effects.thy ===== *)
theory Effects
  imports Db_Inv
begin

unbundle bit_operations_syntax

text \<open>
  What a request may do to the daemon's state.  A relation between the world before and after
  a request is an instance of \<open>read_effects\<close> when it allows the bookkeeping every request
  does on its own transaction \<open>me\<close>, of \<open>bind_effects\<close> when it also allows taking the working
  copy, and of \<open>write_effects\<close> when it also allows the two ways of writing: on the working copy
  of \<open>me\<close>, and at once on a hive that no transaction writes.
  Inside the locales every handler is shown to stay within such a relation, once; the
  invariant, the isolation of transactions and the rejection of writes by read-only ones are
  interpretations.
\<close>

section \<open>The interfaces\<close>

text \<open>A hive a request may work on: one of the daemon's, or what the GUID cache says is one.\<close>

definition known :: "bytes \<Rightarrow> world \<Rightarrow> bool" where
  "known h w \<longleftrightarrow> find_hive h w \<noteq> None \<or> (\<exists>g. w_cache w g = Some h)"

lemma known_updates [world_simps]:
  "known h (put_txn i info w) = known h w" "known h (publish k d w) = known h w" "known h (w\<lparr>w_env := e\<rparr>) = known h w"
  by (simp_all add: known_def world_simps)

lemma known_env: "env_step w w' \<Longrightarrow> known h w' = known h w"
  by (simp add: known_def env_step_sees)

lemma known_listed: "h \<in> set (map fst (w_hives w)) \<Longrightarrow> known h w"
  by (auto simp: known_def find_hive_def map_of_eq_None_iff)

locale read_effects =
  fixes R :: "world \<Rightarrow> world \<Rightarrow> bool" and me :: u64
  assumes refl [simp]: "R w w"
    and trans: "R w w' \<Longrightarrow> R w' w'' \<Longrightarrow> R w w''"
    and env: "env_step w w' \<Longrightarrow> R w w'"
    and expire: "find_txn me w = Some info \<Longrightarrow> R w (put_txn me (lease_expired now info) w)"
    and binding: "find_txn me w = Some info \<Longrightarrow> R w (put_txn me (info\<lparr>ti_binding := b\<rparr>) w)"
    and interrupt: "find_txn me w = Some info \<Longrightarrow> ti_conn info \<noteq> None \<Longrightarrow>
      R w (put_txn me (info\<lparr>ti_conn := None, ti_snapshot_db := False, ti_failed := True\<rparr>) w)"
    and snapshot: "known h w \<Longrightarrow> me \<noteq> 0 \<Longrightarrow> find_txn me w = Some info \<Longrightarrow> ti_read_only info \<Longrightarrow> \<not> ti_failed info \<Longrightarrow> ti_conn info = None \<Longrightarrow>
      R w (put_txn me (info\<lparr>ti_hive := Some h, ti_snapshot_db := True, ti_conn := Some (hive_db h w), ti_binding := False\<rparr>) w)"
    and cached: "known h w \<Longrightarrow> R w (cache_store g h w)"

locale bind_effects = read_effects +
  assumes bind: "known h w \<Longrightarrow> me \<noteq> 0 \<Longrightarrow> find_txn me w = Some info \<Longrightarrow> \<not> ti_read_only info \<Longrightarrow> \<not> ti_failed info \<Longrightarrow> ti_conn info = None \<Longrightarrow>
      \<not> other_writer h me w \<Longrightarrow>
      R w (put_txn me (info\<lparr>ti_hive := Some h, ti_conn := Some (hive_db h w), ti_binding := False\<rparr>) w)"

locale write_effects = bind_effects +
  assumes pinned: "me \<noteq> 0 \<Longrightarrow> find_txn me w = Some info \<Longrightarrow> ti_conn info = Some d \<Longrightarrow> \<not> ti_read_only info \<Longrightarrow> mutation d d' \<Longrightarrow>
      R w (put_txn me (info\<lparr>ti_conn := Some d'\<rparr>) w)"
    and published: "mutation_allowed me w = None \<Longrightarrow> \<not> other_writer h 0 w \<Longrightarrow> mutation (hive_db h w) d \<Longrightarrow>
      R w (publish h d w)"
    and evicted: "R w (cache_delete g w)"
    and on_commit: "find_txn me w = Some info \<Longrightarrow> R w (put_txn me (info\<lparr>ti_on_commit := gs\<rparr>) w)"
    and on_abort: "find_txn me w = Some info \<Longrightarrow> R w (put_txn me (info\<lparr>ti_on_abort := gs\<rparr>) w)"

section \<open>Requests that only read\<close>

definition pure_act :: "'a act \<Rightarrow> bool" where
  "pure_act m \<longleftrightarrow> (\<forall>e d. snd (snd (m (e, d))) = d)"

lemma pure_actI: "(\<And>d0. holds (\<lambda>d. d = d0) m (\<lambda>_ d. d = d0) (\<lambda>_ d. d = d0)) \<Longrightarrow> pure_act m"
  unfolding pure_act_def
proof (intro allI)
  fix e d assume "\<And>d0. holds (\<lambda>d. d = d0) m (\<lambda>_ d. d = d0) (\<lambda>_ d. d = d0)"
  from holdsD [OF this [of d], of d e] show "snd (snd (m (e, d))) = d"
    by (cases "m (e, d)"; cases "fst (m (e, d))") auto
qed

lemma pure_query_row [act_rules]: "pure_act (sql_query_row dl q)"
  by (rule pure_actI, rule holds_sql_query_row) auto

lemma pure_query [act_rules]: "pure_act (sql_query dl q)"
  by (rule pure_actI, rule holds_sql_query) auto

lemma pure_ok [act_rules]: "pure_act (ok x)" and pure_fail [act_rules]: "pure_act (fail e)"
  by (simp_all add: pure_act_def ok_def fail_def)

lemma pure_on_error [act_rules]:
  "pure_act m \<Longrightarrow> (\<And>e. pure_act (h e)) \<Longrightarrow> (\<And>x. pure_act (k x)) \<Longrightarrow> pure_act (on_error m h k)"
proof (unfold pure_act_def, intro allI)
  fix e d assume m: "\<forall>e d. snd (snd (m (e, d))) = d" and k: "\<And>e. \<forall>e' d. snd (snd (h e (e', d))) = d"
    "\<And>x. \<forall>e' d. snd (snd (k x (e', d))) = d"
  obtain res e' d' where run: "m (e, d) = (res, e', d')" by (cases "m (e, d)")
  from m [rule_format, of e d] have "d' = d" by (simp add: run)
  with run k show "snd (snd (on_error m h k (e, d))) = d" by (cases res) (simp_all add: on_error_def)
qed

lemma pure_and_then [act_rules]: "pure_act m \<Longrightarrow> (\<And>x. pure_act (k x)) \<Longrightarrow> pure_act (and_then m k)"
proof -
  assume m: "pure_act m" and k: "\<And>x. pure_act (k x)"
  have "and_then m k = on_error m fail k" by (simp add: and_then_def on_error_def fail_def fun_eq_iff split: sum.split prod.split)
  with m k show ?thesis by (simp add: pure_on_error pure_fail)
qed

lemma pure_if [act_rules]: "pure_act m \<Longrightarrow> pure_act m' \<Longrightarrow> pure_act (if c then m else m')"
  by simp

lemma pure_case_prod [act_rules]: "(\<And>x y. pure_act (f x y)) \<Longrightarrow> pure_act (case p of (x, y) \<Rightarrow> f x y)"
  by (cases p) simp

lemma pure_is_volatile: "pure_act (is_volatile_q dl g)"
  unfolding is_volatile_q_def by (intro act_rules)

lemma pure_read_metadata: "pure_act (read_metadata_loop dl gs meta dangling)"
  by (induction gs arbitrary: meta dangling)
    (auto simp: read_key_meta_def intro!: pure_ok pure_on_error pure_and_then pure_query_row pure_if pure_fail)

lemma pure_lookup: "pure_act (lookup_act dl req)"
  unfolding lookup_act_def lookup_rows_def Let_def read_referenced_metadata_def
  by (intro act_rules pure_read_metadata)

lemma pure_enum: "pure_act (enum_children_act dl req)"
  unfolding enum_children_act_def enum_rows_def Let_def read_referenced_metadata_def
  by (intro act_rules pure_read_metadata)

lemma pure_read_key: "pure_act (read_key_full dl g)"
  unfolding read_key_full_def by (intro act_rules)

lemma pure_query_values: "pure_act (query_values_act dl req)"
  unfolding query_values_act_def query_value_entries_def query_blanket_tombstones_def by (intro act_rules)

lemma put_view_same: "put_view q (view q w) w = w"
proof -
  have "info\<lparr>ti_conn := Some d\<rparr> = info" if "ti_conn info = Some d" for info :: txn_info and d using that by simp
  then show ?thesis
    by (cases q) (auto simp: put_view_def view_def publish_same put_txn_same split: option.splits)
qed

lemma view_env [simp]: "view q (w\<lparr>w_env := e\<rparr>) = view q w"
  by (simp add: view_def world_simps split: querier.split)

lemma run_on_pure: "pure_act m \<Longrightarrow> env_step w (snd (run_on q m w))"
proof -
  assume "pure_act m"
  then have "snd (snd (m (w_env w, view q w))) = view q w" by (simp add: pure_act_def)
  then show ?thesis
    using put_view_same [of q "w\<lparr>w_env := fst (snd (m (w_env w, view q w)))\<rparr>"]
    by (simp add: run_on_def case_prod_beta)
qed

lemma and_then_env:
  "(\<And>w. env_step w (snd (m w))) \<Longrightarrow> (\<And>x w. env_step w (snd (k x w))) \<Longrightarrow> env_step w (snd (and_then m k w))"
  by (simp add: and_then_def split: sum.split prod.split) (metis env_step_trans snd_conv)

lemma open_snapshot_env: "env_step w (snd (open_pinned_snapshot dl h w))"
  unfolding open_pinned_snapshot_def by (intro and_then_env env_step_calls) simp

lemma open_snapshot_view: "open_pinned_snapshot dl h w = (Inr d, w') \<Longrightarrow> d = hive_db h w'"
  by (auto simp: open_pinned_snapshot_def and_then_def split: sum.splits prod.splits)

lemma resolve_loop_known: "resolve_loop r g hs w = (Inr (Some h), w') \<Longrightarrow> known h w'"
  by (induction r g hs w rule: resolve_loop.induct)
    (auto simp: known_def world_simps Let_def split: sum.splits prod.splits if_splits)

lemma resolve_hive_known: "resolve_hive r g w = (Inr (Some h), w') \<Longrightarrow> known h w'"
  by (cases "w_cache w g") (auto simp: resolve_hive_def case_prod_beta intro: resolve_loop_known, auto simp: known_def)

lemma start_request_txn: "start_request header w = (Inr r, w') \<Longrightarrow> rq_txn r = txnID header"
  by (auto simp: start_request_def Let_def split: if_splits sum.splits prod.splits)

lemma fold_Inl_Inr [simp]: "snd (case p of (Inl e, w) \<Rightarrow> (Inl e, w) | (Inr x, w) \<Rightarrow> (Inr y, w)) = snd p"
  by (simp split: sum.split prod.split)

context read_effects
begin

lemma elapsed: "R w (snd (elapse w))"
  by (rule env) (rule env_step_elapse)

lemma gate: "R w (snd (gate_acquire dl w))"
  by (rule env) (rule env_step_calls)

lemma lock_operation: "R w (snd (lock_operation_mode dl me mode w))"
proof (cases "find_txn me w")
  case (Some info)
  obtain res w1 where a: "acquire_in dl w = (res, w1)" by (cases "acquire_in dl w")
  have "snd (acquire_in dl w) = w1" using a by simp
  then have e: "env_step w w1"
    using env_step_calls(1) [of w "the dl"] env_step_elapse [of w] by (cases dl) (auto simp: acquire_in_def)
  then have f: "find_txn me w1 = Some info" using Some by (simp add: env_step_sees)
  have "R w1 (put_txn me (lease_expired (monotonic_ns w1) info) w1)" by (rule expire [OF f])
  then have "R w (put_txn me (lease_expired (monotonic_ns w1) info) w1)" by (rule trans [OF env [OF e]])
  with Some a f env [OF e] show ?thesis
    by (cases res) (auto simp: lock_operation_mode_def Let_def)
qed (simp add: lock_operation_mode_def)

lemma started:
  assumes "txnID header = 0 \<or> txnID header = me"
  shows "R w (snd (start_request header w))"
proof -
  define w1 where "w1 = (if session header \<noteq> 0 then snd (elapse w) else w)"
  have "R w w1" by (simp add: w1_def elapsed)
  moreover have "R w1 (snd (lock_operation_mode dl (txnID header) mode w1))" if "txnID header \<noteq> 0" for dl mode
    using assms that lock_operation by simp
  ultimately show ?thesis
    unfolding start_request_def Let_def w1_def [symmetric]
    by (auto intro: trans split: sum.split prod.split simp: split_beta dest: trans)
qed

lemma finished:
  assumes "rq_txn r = 0 \<or> rq_txn r = me"
  shows "R w (snd (finish_request r status w))"
proof -
  let ?w = "snd (elapse w)"
  have "R ?w (snd (fail_interrupted (rq_txn r) ?w))" if "rq_txn r \<noteq> 0"
    using that assms interrupt [of ?w] by (auto simp: fail_interrupted_def split: option.split)
  then show ?thesis
    using elapsed [of w] unfolding finish_request_def Let_def
    by (auto split: prod.split bool.split) (metis snd_conv trans)+
qed

lemma requested:
  assumes "txnID header = 0 \<or> txnID header = me"
    and "\<And>r w. rq_txn r = txnID header \<Longrightarrow> R w (snd (body r w))"
  shows "R w (snd (with_request header body w))"
proof -
  obtain res w1 where s: "start_request header w = (res, w1)" by (cases "start_request header w")
  have 1: "R w w1" using started [OF assms(1), of w] s by simp
  show ?thesis
  proof (cases res)
    case (Inr r)
    have txn: "rq_txn r = txnID header" using s Inr start_request_txn by simp
    have 2: "R w1 (snd (body r w1))" by (rule assms(2) [OF txn])
    have 3: "R w' (snd (finish_request r st w'))" for st w' by (rule finished) (simp add: txn assms(1))
    show ?thesis using trans [OF trans [OF 1 2] 3] s Inr
      by (simp add: with_request_def case_prod_beta Let_def)
  qed (use 1 s in \<open>simp add: with_request_def\<close>)
qed

lemma answered [simp]: "R w (snd (answer st w))"
  by (simp add: answer_def)

lemma decoded_then: "(\<And>req d w. dec = Some (req, d) \<Longrightarrow> R w (snd (k req w))) \<Longrightarrow> R w (snd (decoded dec k w))"
  by (simp add: decoded_def split: option.split)

lemma cased:
  assumes "R w (snd (m w))" and "\<And>e w'. m w = (Inl e, w') \<Longrightarrow> R w' (snd (h e w'))"
    and "\<And>x w'. m w = (Inr x, w') \<Longrightarrow> R w' (snd (k x w'))"
  shows "R w (snd (op_case m h k w))"
  using assms by (auto simp: op_case_def split: sum.split prod.split) (metis snd_conv trans)+

lemma reading: "R w (snd (read_q r h w))" if "known h w" "rq_txn r = 0 \<or> rq_txn r = me"
proof -
  have querier: "R w (snd (get_read_querier dl me h w))" if known: "known h w" "me \<noteq> 0" for dl w
  proof (cases "find_txn me w")
    case (Some info)
    define w0 where "w0 = set_binding me True w"
    have w0: "R w w0" "find_txn me w0 = Some (info\<lparr>ti_binding := True\<rparr>)"
      using Some binding [OF Some] by (simp_all add: w0_def set_binding_def world_simps)
    obtain res w1 where o: "open_pinned_snapshot dl h w0 = (res, w1)" by (cases "open_pinned_snapshot dl h w0")
    have e: "env_step w0 w1" using open_snapshot_env [of w0 dl h] o by simp
    then have f: "find_txn me w1 = Some (info\<lparr>ti_binding := True\<rparr>)" using w0 by (simp add: env_step_sees)
    have 1: "R w w1" by (rule trans [OF w0(1) env [OF e]])
    have known1: "known h w1" using known Some known_env [OF e] by (simp add: w0_def set_binding_def world_simps)
    have unbind: "R w1 (set_binding me False w1)" using f binding [OF f] by (simp add: set_binding_def)
    show ?thesis
    proof (cases res)
      case (Inl e)
      with Some o 1 trans [OF 1 unbind] show ?thesis
        unfolding get_read_querier_def w0_def [symmetric] by auto
    next
      case (Inr d)
      have "R w1 (put_txn me (info\<lparr>ti_hive := Some h, ti_snapshot_db := True, ti_conn := Some d, ti_binding := False\<rparr>) w1)"
        if "ti_read_only info" "\<not> ti_failed info" "ti_conn info = None"
        using snapshot [OF known1 known(2) f] that open_snapshot_view [of dl h w0 d w1] o Inr by simp
      with Some o Inr trans [OF 1] show ?thesis
        unfolding get_read_querier_def w0_def [symmetric] by auto
    qed
  qed (simp add: get_read_querier_def)
  obtain res w1 where g: "lock_hive r w = (res, w1)" by (cases "lock_hive r w")
  have e: "env_step w w1" using env_step_calls(1) [of w "rq_deadline r"] g by (simp add: lock_hive_def)
  have "R w (snd (get_read_querier (rq_deadline r) me h w1))" if "me \<noteq> 0"
    by (rule trans [OF env [OF e] querier [OF _ that]]) (use known_env [OF e] \<open>known h w\<close> in simp)
  then show ?thesis
    using that(2) g env [OF e]
    by (auto simp: read_q_def split: sum.split prod.split)
qed

lemma ran_pure: "pure_act m \<Longrightarrow> R w (snd (run_on q m w))"
  by (rule env) (rule run_on_pure)

lemma resolved: "R w (snd (resolve_hive r g w))"
proof -
  have loop: "R w (snd (resolve_loop r g hs w))" if "set hs \<subseteq> set (map fst (w_hives w))" for hs w
    using that
  proof (induction hs arbitrary: w)
    case (Cons h hs)
    obtain res w1 where a: "gate_acquire (rq_deadline r) w = (res, w1)" by (cases "gate_acquire (rq_deadline r) w")
    have 1: "R w w1" using gate [of w "rq_deadline r"] a by simp
    define q where "q = (if bound_querier (rq_txn r) h w1 then Pinned (rq_txn r) else Pool h)"
    obtain res2 w2 where b: "run_on q (sql_query_row (rq_deadline r) (\<lambda>d. keys_with_guid Main g d @ keys_with_guid Volatile g d)) w1 = (res2, w2)"
      by (cases "run_on q (sql_query_row (rq_deadline r) (\<lambda>d. keys_with_guid Main g d @ keys_with_guid Volatile g d)) w1")
    have 2: "R w1 w2" using ran_pure [OF pure_query_row, of w1 q] b by (metis snd_conv)
    have "env_step w1 w2" using run_on_pure [OF pure_query_row, of w1 q] b by (metis snd_conv)
    moreover have "env_step w w1" using env_step_calls(1) [of w "rq_deadline r"] a by simp
    ultimately have "w_hives w2 = w_hives w" by (simp add: env_step_sees)
    with Cons.prems have listed: "known h w2" "set hs \<subseteq> set (map fst (w_hives w2))" by (simp_all add: known_listed)
    show ?case
      using a b trans [OF trans [OF 1 2]] cached [OF listed(1)] Cons.IH [OF listed(2)] 1 trans [OF 1 2]
      by (cases res; cases res2) (simp_all add: q_def)
  qed simp
  show ?thesis
    using loop trans [OF elapsed] by (simp add: resolve_hive_def case_prod_beta split: option.split)
qed

lemma hived: "(\<And>h w. known h w \<Longrightarrow> R w (snd (k h w))) \<Longrightarrow> R w (snd (with_hive r g k w))"
proof -
  assume k: "\<And>h w. known h w \<Longrightarrow> R w (snd (k h w))"
  obtain res w1 where r: "resolve_hive r g w = (res, w1)" by (cases "resolve_hive r g w")
  have 1: "R w w1" using resolved [of w r g] r by simp
  have "R w (snd (k h w1))" if "res = Inr (Some h)" for h
    by (rule trans [OF 1 k]) (use resolve_hive_known r that in simp)
  with 1 r show ?thesis
    by (auto simp: with_hive_def resolve_hive_status_def answer_def split: sum.split option.split)
qed

lemmas effect_intros = requested decoded_then cased reading ran_pure hived answered

end

section \<open>Requests that write\<close>

definition writable :: "u64 \<Rightarrow> querier \<Rightarrow> bytes \<Rightarrow> world \<Rightarrow> bool" where
  "writable i q h w \<longleftrightarrow>
     mutation_allowed i w = None \<and>
     (case q of
        Autocommit h' \<Rightarrow> h' = h \<and> i = 0 \<and> \<not> other_writer h 0 w
      | Pool _ \<Rightarrow> False
      | Pinned j \<Rightarrow> j = i \<and> i \<noteq> 0 \<and>
          (\<exists>info. find_txn i w = Some info \<and> \<not> ti_read_only info \<and> ti_hive info = Some h \<and> ti_conn info \<noteq> None))"

lemma env_step_allowed:
  assumes "env_step w w'"
  shows "mutation_allowed i w' = mutation_allowed i w" "other_writer h i w' = other_writer h i w"
    "hive_busy h w' = hive_busy h w" "any_write_bound w' = any_write_bound w" "writable i q h w' = writable i q h w"
  using assms
  by (simp_all add: mutation_allowed_def other_writer_def hive_busy_def any_write_bound_def writable_def env_step_sees cong: querier.case_cong)

lemma bind_binds:
  "get_or_bind_write dl i h w = (Inr u, w') \<Longrightarrow>
   \<exists>info. find_txn i w' = Some info \<and> \<not> ti_read_only info \<and> ti_hive info = Some h \<and> ti_conn info \<noteq> None"
  by (auto simp: get_or_bind_write_def world_simps split: option.splits if_splits sum.splits prod.splits)

lemma write_q_writable:
  assumes "write_q r h w = (Inr q, w')"
  shows "writable (rq_txn r) q h w'"
proof -
  obtain res w1 where l: "lock_hive r w = (res, w1)" by (cases "lock_hive r w")
  have e: "env_step w w1" using env_step_calls(1) [of w "rq_deadline r"] l by (simp add: lock_hive_def)
  from assms l have allowed: "mutation_allowed (rq_txn r) w = None" and res: "res = Inr ()"
    and free: "\<not> other_writer h (rq_txn r) w1"
    by (auto simp: write_q_def split: option.splits sum.splits if_splits)
  show ?thesis
  proof (cases "rq_txn r = 0")
    case True
    with assms l allowed res free env_step_allowed [OF e] show ?thesis by (auto simp: write_q_def writable_def)
  next
    case False
    with assms l allowed res free have q: "q = Pinned (rq_txn r)" "get_or_bind_write (rq_deadline r) (rq_txn r) h w1 = (Inr (), w')"
      by (auto simp: write_q_def split: sum.splits prod.splits)
    from bind_binds [OF q(2)] False q(1) show ?thesis by (auto simp: writable_def mutation_allowed_def)
  qed
qed

lemma write_q_known: "write_q r h w = (res, w') \<Longrightarrow> known k w' = known k w"
proof -
  assume run: "write_q r h w = (res, w')"
  have calls: "known k (snd (and_then (storage_call dl) (\<lambda>_. storage_call dl) v)) = known k v" for dl v
    by (intro known_env and_then_env env_step_calls)
  have bind: "known k (snd (get_or_bind_write dl i h v)) = known k v" for dl i v
    using calls [of dl "set_binding i True v"]
    by (auto simp: get_or_bind_write_def set_binding_def world_simps case_prod_beta split: option.split sum.split prod.split)
  have lock: "known k (snd (lock_hive r w)) = known k w" unfolding lock_hive_def by (intro known_env env_step_calls)
  from run bind lock show ?thesis
    by (auto simp: write_q_def split: option.splits sum.splits prod.splits if_splits) (metis snd_conv)+
qed

lemma run_on_known: "known k (snd (run_on q m w)) = known k w"
  by (auto simp: run_on_def put_view_def world_simps case_prod_beta split: querier.split option.split)

context bind_effects
begin

lemma bound_write: "known h w \<Longrightarrow> me \<noteq> 0 \<Longrightarrow> \<not> other_writer h me w \<Longrightarrow> R w (snd (get_or_bind_write dl me h w))"
proof (cases "find_txn me w")
  case (Some info)
  assume known: "known h w" and me: "me \<noteq> 0" and free: "\<not> other_writer h me w"
  define w0 where "w0 = set_binding me True w"
  have w0: "R w w0" "find_txn me w0 = Some (info\<lparr>ti_binding := True\<rparr>)"
    using Some binding [OF Some] by (simp_all add: w0_def set_binding_def world_simps)
  have free0: "\<not> other_writer h me w0"
  proof -
    have "list_ex (\<lambda>(j, x). j \<noteq> me \<and> Q x) (AList.update me y xs) = list_ex (\<lambda>(j, x). j \<noteq> me \<and> Q x) xs" for Q y and xs :: "(u64 \<times> txn_info) list"
      by (induction xs) auto
    with free Some show ?thesis by (simp add: other_writer_def w0_def set_binding_def put_txn_def)
  qed
  obtain res w1 where o: "and_then (storage_call dl) (\<lambda>_. storage_call dl) w0 = (res, w1)"
    by (cases "and_then (storage_call dl) (\<lambda>_. storage_call dl) w0")
  have e: "env_step w0 w1" using and_then_env [of "storage_call dl" "\<lambda>_. storage_call dl" w0, OF env_step_calls(2) env_step_calls(2)] o by simp
  then have f: "find_txn me w1 = Some (info\<lparr>ti_binding := True\<rparr>)" using w0 by (simp add: env_step_sees)
  have 1: "R w w1" by (rule trans [OF w0(1) env [OF e]])
  have known1: "known h w1" using known Some known_env [OF e] by (simp add: w0_def set_binding_def world_simps)
  have unbind: "R w1 (set_binding me False w1)" using f binding [OF f] by (simp add: set_binding_def)
  have now_bound: "R w1 (put_txn me (info\<lparr>ti_hive := Some h, ti_conn := Some (hive_db h w1), ti_binding := False\<rparr>) w1)"
    if "\<not> ti_read_only info" "\<not> ti_failed info" "ti_conn info = None"
    using bind [OF known1 me f] that free0 env_step_allowed [OF e] by simp
  show ?thesis
    using Some o 1 trans [OF 1 unbind] trans [OF 1 now_bound] unfolding get_or_bind_write_def w0_def [symmetric]
    by (cases res) (auto split: if_splits)
qed (simp add: get_or_bind_write_def)

lemma writing: "known h w \<Longrightarrow> rq_txn r = me \<Longrightarrow> R w (snd (write_q r h w))"
proof -
  assume known: "known h w" and me: "rq_txn r = me"
  obtain res w1 where l: "lock_hive r w = (res, w1)" by (cases "lock_hive r w")
  have 1: "R w w1" using gate [of w "rq_deadline r"] l by (simp add: lock_hive_def)
  have "known h w1" using env_step_calls(1) [of w "rq_deadline r"] l known by (simp add: lock_hive_def known_env)
  then show ?thesis
    using me l 1 trans [OF 1 bound_write]
    by (auto simp: write_q_def split: option.split sum.split prod.split)
qed

end

context write_effects
begin

lemma ran_write:
  assumes "mutates m" and "writable me q h w"
  shows "R w (snd (run_on q m w))"
proof -
  obtain res e d where run: "m (w_env w, view q w) = (res, e, d)" by (cases "m (w_env w, view q w)")
  have mut: "mutation (view q w) d" using assms(1) run unfolding mutates_def by (metis snd_conv)
  let ?w = "w\<lparr>w_env := e\<rparr>"
  have e: "env_step w ?w" by simp
  have "R ?w (put_view q d ?w)"
  proof (cases q)
    case (Autocommit h')
    with assms(2) mut env_step_allowed [OF e] show ?thesis
      by (auto simp: writable_def put_view_def view_def world_simps intro!: published)
  next
    case (Pinned j)
    with assms(2) obtain info dv where "j = me" "me \<noteq> 0" "find_txn me w = Some info" "\<not> ti_read_only info" "ti_conn info = Some dv"
      by (auto simp: writable_def)
    with Pinned mut show ?thesis by (auto simp: put_view_def view_def world_simps intro!: pinned)
  qed (simp add: put_view_def)
  with trans [OF env [OF e]] run show ?thesis by (simp add: run_on_def)
qed

lemma local_transaction:
  assumes "succeeds_with m mutation" and "mutation_allowed me w = None" and "\<not> other_writer h 0 w"
  shows "R w (snd (local_txn dl h m w)) \<and>
    mutation_allowed me (snd (local_txn dl h m w)) = None \<and>
    other_writer k 0 (snd (local_txn dl h m w)) = other_writer k 0 w"
proof -
  have pub: "mutation_allowed me (publish h d w) = mutation_allowed me w" "other_writer k 0 (publish h d w) = other_writer k 0 w" for d w
  proof -
    show "mutation_allowed me (publish h d w) = mutation_allowed me w" by (simp add: mutation_allowed_def world_simps)
    show "other_writer k 0 (publish h d w) = other_writer k 0 w" by (simp add: other_writer_def publish_def split: option.split)
  qed
  obtain r1 w1 where a: "storage_call dl w = (r1, w1)" by (cases "storage_call dl w")
  obtain r2 w2 where b: "storage_call dl w1 = (r2, w2)" by (cases "storage_call dl w1")
  obtain r3 e3 d where c: "m (w_env w2, hive_db h w2) = (r3, e3, d)" by (cases "m (w_env w2, hive_db h w2)")
  obtain r4 w4 where f: "commit_conn dl (w2\<lparr>w_env := e3\<rparr>) = (r4, w4)" by (cases "commit_conn dl (w2\<lparr>w_env := e3\<rparr>)")
  have e1: "env_step w w1" using env_step_calls(2) [of w dl] a by simp
  have e2: "env_step w w2" using env_step_trans [OF e1] env_step_calls(2) [of w1 dl] b by simp
  have e3: "env_step w (w2\<lparr>w_env := e3\<rparr>)" by (rule env_step_trans [OF e2 env_stepI])
  have e4: "env_step w w4" using env_step_trans [OF e3] env_step_calls(3) [of "w2\<lparr>w_env := e3\<rparr>" dl] f by simp
  have "R w4 (publish h d w4)" if "r3 = Inr x" for x
    using published assms(1) c that e2 e4 assms(2,3)
    unfolding succeeds_with_def by (simp add: env_step_allowed env_step_sees)
  then show ?thesis
    using a b c f env [OF e1] env [OF e2] env [OF e3] env [OF e4] trans [OF env [OF e4]]
      env_step_allowed [OF e1] env_step_allowed [OF e2] env_step_allowed [OF e3] env_step_allowed [OF e4] assms(2)
    by (cases r1; cases r2; cases r3; cases r4) (simp_all add: local_txn_def and_then_def pub)
qed

end

section \<open>Every handler\<close>

context read_effects
begin

lemma handler_lookup: "txnID header = me \<Longrightarrow> R w (snd (handle_lookup header payload w))"
  unfolding handle_lookup_def by (intro effect_intros pure_lookup) (simp_all split: prod.split)

lemma handler_enum_children: "txnID header = me \<Longrightarrow> R w (snd (handle_enum_children header payload w))"
  unfolding handle_enum_children_def by (intro effect_intros pure_enum) (simp_all split: prod.split)

lemma handler_read_key: "txnID header = me \<Longrightarrow> R w (snd (handle_read_key header payload w))"
  unfolding handle_read_key_def by (intro effect_intros pure_read_key) simp_all

lemma handler_query_values: "txnID header = me \<Longrightarrow> R w (snd (handle_query_values header payload w))"
  unfolding handle_query_values_def by (intro effect_intros pure_query_values) (simp_all split: prod.split)

lemma handler_flush: "txnID header = me \<Longrightarrow> R w (snd (handle_flush header payload w))"
proof -
  have checkpoint: "R w (snd (wal_checkpoint dl w))" for dl w
    by (rule env) (simp add: wal_checkpoint_def case_prod_beta Let_def elapse_def)
  have locked: "R w (snd (lock_hive r w))" for r w unfolding lock_hive_def by (rule gate)
  show "R w (snd (handle_flush header payload w))" if "txnID header = me"
    unfolding handle_flush_def Let_def
  proof (intro requested decoded_then)
    show "R w (snd (case mutation_allowed (rq_txn r) w of
          None \<Rightarrow> if find_hive (fold_string (flr_hive_name req)) w = None then answer status_invalid w
                  else op_case (lock_hive r) (\<lambda>e. answer (map_write_err e))
                         (\<lambda>_ w. if hive_busy (fold_string (flr_hive_name req)) w then answer status_txn_busy w
                                else op_case (wal_checkpoint (rq_deadline r)) (\<lambda>e. answer (storage_status e))
                                       (\<lambda>busy. answer (if busy then status_txn_busy else status_ok)) w) w
        | Some e \<Rightarrow> answer (map_write_err e) w))" for r req d w
      by (simp split: option.split) (intro impI allI cased locked checkpoint answered, simp add: cased checkpoint)
  qed (simp add: that)
qed

lemma begun: "R w (snd (begin_leased i ro header w))"
  if new_entry: "\<And>w info. find_txn i w = None \<Longrightarrow> ti_conn info = None \<Longrightarrow> ti_hive info = None \<Longrightarrow> R w (put_txn i info w)"
proof -
  have fresh: "ti_conn (new_txn ro s l t) = None" "ti_conn (lease_expired now (new_txn ro s l t)) = None"
    "ti_hive (new_txn ro s l t) = None" "ti_hive (lease_expired now (new_txn ro s l t)) = None" for s l t now
    by (simp_all add: new_txn_def lease_expired_def)
  let ?w2 = "snd (elapse (snd (elapse w)))"
  have "find_txn i ?w2 = find_txn i w"
    using env_step_trans [OF env_step_elapse env_step_elapse, of w] by (rule env_step_sees)
  then have "R w (put_txn i info ?w2)" if "find_txn i w = None" "ti_conn info = None" "ti_hive info = None" for info
    using trans [OF trans [OF elapsed elapsed] new_entry] that by simp
  then show ?thesis
    using fresh new_entry elapsed trans [OF elapsed elapsed]
    by (simp add: begin_leased_def begin_mode_def Let_def)
qed

lemma handler_begin:
  "(\<And>i w info. find_txn i w = None \<Longrightarrow> ti_conn info = None \<Longrightarrow> ti_hive info = None \<Longrightarrow> R w (put_txn i info w)) \<Longrightarrow>
   R w (snd (handle_begin_transaction header payload w))"
  unfolding handle_begin_transaction_def Let_def
  by (intro requested decoded_then) (auto intro!: cased begun)

end

context write_effects
begin

lemma ran_write_op:
  "writable me q h w \<Longrightarrow> mutates m \<Longrightarrow> (\<And>x w. R w (snd (k x w))) \<Longrightarrow> R w (snd (op_case (run_on q m) (\<lambda>e. answer (s e)) k w))"
  by (intro cased ran_write answered)

lemma written:
  assumes "known h w" and "rq_txn r = me" and "\<And>q w. known h w \<Longrightarrow> writable me q h w \<Longrightarrow> R w (snd (k q w))"
  shows "R w (snd (op_case (write_q r h) (\<lambda>e. answer (s e)) k w))"
  by (rule cased) (use assms writing write_q_writable write_q_known in auto)

lemma probed:
  assumes "pure_act m" and "writable me q h w" and "\<And>x w. writable me q h w \<Longrightarrow> R w (snd (k x w))"
  shows "R w (snd (op_case (run_on q m) (\<lambda>e. answer (s e)) k w))"
proof (rule cased)
  show "R w (snd (run_on q m w))" by (rule ran_pure [OF assms(1)])
  show "R w' (snd (k x w'))" if "run_on q m w = (Inr x, w')" for x w'
    using run_on_pure [OF assms(1), of w q] that assms(2,3) env_step_allowed(5) [of w w'] by simp
qed simp

lemma handler_create_entry: "txnID header = me \<Longrightarrow> R w (snd (handle_create_entry header payload w))"
  unfolding handle_create_entry_def
proof (intro requested decoded_then hived)
  fix r :: request and req d h w
  assume "txnID header = me" and r: "rq_txn r = txnID header" and known: "known h w"
    and dec: "decode_create_entry_request (new_decoder payload) = Some (req, d)"
  then have me: "rq_txn r = me" by simp
  from dec have len: "length (cer_child_guid req) = 16"
    by (auto simp: decode_create_entry_request_def dec_fixed_unread bind_eq_Some_conv split: if_splits)
  show "R w (snd (op_case (write_q r h) (\<lambda>e. answer (map_write_err e))
        (\<lambda>q. op_case (run_on q (create_entry_act (rq_deadline r) req)) (\<lambda>e. answer (storage_status e)) answer) w))"
    by (rule written [OF known me], rule ran_write_op, assumption) (use mutates_create_entry [OF len] in simp_all)
qed simp

lemma handler_delete_entry: "txnID header = me \<Longrightarrow> R w (snd (handle_delete_entry header payload w))"
  unfolding handle_delete_entry_def
  by (intro requested decoded_then hived written) (auto intro!: ran_write_op mutates_delete_entry)

lemma handler_delete_value: "txnID header = me \<Longrightarrow> R w (snd (handle_delete_value_entry header payload w))"
  unfolding handle_delete_value_entry_def
  by (intro requested decoded_then hived written) (auto intro!: ran_write_op mutates_delete_value)

lemma handler_set_blanket: "txnID header = me \<Longrightarrow> R w (snd (handle_set_blanket_tombstone header payload w))"
  unfolding handle_set_blanket_tombstone_def
  by (intro requested decoded_then hived written) (auto intro!: ran_write_op mutates_set_blanket)

lemma handler_write_key: "txnID header = me \<Longrightarrow> R w (snd (handle_write_key header payload w))"
  unfolding handle_write_key_def
  by (intro requested decoded_then) (auto intro!: hived written ran_write_op mutates_write_key)

lemma handler_set_value: "txnID header = me \<Longrightarrow> R w (snd (handle_set_value header payload w))"
proof -
  assume hdr: "txnID header = me"
  have local_cas: "R w (snd (set_value_local_cas dl h st (fold_string (svr_value_name req)) req w))"
    if "writable me q h w" "me = 0" for dl h st req w q
  proof -
    have free: "mutation_allowed me w = None" "\<not> other_writer h 0 w"
      using that by (auto simp: writable_def mutation_allowed_def split: querier.splits)
    obtain r1 w1 where a: "storage_call dl w = (r1, w1)" by (cases "storage_call dl w")
    obtain r2 w2 where b: "storage_call dl w1 = (r2, w2)" by (cases "storage_call dl w1")
    obtain r3 e3 d where c: "set_value_cas dl st (fold_string (svr_value_name req)) req (w_env w2, hive_db h w2) = (r3, e3, d)"
      by (cases "set_value_cas dl st (fold_string (svr_value_name req)) req (w_env w2, hive_db h w2)")
    obtain r4 w4 where f: "commit_conn dl (w2\<lparr>w_env := e3\<rparr>) = (r4, w4)" by (cases "commit_conn dl (w2\<lparr>w_env := e3\<rparr>)")
    have e1: "env_step w w1" using env_step_calls(2) [of w dl] a by simp
    have e2: "env_step w w2" using env_step_trans [OF e1] env_step_calls(2) [of w1 dl] b by simp
    have e3: "env_step w (w2\<lparr>w_env := e3\<rparr>)" by (rule env_step_trans [OF e2 env_stepI])
    have e4: "env_step w w4" using env_step_trans [OF e3] env_step_calls(3) [of "w2\<lparr>w_env := e3\<rparr>" dl] f by simp
    have "mutation (hive_db h w2) d"
      using mutates_set_value_cas [of dl st req] c unfolding mutates_def by (metis snd_conv)
    then have "R w4 (publish h d w4)"
      using published free e2 e4 by (simp add: env_step_allowed env_step_sees)
    then show ?thesis
      using a b c f env [OF e1] env [OF e2] env [OF e3] env [OF e4] trans [OF env [OF e4]]
      by (cases r1; cases r2; cases r3; cases r4) (simp_all add: set_value_local_cas_def Let_def)
  qed
  show ?thesis
    unfolding handle_set_value_def Let_def
  proof (intro requested decoded_then hived)
    fix r :: request and req d h w
    assume r: "rq_txn r = txnID header" and known: "known h w"
    show "R w (snd (op_case (write_q r h) (\<lambda>e. answer (map_write_err e))
       (\<lambda>q. op_case (run_on q (is_volatile_q (rq_deadline r) (svr_guid req)))
          (\<lambda>e. answer (if e = Err_Key_Not_Found then status_not_found else storage_status e))
          (\<lambda>st w. if svr_expected_sequence req \<noteq> 0
             then if rq_txn r = 0
               then case set_value_local_cas (rq_deadline r) h st (fold_string (svr_value_name req)) req w of (status, w) \<Rightarrow> answer status w
               else op_case (run_on q (set_value_cas (rq_deadline r) st (fold_string (svr_value_name req)) req)) (\<lambda>e. answer (storage_status e)) answer w
             else op_case (run_on q (sql_exec (rq_deadline r) (\<lambda>d. Some (replace_value st (set_value_row req (fold_string (svr_value_name req))) d))))
                    (\<lambda>e. answer (storage_status e)) (\<lambda>_. answer status_ok) w)) w))"
    proof (rule written [OF known])
      show "rq_txn r = me" using r hdr by simp
      fix q w assume "writable me q h w"
      then show "R w (snd (op_case (run_on q (is_volatile_q (rq_deadline r) (svr_guid req)))
          (\<lambda>e. answer (if e = Err_Key_Not_Found then status_not_found else storage_status e))
          (\<lambda>st w. if svr_expected_sequence req \<noteq> 0
             then if rq_txn r = 0
               then case set_value_local_cas (rq_deadline r) h st (fold_string (svr_value_name req)) req w of (status, w) \<Rightarrow> answer status w
               else op_case (run_on q (set_value_cas (rq_deadline r) st (fold_string (svr_value_name req)) req)) (\<lambda>e. answer (storage_status e)) answer w
             else op_case (run_on q (sql_exec (rq_deadline r) (\<lambda>d. Some (replace_value st (set_value_row req (fold_string (svr_value_name req))) d))))
                    (\<lambda>e. answer (storage_status e)) (\<lambda>_. answer status_ok) w) w))"
      proof (rule probed [OF pure_is_volatile])
        fix st w assume q: "writable me q h w"
        have local: "R w (snd (case set_value_local_cas dl h st (fold_string (svr_value_name req)) req w of (status, w) \<Rightarrow> answer status w))"
          if "rq_txn r = 0" for dl
          using local_cas [OF q] that r hdr by (simp add: answer_def case_prod_beta)
        show "R w (snd (if svr_expected_sequence req \<noteq> 0
             then if rq_txn r = 0
               then case set_value_local_cas (rq_deadline r) h st (fold_string (svr_value_name req)) req w of (status, w) \<Rightarrow> answer status w
               else op_case (run_on q (set_value_cas (rq_deadline r) st (fold_string (svr_value_name req)) req)) (\<lambda>e. answer (storage_status e)) answer w
             else op_case (run_on q (sql_exec (rq_deadline r) (\<lambda>d. Some (replace_value st (set_value_row req (fold_string (svr_value_name req))) d))))
                    (\<lambda>e. answer (storage_status e)) (\<lambda>_. answer status_ok) w))"
          using local ran_write_op [OF q mutates_set_value_cas] ran_write_op [OF q mutates_set_value] by simp
      qed
    qed
  qed (simp add: hdr)
qed

lemma handler_hide_entry: "txnID header = me \<Longrightarrow> R w (snd (handle_hide_entry header payload w))"
  unfolding handle_hide_entry_def Let_def
proof (intro requested decoded_then hived)
  fix r :: request and req d h w
  assume "txnID header = me" and "rq_txn r = txnID header" and known: "known h w"
  then have me: "rq_txn r = me" by simp
  show "R w (snd (op_case (write_q r h) (\<lambda>e. answer (map_write_err e))
      (\<lambda>q. op_case (run_on q (is_volatile_q (rq_deadline r) (her_parent_guid req)))
          (\<lambda>e. answer (if e = Err_Key_Not_Found then status_not_found else storage_status e))
          (\<lambda>st. op_case (if rq_txn r \<noteq> 0 then run_on q (replace_hidden_entry (rq_deadline r) st (fold_string (her_child_name req)) req)
               else hide_entry_locally (rq_deadline r) h st (fold_string (her_child_name req)) req)
             (\<lambda>e. answer (storage_status e)) (\<lambda>_. answer status_ok))) w))"
  proof (rule written [OF known me], rule probed [OF pure_is_volatile], assumption)
    fix q st w assume q: "writable me q h w"
    then have free: "mutation_allowed me w = None" "rq_txn r = 0 \<Longrightarrow> \<not> other_writer h 0 w"
      using me by (auto simp: writable_def split: querier.splits)
    show "R w (snd (op_case (if rq_txn r \<noteq> 0 then run_on q (replace_hidden_entry (rq_deadline r) st (fold_string (her_child_name req)) req)
               else hide_entry_locally (rq_deadline r) h st (fold_string (her_child_name req)) req)
             (\<lambda>e. answer (storage_status e)) (\<lambda>_. answer status_ok) w))"
    proof (cases "rq_txn r = 0")
      case True
      then show ?thesis
        using local_transaction [OF mutates_succeeds [OF mutates_hide] free(1) free(2)]
        by (auto simp: hide_entry_locally_def intro: cased)
    next
      case False
      with ran_write_op [OF q mutates_hide] show ?thesis by simp
    qed
  qed
qed simp

lemma hooked: "R w (add_commit_hook me g w)" "R w (add_abort_hook me g w)"
  using on_commit on_abort by (simp_all add: add_commit_hook_def add_abort_hook_def split: option.split)

lemma resolve_parent_known: "resolve_parent r g w = (Inr (Some h), w') \<Longrightarrow> known h w'"
proof -
  assume p: "resolve_parent r g w = (Inr (Some h), w')"
  obtain res w1 where v: "resolve_hive r g w = (res, w1)" by (cases "resolve_hive r g w")
  have "known h w'" if "find_root g (arrange p (w_hives w1)) = Some h" "w_hives w' = w_hives w1" for p
  proof -
    from that(1) obtain hv i where "i < length (arrange p (w_hives w1))" "arrange p (w_hives w1) ! i = (h, hv)"
      by (auto simp: find_root_def find_Some_iff)
    then have "(h, hv) \<in> set (arrange p (w_hives w1))" using nth_mem by metis
    with that(2) show ?thesis by (force intro: known_listed)
  qed
  note root = this
  show ?thesis
  proof (cases res)
    case (Inr found)
    show ?thesis
    proof (cases found)
      case None
      with p v Inr have "find_root g (arrange (ev_order (fst (elapse w1))) (w_hives (snd (elapse w1)))) = Some h" "w' = snd (elapse w1)"
        by (auto simp: resolve_parent_def case_prod_beta)
      with root show ?thesis using env_step_elapse [of w1] by (simp add: env_step_sees)
    next
      case (Some k)
      with p v Inr resolve_hive_known [of r g w h w1] show ?thesis by (simp add: resolve_parent_def)
    qed
  qed (use p v in \<open>simp add: resolve_parent_def\<close>)
qed

lemma handler_create_key: "txnID header = me \<Longrightarrow> R w (snd (handle_create_key header payload w))"
  unfolding handle_create_key_def
proof (intro requested decoded_then cased answered)
  fix r :: request and req d w
  show "R w (snd (resolve_parent r (ckr_parent_guid req) w))"
    using resolved [of w r "ckr_parent_guid req"] trans [OF _ elapsed]
    by (auto simp: resolve_parent_def case_prod_beta split: sum.split option.split)
next
  fix r :: request and req d found v w
  assume "txnID header = me" and "rq_txn r = txnID header" and found: "resolve_parent r (ckr_parent_guid req) v = (Inr found, w)"
    and dec: "decode_create_key_request (new_decoder payload) = Some (req, d)"
  then have me: "rq_txn r = me" by simp
  from dec have len: "length (ckr_guid req) = 16"
    by (auto simp: decode_create_key_request_def dec_fixed_unread bind_eq_Some_conv split: if_splits)
  let ?settle = "\<lambda>h status w. if status = status_ok
      then let w = cache_store (ckr_guid req) h w;
               w = (if rq_txn r \<noteq> 0 then add_abort_hook (rq_txn r) (ckr_guid req) w else w)
           in answer status_ok w
      else answer status w"
  have stored: "R w (snd (?settle h status w))" if "known h w" for status h w
    using cached [OF that, of "ckr_guid req"] trans [OF cached [OF that, of "ckr_guid req"] hooked(2)] me
    by (simp add: Let_def answer_def)
  show "R w (snd ((case found of None \<Rightarrow> answer status_not_found
      | Some h \<Rightarrow> op_case (write_q r h) (\<lambda>e. answer (map_write_err e))
          (\<lambda>q w. op_case (run_on q (create_key_act (rq_deadline r) req (unix_nano w))) (\<lambda>e. answer (storage_status e)) (?settle h) w)) w))"
  proof (cases found)
    case (Some h)
    have "R w (snd (op_case (write_q r h) (\<lambda>e. answer (map_write_err e))
        (\<lambda>q w. op_case (run_on q (create_key_act (rq_deadline r) req (unix_nano w))) (\<lambda>e. answer (storage_status e)) (?settle h) w) w))"
    proof (rule written [OF _ me])
      show "known h w" using found Some by (simp add: resolve_parent_known)
      fix q w assume known: "known h w" and q: "writable me q h w"
      let ?m = "run_on q (create_key_act (rq_deadline r) req (unix_nano w))"
      show "R w (snd (op_case ?m (\<lambda>e. answer (storage_status e)) (?settle h) w))"
      proof (rule cased)
        show "R w (snd (?m w))" by (rule ran_write [OF mutates_create_key [OF len] q])
        show "R w' (snd (?settle h status w'))" if "?m w = (Inr status, w')" for status w'
          using that run_on_known [of h q "create_key_act (rq_deadline r) req (unix_nano w)" w] known by (intro stored) simp
      qed simp
    qed
    with Some show ?thesis by simp
  qed simp
qed simp

lemma handler_drop_key: "txnID header = me \<Longrightarrow> R w (snd (handle_drop_key header payload w))"
  unfolding handle_drop_key_def
proof (intro requested decoded_then cased answered resolved)
  fix r :: request and req found v w
  assume "txnID header = me" and "rq_txn r = txnID header" and found: "resolve_hive r (dkr_guid req) v = (Inr found, w)"
  then have me: "rq_txn r = me" by simp
  have evict: "R w (snd (answer status_ok (if rq_txn r \<noteq> 0 then add_commit_hook (rq_txn r) (dkr_guid req) w
        else cache_delete (dkr_guid req) w)))" for w
    using me hooked(1) evicted by (simp add: answer_def)
  have body: "R w (snd (op_case (if rq_txn r = 0 then local_txn (rq_deadline r) h (tx_exec_all (rq_deadline r) (drop_deletes (dkr_guid req)))
          else run_on q (exec_all (rq_deadline r) (drop_deletes (dkr_guid req))))
        (\<lambda>e. answer (storage_status e))
        (\<lambda>_ w. answer status_ok (if rq_txn r \<noteq> 0 then add_commit_hook (rq_txn r) (dkr_guid req) w else cache_delete (dkr_guid req) w)) w))"
    if q: "writable me q h w" for q h w
  proof (cases "rq_txn r = 0")
    case True
    then have "mutation_allowed me w = None" "\<not> other_writer h 0 w"
      using q me by (auto simp: writable_def split: querier.splits)
    from local_transaction [OF succeeds_tx_drop this] evict True show ?thesis by (auto intro: cased)
  next
    case False
    with ran_write_op [OF q mutates_drop] evict show ?thesis by simp
  qed
  show "R w (snd ((case found of None \<Rightarrow> answer status_ok
      | Some h \<Rightarrow> op_case (write_q r h) (\<lambda>e. answer (map_write_err e))
          (\<lambda>q. op_case (if rq_txn r = 0 then local_txn (rq_deadline r) h (tx_exec_all (rq_deadline r) (drop_deletes (dkr_guid req)))
               else run_on q (exec_all (rq_deadline r) (drop_deletes (dkr_guid req))))
             (\<lambda>e. answer (storage_status e))
             (\<lambda>_ w. answer status_ok (if rq_txn r \<noteq> 0 then add_commit_hook (rq_txn r) (dkr_guid req) w
                else cache_delete (dkr_guid req) w)))) w))"
    using found by (cases found) (auto intro: written [OF resolve_hive_known me] body)
qed simp

lemma deleted_layer:
  "mutation_allowed me w = None \<Longrightarrow> R w (snd (delete_layer_loop dl layer hs os w))"
proof (induction hs arbitrary: os w)
  case (Cons h hs)
  obtain r1 w1 where a: "gate_acquire dl w = (r1, w1)" by (cases "gate_acquire dl w")
  have e: "env_step w w1" using env_step_calls(1) [of w dl] a by simp
  then have allowed: "mutation_allowed me w1 = None" using Cons.prems by (simp add: env_step_allowed)
  obtain r2 w2 where b: "delete_layer_from_hive dl h layer w1 = (r2, w2)" by (cases "delete_layer_from_hive dl h layer w1")
  show ?case
  proof (cases "other_writer h 0 w1")
    case False
    from local_transaction [OF succeeds_delete_layer allowed this, of dl dl layer] b
    have "R w1 w2" "mutation_allowed me w2 = None" by (simp_all add: delete_layer_from_hive_def)
    with Cons.IH [of w2] a b False trans [OF env [OF e]] env [OF e] show ?thesis
      by (cases r1; cases r2) (auto intro: trans)
  qed (use a env [OF e] in \<open>simp split: sum.split\<close>)
qed simp

lemma evicted_all: "R w (foldl (\<lambda>w g. cache_delete g w) w gs)"
  by (induction gs arbitrary: w) (auto intro: trans [OF evicted])

lemma handler_delete_layer: "txnID header = me \<Longrightarrow> R w (snd (handle_delete_layer header payload w))"
  unfolding handle_delete_layer_def
proof (intro requested decoded_then)
  fix r :: request and req d w
  assume "txnID header = me" and "rq_txn r = txnID header"
  then have me: "rq_txn r = me" by simp
  obtain ev w1 where ev: "elapse w = (ev, w1)" by (cases "elapse w")
  have e: "env_step w w1" using env_step_elapse [of w] ev by simp
  show "R w (snd (case mutation_allowed (rq_txn r) w of
          None \<Rightarrow> if any_write_bound w then answer status_txn_busy w
             else let (ev, w) = elapse w in
               (case delete_layer_loop (rq_deadline r) (dlr_layer_name req) (arrange (ev_order ev) (map fst (w_hives w))) [] w of
                  (Inl status, w) \<Rightarrow> answer status w
                | (Inr orphans, w) \<Rightarrow>
                    (let orphans = sort orphans; w = foldl (\<lambda>w g. cache_delete g w) w orphans
                     in ((status_ok, encode_delete_layer_response orphans new_encoder), w)))
        | Some e \<Rightarrow> answer (map_write_err e) w))"
  proof (cases "mutation_allowed me w")
    case None
    define hs where "hs = arrange (ev_order ev) (map fst (w_hives w1))"
    obtain r2 w2 where l: "delete_layer_loop (rq_deadline r) (dlr_layer_name req) hs [] w1 = (r2, w2)"
      by (cases "delete_layer_loop (rq_deadline r) (dlr_layer_name req) hs [] w1")
    have "R w1 w2" using deleted_layer [of w1 "rq_deadline r" "dlr_layer_name req" hs "[]"] None l env_step_allowed(1) [OF e] by simp
    then have "R w w2" by (rule trans [OF env [OF e]])
    with None me ev l trans [OF \<open>R w w2\<close> evicted_all] show ?thesis
      by (cases r2) (simp_all add: hs_def [symmetric] answer_def Let_def)
  qed (simp add: me)
qed simp

end

end
