(* ===== verification/Txn_Laws.thy ===== *)
theory Txn_Laws
  imports Effects Dispatch Transitions
begin

text \<open>
  What transactions promise across requests.  \<open>world_inv\<close> is the invariant of the daemon's
  state, \<open>daemon_step\<close> its steps: a dispatched request, a turn of the lease loop, the
  closing of all transactions.  The interpretations of \<open>write_effects\<close> give the invariant,
  the isolation of a writing transaction, and what a read-only transaction may see and do;
  COMMIT and ABORT, which end a transaction, have outcome lemmas of their own.
\<close>

section \<open>Writers and the invariant\<close>

definition info_ok :: "txn_info \<Rightarrow> bool" where
  "info_ok info \<longleftrightarrow>
     (case ti_conn info of None \<Rightarrow> True | Some d \<Rightarrow> db_ok d \<and> ti_hive info \<noteq> None \<and> \<not> ti_failed info)"

definition writer :: "u64 \<Rightarrow> bytes \<Rightarrow> world \<Rightarrow> bool" where
  "writer i h w \<longleftrightarrow>
     (case find_txn i w of
        None \<Rightarrow> False
      | Some info \<Rightarrow> \<not> ti_read_only info \<and> ti_hive info = Some h \<and> ti_conn info \<noteq> None)"

text \<open>The cache and the bindings name hives the daemon serves.\<close>

definition coherent :: "world \<Rightarrow> bool" where
  "coherent w \<longleftrightarrow>
     (\<forall>g h. w_cache w g = Some h \<longrightarrow> find_hive h w \<noteq> None) \<and>
     (\<forall>i info h. find_txn i w = Some info \<longrightarrow> ti_hive info = Some h \<longrightarrow> find_hive h w \<noteq> None)"

definition world_inv :: "world \<Rightarrow> bool" where
  "world_inv w \<longleftrightarrow>
     (\<forall>h. db_ok (hive_db h w)) \<and>
     (\<forall>i info. find_txn i w = Some info \<longrightarrow> info_ok info) \<and>
     (\<forall>i j h. writer i h w \<longrightarrow> writer j h w \<longrightarrow> i = j) \<and>
     (\<forall>info. find_txn 0 w = Some info \<longrightarrow> ti_conn info = None) \<and> coherent w"

lemma world_inv_zero: "world_inv w \<Longrightarrow> writer i h w \<Longrightarrow> i \<noteq> 0"
  by (auto simp: world_inv_def writer_def split: option.splits)

lemma not_other_writer: "\<not> other_writer h i w \<Longrightarrow> writer j h w \<Longrightarrow> j = i"
  by (auto simp: other_writer_def writer_def find_txn_def list_ex_iff split: option.splits dest!: map_of_SomeD)

lemma none_bound: "\<not> any_write_bound w \<Longrightarrow> \<not> writer j h w"
  by (auto simp: any_write_bound_def writer_def find_txn_def list_ex_iff split: option.splits dest!: map_of_SomeD)

lemma writer_put_txn:
  "writer j h (put_txn i info w) =
     (if i = j then \<not> ti_read_only info \<and> ti_hive info = Some h \<and> ti_conn info \<noteq> None else writer j h w)"
  by (simp add: writer_def world_simps)

lemma writer_updates [world_simps]:
  "writer j h (delete_txn i w) = (i \<noteq> j \<and> writer j h w)" "writer j h (publish k d w) = writer j h w"
  "writer j h (cache_store g k w) = writer j h w" "writer j h (cache_delete g w) = writer j h w"
  "writer j h (w\<lparr>w_env := e\<rparr>) = writer j h w"
  by (simp_all add: writer_def world_simps)

text \<open>Replacing an entry by one that is no more of a writer keeps the invariant.\<close>

lemma world_inv_put:
  assumes "world_inv w" and "info_ok info" and "\<And>h. ti_hive info = Some h \<Longrightarrow> find_hive h w \<noteq> None"
    and "\<And>h. \<not> ti_read_only info \<Longrightarrow> ti_conn info \<noteq> None \<Longrightarrow> ti_hive info = Some h \<Longrightarrow> \<forall>j. writer j h w \<longrightarrow> j = i"
    and "ti_conn info \<noteq> None \<Longrightarrow> i \<noteq> 0"
  shows "world_inv (put_txn i info w)"
  unfolding world_inv_def
proof (intro conjI allI impI)
  show "db_ok (hive_db h (put_txn i info w))" for h using assms(1) by (simp add: world_inv_def world_simps)
  show "info_ok info'" if "find_txn j (put_txn i info w) = Some info'" for j info'
    using that assms(1,2) by (auto simp: world_inv_def world_simps split: if_splits)
  show "coherent (put_txn i info w)"
    using assms(1,3) by (auto simp: world_inv_def coherent_def world_simps)
  show "ti_conn info' = None" if "find_txn 0 (put_txn i info w) = Some info'" for info'
    using assms(1,5) that by (cases "ti_conn info'") (auto simp: world_inv_def world_simps split: if_splits)
  have one: "k = i" if "writer i h (put_txn i info w)" "writer k h (put_txn i info w)" for k h
    using that assms(4) [of h] unfolding writer_put_txn by metis
  show "j = k" if jk: "writer j h (put_txn i info w)" "writer k h (put_txn i info w)" for j k h
  proof (cases "i = j \<or> i = k")
    case True
    with one jk show ?thesis by metis
  next
    case False
    with jk have "writer j h w" "writer k h w" by (simp_all add: writer_put_txn)
    with assms(1) show ?thesis unfolding world_inv_def by metis
  qed
qed

lemma world_inv_same_binding:
  assumes "world_inv w" and "find_txn i w = Some info" and "info_ok info'"
    and "ti_read_only info' = ti_read_only info" "ti_hive info' = ti_hive info" "ti_conn info' \<noteq> None \<Longrightarrow> ti_conn info \<noteq> None"
  shows "world_inv (put_txn i info' w)"
proof (rule world_inv_put [OF assms(1,3)])
  show "find_hive h w \<noteq> None" if "ti_hive info' = Some h" for h
    using that assms(1,2,5) unfolding world_inv_def coherent_def by metis
  fix h assume "\<not> ti_read_only info'" "ti_conn info' \<noteq> None" "ti_hive info' = Some h"
  then have "writer i h w" using assms by (auto simp: writer_def)
  with assms(1) show "\<forall>j. writer j h w \<longrightarrow> j = i" unfolding world_inv_def by metis
next
  show "i \<noteq> 0" if "ti_conn info' \<noteq> None" using that assms(1,2,6) by (auto simp: world_inv_def)
qed

lemma lease_expired_fields [simp]:
  "ti_conn (lease_expired now info) = ti_conn info" "ti_hive (lease_expired now info) = ti_hive info"
  "ti_read_only (lease_expired now info) = ti_read_only info" "ti_failed (lease_expired now info) = ti_failed info"
  "ti_on_commit (lease_expired now info) = ti_on_commit info" "ti_on_abort (lease_expired now info) = ti_on_abort info"
  "ti_session (lease_expired now info) = ti_session info"
  by (simp_all add: lease_expired_def)

lemma info_ok_updates [simp]:
  "info_ok (lease_expired now info) = info_ok info" "info_ok (info\<lparr>ti_expired := b\<rparr>) = info_ok info"
  "info_ok (info\<lparr>ti_binding := b\<rparr>) = info_ok info" "info_ok (info\<lparr>ti_on_commit := gs\<rparr>) = info_ok info"
  "info_ok (info\<lparr>ti_on_abort := gs\<rparr>) = info_ok info" "info_ok (info\<lparr>ti_lease_ns := n\<rparr>) = info_ok info"
  "info_ok (info\<lparr>ti_cleanup_started := b\<rparr>) = info_ok info" "ti_conn info = None \<Longrightarrow> info_ok info"
  by (simp_all add: info_ok_def split: option.split)

lemma world_inv_info: "world_inv w \<Longrightarrow> find_txn i w = Some info \<Longrightarrow> info_ok info"
  by (auto simp: world_inv_def)

lemma world_inv_env [simp]: "world_inv (w\<lparr>w_env := e\<rparr>) = world_inv w"
  "known h w \<Longrightarrow> world_inv w \<Longrightarrow> world_inv (cache_store g h w)" "world_inv w \<Longrightarrow> world_inv (cache_delete g w)"
proof -
  show "world_inv (w\<lparr>w_env := e\<rparr>) = world_inv w" by (simp add: world_inv_def coherent_def world_simps)
  show "world_inv (cache_store g h w)" if "known h w" "world_inv w"
    using that by (auto simp: world_inv_def coherent_def known_def world_simps)
  show "world_inv (cache_delete g w)" if "world_inv w"
    using that by (auto simp: world_inv_def coherent_def world_simps)
qed

definition keeps_inv :: "world \<Rightarrow> world \<Rightarrow> bool" where
  "keeps_inv w w' \<longleftrightarrow> (world_inv w \<longrightarrow> world_inv w')"

interpretation inv: write_effects keeps_inv me for me
proof unfold_locales
  fix w info h assume *: "find_txn me w = Some info" "\<not> other_writer h me w" "\<not> ti_failed info" "me \<noteq> 0" "known h w"
  let ?info = "info\<lparr>ti_hive := Some h, ti_conn := Some (hive_db h w), ti_binding := False\<rparr>"
  show "keeps_inv w (put_txn me ?info w)"
    unfolding keeps_inv_def
  proof
    assume inv: "world_inv w"
    then have "info_ok ?info" using * by (simp add: info_ok_def world_inv_def)
    with inv show "world_inv (put_txn me ?info w)"
      by (rule world_inv_put) (use *(2,4,5) inv not_other_writer in \<open>auto simp: world_inv_def coherent_def known_def\<close>)
  qed
next
  fix w h d assume "mutation (hive_db h w) d"
  then show "keeps_inv w (publish h d w)"
    using mutation_db_ok [of "hive_db h w" d] by (auto simp: keeps_inv_def world_inv_def coherent_def world_simps)
next
  fix w info d d' assume *: "find_txn me w = Some info" "ti_conn info = Some d" "mutation d d'"
  show "keeps_inv w (put_txn me (info\<lparr>ti_conn := Some d'\<rparr>) w)"
    unfolding keeps_inv_def
  proof
    assume inv: "world_inv w"
    from world_inv_info [OF inv *(1)] * have "info_ok (info\<lparr>ti_conn := Some d'\<rparr>)"
      by (auto simp: info_ok_def intro: mutation_db_ok)
    with inv * show "world_inv (put_txn me (info\<lparr>ti_conn := Some d'\<rparr>) w)"
      by (auto intro: world_inv_same_binding)
  qed
next
  fix w h and info :: txn_info assume *: "ti_read_only info" "\<not> ti_failed info" "known h w" "me \<noteq> 0"
  let ?info = "info\<lparr>ti_hive := Some h, ti_snapshot_db := True, ti_conn := Some (hive_db h w), ti_binding := False\<rparr>"
  show "keeps_inv w (put_txn me ?info w)"
    unfolding keeps_inv_def
  proof
    assume inv: "world_inv w"
    then have "info_ok ?info" using * by (simp add: info_ok_def world_inv_def)
    with inv * show "world_inv (put_txn me ?info w)"
      by (intro world_inv_put) (auto simp: world_inv_def coherent_def known_def)
  qed
qed (auto simp: keeps_inv_def env_step_def intro!: world_inv_same_binding [of _ me] dest: world_inv_info)

section \<open>A dispatched request\<close>

abbreviation serve :: "request_header \<Rightarrow> bytes \<Rightarrow> world \<Rightarrow> bytes \<times> world" where
  "serve \<equiv> dispatch (register_handlers new_dispatcher)"

lemma dispatch_world:
  "snd (dispatch d hdr payload w) = (case d (opCode hdr) of None \<Rightarrow> w | Some h \<Rightarrow> snd (h hdr payload w))"
  by (simp add: dispatch_def case_prod_beta split: option.split)

lemmas handler_table = register_handlers_def register_value_handlers_def register_txn_handlers_def
  register_def new_dispatcher_def Let_def

lemma control_handlers:
  "register_handlers new_dispatcher op_begin_transaction = Some handle_begin_transaction"
  "register_handlers new_dispatcher op_commit_transaction = Some handle_commit_transaction"
  "register_handlers new_dispatcher op_abort_transaction = Some handle_abort_transaction"
  by (simp_all add: handler_table op_defs)

lemma handler_cases:
  assumes "register_handlers new_dispatcher op = Some h"
  shows "h \<in> {handle_lookup, handle_enum_children, handle_read_key, handle_query_values, handle_flush,
      handle_create_entry, handle_hide_entry, handle_delete_entry, handle_create_key, handle_write_key, handle_drop_key,
      handle_set_value, handle_delete_value_entry, handle_set_blanket_tombstone, handle_delete_layer} \<or>
    (op = op_begin_transaction \<and> h = handle_begin_transaction) \<or>
    (op = op_commit_transaction \<and> h = handle_commit_transaction) \<or>
    (op = op_abort_transaction \<and> h = handle_abort_transaction)"
  using assms by (simp add: handler_table split: if_splits)

context write_effects
begin

lemma dispatched:
  assumes "txnID hdr = me" and "opCode hdr \<notin> {op_begin_transaction, op_commit_transaction, op_abort_transaction}"
  shows "R w (snd (serve hdr payload w))"
proof (cases "register_handlers new_dispatcher (opCode hdr)")
  case (Some h)
  note handlers = handler_lookup handler_enum_children handler_read_key handler_query_values handler_flush
    handler_create_entry handler_hide_entry handler_delete_entry handler_create_key handler_write_key handler_drop_key
    handler_set_value handler_delete_value handler_set_blanket handler_delete_layer
  from handler_cases [OF Some] assms(2) show ?thesis
    using handlers [OF assms(1)] by (auto simp: dispatch_world Some)
qed (simp add: dispatch_world)

end

section \<open>What another transaction cannot change\<close>

definition undisturbed :: "u64 \<Rightarrow> bytes \<Rightarrow> u64 \<Rightarrow> world \<Rightarrow> world \<Rightarrow> bool" where
  "undisturbed j h me w w' \<longleftrightarrow>
     (j \<noteq> 0 \<and> j \<noteq> me \<and> find_txn j w \<noteq> None \<longrightarrow> find_txn j w' = find_txn j w \<and> (writer j h w \<longrightarrow> hive_db h w' = hive_db h w))"

interpretation iso: write_effects "undisturbed j h me" me for j h me
proof unfold_locales
  fix w k d assume "\<not> other_writer k 0 w"
  then show "undisturbed j h me w (publish k d w)"
    using not_other_writer [of k 0 w j] by (auto simp: undisturbed_def world_simps)
qed (auto simp: undisturbed_def world_simps env_step_sees writer_def)

section \<open>What a read-only transaction can do and see\<close>

text \<open>Its view: nothing before the first read, then the snapshot, until an interruption.\<close>

definition snapshot_kept :: "txn_info \<Rightarrow> txn_info \<Rightarrow> bool" where
  "snapshot_kept info info' \<longleftrightarrow>
     ti_read_only info' \<and>
     (ti_failed info \<and> ti_conn info = None \<longrightarrow> ti_failed info' \<and> ti_conn info' = None) \<and>
     (\<forall>d. ti_conn info = Some d \<longrightarrow> ti_conn info' = Some d \<and> ti_hive info' = ti_hive info \<or> ti_conn info' = None \<and> ti_failed info')"

lemma snapshot_kept_trans: "snapshot_kept a b \<Longrightarrow> snapshot_kept b c \<Longrightarrow> snapshot_kept a c"
  by (cases "ti_conn a"; cases "ti_conn b"; cases "ti_conn c") (auto simp: snapshot_kept_def)

definition only_snapshot :: "u64 \<Rightarrow> world \<Rightarrow> world \<Rightarrow> bool" where
  "only_snapshot me w w' \<longleftrightarrow>
     (me \<noteq> 0 \<longrightarrow> (\<forall>info. find_txn me w = Some info \<longrightarrow> ti_read_only info \<longrightarrow>
        (\<forall>h. hive_db h w' = hive_db h w) \<and> (\<exists>info'. find_txn me w' = Some info' \<and> snapshot_kept info info')))"

lemma only_snapshot_trans:
  assumes 1: "only_snapshot me w w'" and 2: "only_snapshot me w' w''"
  shows "only_snapshot me w w''"
  unfolding only_snapshot_def
proof (intro impI allI)
  fix info assume *: "me \<noteq> 0" "find_txn me w = Some info" "ti_read_only info"
  from 1 [unfolded only_snapshot_def, rule_format, OF *] obtain i1 where i1: "find_txn me w' = Some i1" "snapshot_kept info i1"
    and h1: "\<forall>h. hive_db h w' = hive_db h w" by (elim conjE exE)
  have "ti_read_only i1" using i1(2) by (simp add: snapshot_kept_def)
  from 2 [unfolded only_snapshot_def, rule_format, OF *(1) i1(1) this] obtain i2
    where i2: "find_txn me w'' = Some i2" "snapshot_kept i1 i2" and h2: "\<forall>h. hive_db h w'' = hive_db h w'" by (elim conjE exE)
  from snapshot_kept_trans [OF i1(2) i2(2)] i2(1) h1 h2
  show "(\<forall>h. hive_db h w'' = hive_db h w) \<and> (\<exists>info'. find_txn me w'' = Some info' \<and> snapshot_kept info info')"
    by simp
qed

interpretation ro: write_effects "only_snapshot me" me for me
proof unfold_locales
  fix w h d assume "mutation_allowed me w = None"
  then show "only_snapshot me w (publish h d w)"
    by (simp add: only_snapshot_def mutation_allowed_def split: if_splits option.splits)
qed (auto intro: only_snapshot_trans, auto simp: only_snapshot_def world_simps env_step_sees snapshot_kept_def)

end
