(* ===== verification/Daemon.thy ===== *)
theory Daemon
  imports Txn_Laws
begin

text \<open>
  The daemon as a transition system: a dispatched request, a turn of the lease loop, the
  closing of the transactions.  The operations that end a transaction (\<open>commit\<close>, \<open>abort\<close>)
  get their outcome here, and the reachable states their invariant.
\<close>

section \<open>Ending a transaction\<close>

definition others_kept :: "u64 \<Rightarrow> world \<Rightarrow> world \<Rightarrow> bool" where
  "others_kept i w w' \<longleftrightarrow> (\<forall>j. j \<noteq> i \<longrightarrow> find_txn j w' = find_txn j w)"

definition hives_kept :: "world \<Rightarrow> world \<Rightarrow> bool" where
  "hives_kept w w' \<longleftrightarrow> (\<forall>h. hive_db h w' = hive_db h w)"

text \<open>The same hives are served and no GUID is newly cached.\<close>

definition registry_kept :: "world \<Rightarrow> world \<Rightarrow> bool" where
  "registry_kept w w' \<longleftrightarrow>
     (\<forall>h. find_hive h w' = None \<longleftrightarrow> find_hive h w = None) \<and>
     (\<forall>g h. w_cache w' g = Some h \<longrightarrow> w_cache w g = Some h)"

lemma registry_kept_trans: "registry_kept w w' \<Longrightarrow> registry_kept w' w'' \<Longrightarrow> registry_kept w w''"
  by (simp add: registry_kept_def)

lemma registry_kept_updates:
  "registry_kept w (put_txn i info w)" "registry_kept w (delete_txn i w)" "registry_kept w (publish h d w)"
  "registry_kept w (w\<lparr>w_txns := txns\<rparr>)"
  by (auto simp: registry_kept_def find_hive_def [of _ "w\<lparr>w_txns := txns\<rparr>"] world_simps) (simp_all add: find_hive_def)

text \<open>The database of hive \<open>h\<close> once \<open>info\<close> is committed.\<close>

definition committed_db :: "txn_info \<Rightarrow> world \<Rightarrow> bytes \<Rightarrow> db" where
  "committed_db info w h =
     (case ti_conn info of
        None \<Rightarrow> hive_db h w
      | Some d \<Rightarrow> if \<not> ti_read_only info \<and> ti_hive info = Some h then d else hive_db h w)"

text \<open>An entry that is kept, but may have been found expired.\<close>

definition entry_kept :: "u64 \<Rightarrow> world \<Rightarrow> world \<Rightarrow> bool" where
  "entry_kept i w w' \<longleftrightarrow>
     find_txn i w' = find_txn i w \<or>
     (\<exists>info. find_txn i w = Some info \<and> find_txn i w' = Some (info\<lparr>ti_expired := True\<rparr>))"

definition kept_by :: "u64 \<Rightarrow> world \<Rightarrow> world \<Rightarrow> bool" where
  "kept_by i w w' \<longleftrightarrow> hives_kept w w' \<and> registry_kept w w' \<and> others_kept i w w' \<and> entry_kept i w w'"

lemma kept_by_refl [simp]: "kept_by i w w"
  by (simp add: kept_by_def registry_kept_def hives_kept_def others_kept_def entry_kept_def)

lemma kept_by_trans: "kept_by i w w' \<Longrightarrow> kept_by i w' w'' \<Longrightarrow> kept_by i w w''"
  by (cases "find_txn i w") (auto simp: kept_by_def registry_kept_def hives_kept_def others_kept_def entry_kept_def)

lemma kept_by_env: "env_step w w' \<Longrightarrow> kept_by i w w'"
  by (simp add: kept_by_def registry_kept_def hives_kept_def others_kept_def entry_kept_def env_step_sees)

lemma kept_by_expire: "find_txn i w = Some info \<Longrightarrow> kept_by i w (put_txn i (lease_expired now info) w)"
  by (auto simp: kept_by_def registry_kept_updates hives_kept_def others_kept_def entry_kept_def world_simps lease_expired_def)

lemma run_hooks_sees [simp]:
  "find_txn i (run_hooks gs w) = find_txn i w" "hive_db h (run_hooks gs w) = hive_db h w"
  "find_hive h (run_hooks gs w) = find_hive h w"
  unfolding run_hooks_def by (induction gs arbitrary: w) (simp_all add: world_simps)

lemma registry_kept_hooks: "registry_kept w (run_hooks gs w)"
  unfolding run_hooks_def
proof (induction gs arbitrary: w)
  case (Cons g gs)
  have "registry_kept w (cache_delete g w)" by (simp add: registry_kept_def world_simps)
  with registry_kept_trans [OF this Cons.IH] show ?case by simp
qed (simp add: registry_kept_def)

lemma lock_operation_kept: "kept_by i w (snd (lock_operation_mode dl i mode w))"
proof (cases "find_txn i w")
  case (Some info)
  have "env_step w (snd (acquire_in dl w))"
    using env_step_calls(1) [of w "the dl"] env_step_elapse [of w] by (cases dl) (auto simp: acquire_in_def)
  then have "kept_by i w (snd (acquire_in dl w))" and "find_txn i (snd (acquire_in dl w)) = Some info"
    using Some by (simp_all add: kept_by_env env_step_sees)
  with kept_by_trans [OF this(1) kept_by_expire [OF this(2)]] Some show ?thesis
    by (auto simp: lock_operation_mode_def case_prod_beta Let_def split: sum.split prod.split)
qed (simp add: lock_operation_mode_def)

lemma lock_operation_Inr:
  assumes "lock_operation_mode dl i Normal_Operation w = (Inr x, w')"
  shows "\<exists>info. find_txn i w = Some info \<and> find_txn i w' = Some info \<and> \<not> ti_expired info"
proof -
  obtain info where f: "find_txn i w = Some info" using assms by (cases "find_txn i w") (auto simp: lock_operation_mode_def)
  obtain res w1 where a: "acquire_in dl w = (res, w1)" by (cases "acquire_in dl w")
  have "env_step w w1" using a env_step_calls(1) [of w "the dl"] env_step_elapse [of w]
    by (cases dl) (auto simp: acquire_in_def)
  then have f1: "find_txn i w1 = Some info" using f by (simp add: env_step_sees)
  with f a assms have "w' = put_txn i (lease_expired (monotonic_ns w1) info) w1" "\<not> ti_expired (lease_expired (monotonic_ns w1) info)"
    by (auto simp: lock_operation_mode_def Let_def split: sum.splits if_splits)
  with f f1 show ?thesis by (auto simp: lease_expired_def world_simps split: if_splits)
qed

lemma commit_unfold:
  "commit dl i w =
     op_case (lock_operation_mode (Some dl) i Normal_Operation) (\<lambda>e w. (Inl e, w)) (\<lambda>_ w.
       case find_txn i w of
         None \<Rightarrow> (Inl Err_Unknown_Txn, w)
       | Some info \<Rightarrow>
           if ti_failed info then (Inl Err_Interrupted_Txn, w)
           else op_case (\<lambda>w. if ti_hive info \<noteq> None then gate_acquire dl w else (Inr (), w)) (\<lambda>e w. (Inl e, w)) (\<lambda>_ w.
             if ctx_done dl w then (Inl Err_Ctx, w)
             else
               let w = snd (elapse w); info = lease_expired (monotonic_ns w) info; w = put_txn i info w in
               if ti_expired info then (Inl Err_Expired_Txn, w)
               else if ti_read_only info then (Inr (), delete_txn i w)
               else
                 (case (ti_conn info, ti_hive info) of
                    (Some d, Some h) \<Rightarrow>
                      op_case (commit_conn dl) (\<lambda>e w. (Inl e, w))
                        (\<lambda>_ w. (Inr (), delete_txn i (run_hooks (ti_on_commit info) (publish h d w)))) w
                  | _ \<Rightarrow> (Inr (), delete_txn i w))) w) w"
  unfolding commit_def op_case_def ..

text \<open>Success publishes the working copy and nothing else; failure changes nothing but the
  mark of an expired lease.\<close>

definition commit_ends :: "u64 \<Rightarrow> world \<Rightarrow> world \<Rightarrow> bool" where
  "commit_ends i w w' \<longleftrightarrow>
     (\<exists>info. find_txn i w = Some info \<and> \<not> ti_failed info \<and> \<not> ti_expired info \<and> find_txn i w' = None \<and>
        others_kept i w w' \<and> registry_kept w w' \<and> (\<forall>h. hive_db h w' = committed_db info w h))"

lemma commit_outcome:
  assumes "commit dl i w = (res, w')" and "coherent w"
  shows "case res of Inl e \<Rightarrow> kept_by i w w' | Inr _ \<Rightarrow> commit_ends i w w'"
proof -
  obtain r1 w1 where l: "lock_operation_mode (Some dl) i Normal_Operation w = (r1, w1)"
    by (cases "lock_operation_mode (Some dl) i Normal_Operation w")
  have k1: "kept_by i w w1" using lock_operation_kept [of i w "Some dl" Normal_Operation] l by simp
  show ?thesis
  proof (cases r1)
    case (Inl e)
    with assms(1) l k1 show ?thesis by (auto simp: commit_unfold op_case_def)
  next
    case (Inr u)
    from lock_operation_Inr [OF l [unfolded Inr]] obtain info
      where f: "find_txn i w = Some info" "find_txn i w1 = Some info" "\<not> ti_expired info" by blast
    let ?gate = "\<lambda>w. if ti_hive info \<noteq> None then gate_acquire dl w else (Inr (), w)"
    obtain r2 w2 where g: "?gate w1 = (r2, w2)" by (cases "?gate w1")
    have e2: "env_step w1 w2" using g env_step_calls(1) [of w1 dl] by (auto split: if_splits)
    have k2: "kept_by i w w2" by (rule kept_by_trans [OF k1 kept_by_env [OF e2]])
    let ?w3 = "snd (elapse w2)" and ?info = "lease_expired (monotonic_ns (snd (elapse w2))) info"
    let ?w4 = "put_txn i ?info ?w3"
    have f3: "find_txn i ?w3 = Some info" using f(2) e2 env_step_elapse [of w2] by (simp add: env_step_sees)
    have k3: "kept_by i w ?w3" by (rule kept_by_trans [OF k2 kept_by_env [OF env_step_elapse]])
    have k4: "kept_by i w ?w4" by (rule kept_by_trans [OF k3 kept_by_expire [OF f3]])
    obtain r5 w5 where c: "commit_conn dl ?w4 = (r5, w5)" by (cases "commit_conn dl ?w4")
    have k5: "kept_by i w w5"
      using kept_by_trans [OF k4 kept_by_env [OF env_step_calls(3)], of dl] c by simp
    have hive: "find_hive h w5 \<noteq> None" if "ti_hive info = Some h" for h
      using k5 f(1) assms(2) that unfolding coherent_def kept_by_def registry_kept_def by metis
    have ends: "commit_ends i w (delete_txn i w')" if "kept_by i w w'" "\<not> ti_failed info"
      "\<not> (\<exists>d h. ti_conn info = Some d \<and> ti_hive info = Some h \<and> \<not> ti_read_only info)" for w'
      using that f registry_kept_trans [OF _ registry_kept_updates(2)]
      by (auto simp: commit_ends_def kept_by_def hives_kept_def others_kept_def committed_db_def world_simps split: option.split)
    have published: "registry_kept w (delete_txn i (run_hooks gs (publish h d w5)))" for gs h d
      by (rule registry_kept_trans [OF registry_kept_trans [OF registry_kept_trans [OF _ registry_kept_updates(3)] registry_kept_hooks] registry_kept_updates(2)])
        (use k5 in \<open>simp add: kept_by_def\<close>)
    have publishes: "commit_ends i w (delete_txn i (run_hooks gs (publish h d w5)))"
      if "ti_conn info = Some d" "ti_hive info = Some h" "\<not> ti_read_only info" "\<not> ti_failed info" for d h gs
      using that f k5 hive [OF that(2)] published
      by (auto simp: commit_ends_def kept_by_def hives_kept_def others_kept_def committed_db_def world_simps)
    show ?thesis
      using assms(1) l Inr f g k1 k2 k4 c k5 ends [OF k4] publishes
      by (auto simp: commit_unfold op_case_def Let_def split: sum.splits if_splits option.splits)
  qed
qed

lemma abort_outcome: "find_txn i (abort i w) = None" "others_kept i w (abort i w)" "hives_kept w (abort i w)" "registry_kept w (abort i w)"
proof -
  have "acquire_in None w = (Inr (), snd (elapse w))" by (simp add: acquire_in_def)
  then have "find_txn j (abort i w) = (if j = i then None else find_txn j w) \<and> hive_db h (abort i w) = hive_db h w" for j h
    using env_step_elapse [of w] env_step_elapse [of "snd (elapse w)"]
    by (cases "find_txn i w") (auto simp: abort_def lock_operation_mode_def Let_def env_step_sees world_simps)
  then show "find_txn i (abort i w) = None" "others_kept i w (abort i w)" "hives_kept w (abort i w)"
    by (simp_all add: others_kept_def hives_kept_def)
  have env: "registry_kept w w'" if "env_step w w'" for w' using that by (simp add: registry_kept_def env_step_sees)
  have ended: "registry_kept w (run_hooks gs (delete_txn i w'))" if "env_step w w'" for w' gs
    by (intro registry_kept_trans [OF env [OF that] registry_kept_trans [OF registry_kept_updates(2) registry_kept_hooks]])
  show "registry_kept w (abort i w)"
    using ended [OF env_step_elapse] ended [OF env_step_trans [OF env_step_elapse env_step_elapse]] env [OF env_step_elapse] env
    by (auto simp: abort_def lock_operation_mode_def acquire_in_def Let_def split: option.split)
qed

section \<open>The lease loop\<close>

text \<open>A turn of the loop may end transactions and change the lease fields of the others.\<close>

definition same_work :: "txn_info \<Rightarrow> txn_info \<Rightarrow> bool" where
  "same_work info info' \<longleftrightarrow>
     ti_hive info' = ti_hive info \<and> ti_conn info' = ti_conn info \<and> ti_read_only info' = ti_read_only info \<and>
     ti_failed info' = ti_failed info \<and> ti_on_commit info' = ti_on_commit info \<and> ti_on_abort info' = ti_on_abort info \<and>
     (ti_expired info \<longrightarrow> ti_expired info')"

definition lease_turn :: "world \<Rightarrow> world \<Rightarrow> bool" where
  "lease_turn w w' \<longleftrightarrow>
     hives_kept w w' \<and> registry_kept w w' \<and>
     (\<forall>j info'. find_txn j w' = Some info' \<longrightarrow> (\<exists>info. find_txn j w = Some info \<and> same_work info info'))"

lemma same_work_refl [simp]: "same_work info info"
  by (simp add: same_work_def)

lemma same_work_trans: "same_work a b \<Longrightarrow> same_work b c \<Longrightarrow> same_work a c"
  by (simp add: same_work_def)

lemma lease_turnD: "lease_turn w w' \<Longrightarrow> find_txn j w' = Some info' \<Longrightarrow> \<exists>info. find_txn j w = Some info \<and> same_work info info'"
  by (simp add: lease_turn_def)

lemma lease_turn_registry: "lease_turn w w' \<Longrightarrow> registry_kept w w'"
  by (simp add: lease_turn_def)

lemma lease_turn_hives: "lease_turn w w' \<Longrightarrow> hive_db h w' = hive_db h w"
  by (simp add: lease_turn_def hives_kept_def)

lemma lease_turn_trans: "lease_turn w w' \<Longrightarrow> lease_turn w' w'' \<Longrightarrow> lease_turn w w''"
  unfolding lease_turn_def [of w w''] hives_kept_def
proof (intro conjI allI impI)
  fix j info'' assume "lease_turn w w'" "lease_turn w' w''" "find_txn j w'' = Some info''"
  then obtain info' info where "same_work info' info''" "find_txn j w = Some info" "same_work info info'"
    using lease_turnD [of w' w'' j info''] lease_turnD [of w w' j] by blast
  then show "\<exists>info. find_txn j w = Some info \<and> same_work info info''" by (blast intro: same_work_trans)
qed (simp add: lease_turn_hives, auto intro: registry_kept_trans lease_turn_registry)

lemma lease_turn_env: "env_step w w' \<Longrightarrow> lease_turn w w'"
  by (simp add: lease_turn_def hives_kept_def registry_kept_def env_step_sees)

lemma lease_turn_refl [simp]: "lease_turn w w"
  by (simp add: lease_turn_def hives_kept_def registry_kept_def)

lemma lease_turn_put: "find_txn i w = Some info \<Longrightarrow> same_work info info' \<Longrightarrow> lease_turn w (put_txn i info' w)"
  by (simp add: lease_turn_def hives_kept_def registry_kept_updates world_simps)

lemma lease_turn_abort: "lease_turn w (abort i w)"
  unfolding lease_turn_def
proof (intro conjI allI impI)
  fix j info assume "find_txn j (abort i w) = Some info"
  then have "find_txn j w = Some info" using abort_outcome(1,2) [where i = i and w = w] by (cases "j = i") (simp_all add: others_kept_def)
  then show "\<exists>info0. find_txn j w = Some info0 \<and> same_work info0 info" by simp
qed (rule abort_outcome)+

lemma lease_turn_renew: "lease_turn w (renew_one renew i w)"
proof (cases "find_txn i w")
  case (Some info)
  let ?w = "snd (elapse w)" and ?w' = "snd (elapse (snd (elapse w)))"
  have e: "env_step w ?w" "env_step w ?w'" by (blast intro: env_step_elapse env_step_trans)+
  have "lease_turn w (put_txn i info' v)" if "v = ?w \<or> v = ?w'" "same_work info info'" for v info'
    using that e Some by (metis lease_turn_env lease_turn_put lease_turn_trans env_step_sees(1))
  then show ?thesis using Some
    by (auto simp: renew_one_def Let_def same_work_def lease_expired_def split: option.split)
qed (simp add: renew_one_def)

lemma lease_turn_foldl: "(\<And>i w. lease_turn w (f w i)) \<Longrightarrow> lease_turn w (foldl f w is)"
  by (induction "is" arbitrary: w) (simp, metis foldl_Cons lease_turn_trans)

lemma find_txn_scan:
  "find_txn i (w\<lparr>w_txns := map (\<lambda>(i, info). (i, f info)) (w_txns w)\<rparr>) = map_option f (find_txn i w)"
  by (simp add: find_txn_def map_of_map)

lemma scan_sees: "hive_db h (w\<lparr>w_txns := txns\<rparr>) = hive_db h w"
  by (simp add: hive_db_def find_hive_def)

lemma lease_scan_work: "same_work info (lease_scan now info)"
  by (simp add: same_work_def lease_scan_def lease_expired_def Let_def)

lemma lease_turn_scan: "lease_turn w (w\<lparr>w_txns := map (\<lambda>(i, info). (i, lease_scan now info)) (w_txns w)\<rparr>)"
  by (auto simp: lease_turn_def hives_kept_def registry_kept_updates scan_sees find_txn_scan lease_scan_work)

lemma maintain_lease_turn: "lease_turn w (maintain_leases renew w)"
proof -
  have fold: "lease_turn w (foldl f v is)" if "lease_turn w v" "\<And>i w. lease_turn w (f w i)" for f v and "is" :: "u64 list"
    using that(1) lease_turn_foldl [of f v "is", OF that(2)] by (rule lease_turn_trans)
  show ?thesis
    unfolding maintain_leases_def Let_def
    by (rule fold, rule fold, rule lease_turn_trans [OF lease_turn_env [OF env_step_elapse] lease_turn_scan],
        rule lease_turn_renew, rule lease_turn_abort)
qed

lemma lease_turn_gone: "lease_turn w w' \<Longrightarrow> find_txn i w = None \<Longrightarrow> find_txn i w' = None"
  using lease_turnD [of w w' i] by (cases "find_txn i w'") auto

lemma foldl_abort_gone: "i \<in> set is \<Longrightarrow> find_txn i (foldl (\<lambda>w i. abort i w) w is) = None"
proof (induction "is" arbitrary: w)
  case (Cons k ks)
  have "lease_turn (abort k w) (foldl (\<lambda>w i. abort i w) (abort k w) ks)" by (intro lease_turn_foldl lease_turn_abort)
  with Cons abort_outcome(1) [where i = k and w = w] show ?case by (auto intro: lease_turn_gone)
qed simp

lemma maintain_cleans:
  assumes "find_txn i w = Some info" and "needs_cleanup (monotonic_ns (snd (elapse w))) info"
  shows "find_txn i (maintain_leases renew w) = None"
proof -
  have "w_txns (snd (elapse w)) = w_txns w" using env_step_elapse by (rule env_step_sees)
  then have "i \<in> fst ` {(i, info) \<in> set (w_txns (snd (elapse w))). needs_cleanup (monotonic_ns (snd (elapse w))) info}"
    using assms by (auto simp: find_txn_def dest!: map_of_SomeD intro!: image_eqI [of _ _ "(i, info)"])
  then show ?thesis
    unfolding maintain_leases_def Let_def by (intro foldl_abort_gone) (auto simp: case_prod_beta)
qed

section \<open>Transaction control requests\<close>

lemma start_control: "start_request (header\<lparr>txnID := 0\<rparr>) w = (res, w') \<Longrightarrow> env_step w w' \<and> (\<exists>r. res = Inr r \<and> rq_txn r = 0)"
  using env_step_elapse [of w] by (auto simp: start_request_def Let_def split: if_splits)

lemma finish_control: "rq_txn r = 0 \<Longrightarrow> env_step w (snd (finish_request r st w)) \<and> (fst (finish_request r st w) = status_ok \<longleftrightarrow> st = status_ok)"
  using env_step_elapse [of w] by (auto simp: finish_request_def Let_def status_ok_def status_txn_busy_def status_storage_error_def)

lemma with_control:
  assumes "with_request (header\<lparr>txnID := 0\<rparr>) body w = (rep, w')"
  obtains r v w1 st resp where "env_step w v" "rq_txn r = 0" "body r v = ((st, resp), w1)" "env_step w1 w'"
    "snd rep = resp" "fst rep = status_ok \<longleftrightarrow> st = status_ok"
proof -
  obtain res v where s: "start_request (header\<lparr>txnID := 0\<rparr>) w = (res, v)" by (cases "start_request (header\<lparr>txnID := 0\<rparr>) w")
  from start_control [OF s] obtain r where r: "env_step w v" "res = Inr r" "rq_txn r = 0" by blast
  obtain st resp w1 where b: "body r v = ((st, resp), w1)" by (metis surj_pair)
  from assms s r(2) b finish_control [OF r(3), of w1 st] that [OF r(1,3) b] show ?thesis
    by (auto simp: with_request_def case_prod_beta Let_def)
qed

lemma handle_abort_cases:
  assumes "handle_abort_transaction header payload w = (rep, w')"
  obtains (undecoded) "decode_abort_transaction_request (new_decoder payload) = None" "env_step w w'" "fst rep \<noteq> status_ok"
  | (aborted) req d v where "decode_abort_transaction_request (new_decoder payload) = Some (req, d)"
      "env_step w v" "env_step (abort (atr_txn_id req) v) w'" "fst rep = status_ok"
proof (cases "decode_abort_transaction_request (new_decoder payload)")
  case None
  from assms None show ?thesis
    unfolding handle_abort_transaction_def Let_def
    by (elim with_control) (auto simp: decoded_def answer_def status_ok_def status_invalid_def intro: undecoded env_step_trans)
next
  case (Some p)
  obtain req d where p: "p = (req, d)" by (cases p)
  from assms Some p show ?thesis
    unfolding handle_abort_transaction_def Let_def
    by (elim with_control) (auto simp: decoded_def answer_def intro: aborted [of req d])
qed

lemma handle_commit_cases:
  assumes "handle_commit_transaction header payload w = (rep, w')"
  obtains (refused) "env_step w w'" "fst rep = status_invalid"
  | (failed) req d v dl e where "decode_commit_transaction_request (new_decoder payload) = Some (req, d)"
      "env_step w v" "commit dl (ctr_txn_id req) v = (Inl e, w')" "fst rep = storage_status e"
  | (committed) req d v dl x where "decode_commit_transaction_request (new_decoder payload) = Some (req, d)"
      "env_step w v" "commit dl (ctr_txn_id req) v = (Inr x, w')" "fst rep = status_ok"
proof -
  obtain res v where s: "start_request (header\<lparr>txnID := 0\<rparr>) w = (res, v)" by (cases "start_request (header\<lparr>txnID := 0\<rparr>) w")
  from start_control [OF s] obtain r where r: "env_step w v" "res = Inr r" by blast
  show ?thesis
  proof (cases "session header \<noteq> 0 \<and> leaseNS header = 0")
    case True
    with assms show ?thesis by (auto simp: handle_commit_transaction_def answer_def intro: refused)
  next
    case False
    show ?thesis
    proof (cases "decode_commit_transaction_request (new_decoder payload)")
      case None
      with assms s r False show ?thesis
        by (auto simp: handle_commit_transaction_def op_case_def decoded_def answer_def intro: refused)
    next
      case (Some p)
      obtain req d where p: "p = (req, d)" by (cases p)
      obtain out w1 where c: "commit (rq_deadline r) (ctr_txn_id req) v = (out, w1)" by (metis surj_pair)
      with assms s r False Some p show ?thesis
        by (cases out) (auto simp: handle_commit_transaction_def op_case_def decoded_def answer_def storage_status_def
            intro: failed committed split: if_splits)
    qed
  qed
qed

end
