(* ===== verification/Isolation.thy ===== *)
theory Isolation
  imports Daemon
begin

unbundle bit_operations_syntax

text \<open>
  The properties of transactions over whole executions: the invariant of the reachable
  states, the isolation of a writing transaction from every other request, the outcome of
  COMMIT and ABORT, read-only transactions, leases.
\<close>

section \<open>Steps and reachable states\<close>

inductive daemon_step :: "world \<Rightarrow> world \<Rightarrow> bool" where
  request: "daemon_step w (snd (serve hdr payload w))"
| leases: "daemon_step w (maintain_leases renew w)"
| shutdown: "daemon_step w (close_txns w)"

definition daemon_init :: "world \<Rightarrow> bool" where
  "daemon_init w \<longleftrightarrow> (\<exists>hives e. (\<forall>hv\<in>set hives. db_ok (hv_db hv)) \<and> w = new_handler hives e)"

lemma new_handler_sees:
  assumes "\<forall>hv\<in>set hives. db_ok (hv_db hv)"
  shows "find_txn i (new_handler hives e) = None" "db_ok (hive_db h (new_handler hives e))"
    "w_cache (new_handler hives e) g = Some h \<Longrightarrow> find_hive h (new_handler hives e) \<noteq> None"
proof -
  let ?f = "\<lambda>w hv. cache_store (hv_root_guid hv) (fold_string (hv_name hv))
      (w\<lparr>w_hives := AList.update (fold_string (hv_name hv)) hv (w_hives w)\<rparr>)"
  have step: "find_txn i (?f w hv) = find_txn i w" "hive_db h (?f w hv) = (if h = fold_string (hv_name hv) then hv_db hv else hive_db h w)" for w hv
    by (auto simp: find_txn_def hive_db_def find_hive_def cache_store_def update_conv' split: option.split)
  have "find_txn i (foldl ?f w hives) = find_txn i w \<and> (db_ok (hive_db h w) \<longrightarrow> db_ok (hive_db h (foldl ?f w hives)))" for w
    using assms
  proof (induction hives arbitrary: w)
    case (Cons hv hives)
    have "db_ok (hive_db h w) \<longrightarrow> db_ok (hive_db h (?f w hv))" using Cons.prems by (simp add: step)
    moreover have "find_txn i (foldl ?f (?f w hv) hives) = find_txn i (?f w hv) \<and>
        (db_ok (hive_db h (?f w hv)) \<longrightarrow> db_ok (hive_db h (foldl ?f (?f w hv) hives)))"
      by (rule Cons.IH) (use Cons.prems in simp)
    ultimately show ?case using step(1) by (simp only: foldl_Cons) blast
  qed simp
  note steps = this
  have "(\<forall>g h. w_cache w g = Some h \<longrightarrow> find_hive h w \<noteq> None) \<Longrightarrow>
      \<forall>g h. w_cache (foldl ?f w hives) g = Some h \<longrightarrow> find_hive h (foldl ?f w hives) \<noteq> None" for w hives
  proof (induction hives arbitrary: w)
    case (Cons hv hives)
    have "\<forall>g h. w_cache (?f w hv) g = Some h \<longrightarrow> find_hive h (?f w hv) \<noteq> None"
      using Cons.prems by (auto simp: find_hive_def cache_store_def update_conv')
    from Cons.IH [OF this] show ?case by simp
  qed simp
  from this [of "\<lparr>w_hives = [], w_cache = (\<lambda>_. None), w_txns = [], w_env = e, w_budget = request_timeout\<rparr>" hives]
  show "find_hive h (new_handler hives e) \<noteq> None" if "w_cache (new_handler hives e) g = Some h"
    using that unfolding new_handler_def by fastforce
  from steps [of "\<lparr>w_hives = [], w_cache = (\<lambda>_. None), w_txns = [], w_env = e, w_budget = request_timeout\<rparr>"]
  show "find_txn i (new_handler hives e) = None" "db_ok (hive_db h (new_handler hives e))"
    by (simp_all add: new_handler_def find_txn_def hive_db_def find_hive_def db_ok_empty)
qed

lemma world_inv_new: "daemon_init w \<Longrightarrow> world_inv w"
  using new_handler_sees(3) by (auto simp: daemon_init_def world_inv_def writer_def coherent_def new_handler_sees(1,2))

text \<open>What a change must respect to keep the invariant.\<close>

lemma world_inv_shrink:
  assumes "world_inv w" and "registry_kept w w'" and "\<And>h. db_ok (hive_db h w')"
    and "\<And>i info'. find_txn i w' = Some info' \<Longrightarrow> \<exists>info. find_txn i w = Some info \<and> same_work info info'"
  shows "world_inv w'"
proof -
  have "info_ok info'" if "find_txn i w' = Some info'" for i info'
    using assms(4) [OF that] world_inv_info [OF assms(1), of i] by (auto simp: info_ok_def same_work_def split: option.splits)
  moreover have "writer i h w" if "writer i h w'" for i h
    using that assms(4) [of i] by (cases "find_txn i w'") (auto simp: writer_def same_work_def)
  moreover have "ti_conn info' = None" if "find_txn 0 w' = Some info'" for info'
    using that assms(1) assms(4) [OF that] by (auto simp: world_inv_def same_work_def)
  moreover have "coherent w'"
    unfolding coherent_def
  proof (intro conjI allI impI)
    have "coherent w" using assms(1) by (simp add: world_inv_def)
    then show "find_hive h w' \<noteq> None" if "w_cache w' g = Some h" for g h
      using that assms(2) unfolding coherent_def registry_kept_def by metis
    show "find_hive h w' \<noteq> None" if "find_txn i w' = Some info'" "ti_hive info' = Some h" for i info' h
    proof -
      from assms(4) [OF that(1)] that(2) obtain info where "find_txn i w = Some info" "ti_hive info = Some h"
        by (auto simp: same_work_def)
      with \<open>coherent w\<close> assms(2) show ?thesis unfolding coherent_def registry_kept_def by metis
    qed
  qed
  ultimately show ?thesis using assms(1,3) unfolding world_inv_def by metis
qed

lemma world_inv_lease: "world_inv w \<Longrightarrow> lease_turn w w' \<Longrightarrow> world_inv w'"
  by (rule world_inv_shrink) (auto simp: lease_turn_hives lease_turn_registry world_inv_def dest: lease_turnD)

lemma kept_by_lease: "kept_by i w w' \<Longrightarrow> lease_turn w w'"
  unfolding lease_turn_def
proof (intro conjI allI impI)
  show "kept_by i w w' \<Longrightarrow> registry_kept w w'" by (simp add: kept_by_def)
next
  fix j info' assume "kept_by i w w'" "find_txn j w' = Some info'"
  then show "\<exists>info. find_txn j w = Some info \<and> same_work info info'"
    by (cases "j = i"; cases "find_txn i w") (auto simp: kept_by_def others_kept_def entry_kept_def same_work_def)
qed (simp add: kept_by_def)

lemma committed_db_ok: "world_inv w \<Longrightarrow> find_txn i w = Some info \<Longrightarrow> db_ok (committed_db info w h)"
  using world_inv_info [of w i info]
  by (auto simp: committed_db_def info_ok_def world_inv_def split: option.splits)

lemma world_inv_commit: "world_inv w \<Longrightarrow> world_inv (snd (commit dl i w))"
proof -
  assume inv: "world_inv w"
  obtain res w' where c: "commit dl i w = (res, w')" by (cases "commit dl i w")
  have coh: "coherent w" using inv by (simp add: world_inv_def)
  have "world_inv w'"
  proof (cases res)
    case (Inl e)
    then show ?thesis using commit_outcome [OF c coh] inv world_inv_lease kept_by_lease by auto
  next
    case (Inr x)
    with commit_outcome [OF c coh] obtain info where info: "find_txn i w = Some info" "find_txn i w' = None"
      "others_kept i w w'" "registry_kept w w'" "\<forall>h. hive_db h w' = committed_db info w h" by (auto simp: commit_ends_def)
    show ?thesis
    proof (rule world_inv_shrink [OF inv])
      show "registry_kept w w'" by fact
      show "db_ok (hive_db h w')" for h using info committed_db_ok [OF inv info(1)] by simp
      show "\<exists>info0. find_txn j w = Some info0 \<and> same_work info0 info'" if "find_txn j w' = Some info'" for j info'
        using that info(2,3) by (cases "j = i") (auto simp: others_kept_def)
    qed
  qed
  with c show ?thesis by simp
qed

lemma world_inv_envs: "world_inv w \<Longrightarrow> env_step w w' \<Longrightarrow> world_inv w'"
  by (auto simp: env_step_def)

lemma world_inv_serve:
  assumes inv: "world_inv w"
  shows "world_inv (snd (serve hdr payload w))"
proof -
  consider "opCode hdr \<notin> {op_begin_transaction, op_commit_transaction, op_abort_transaction}"
    | "opCode hdr = op_begin_transaction" | "opCode hdr = op_commit_transaction" | "opCode hdr = op_abort_transaction"
    by auto
  then show ?thesis
  proof cases
    case 1
    then show ?thesis using inv.dispatched [OF HOL.refl 1, of w payload] inv by (simp add: keeps_inv_def)
  next
    case 2
    have "keeps_inv w (snd (handle_begin_transaction hdr payload w))"
      by (rule inv.handler_begin) (auto simp: keeps_inv_def intro: world_inv_put)
    with inv 2 show ?thesis by (simp add: dispatch_world control_handlers keeps_inv_def)
  next
    case 3
    obtain rep w' where h: "handle_commit_transaction hdr payload w = (rep, w')" by (metis surj_pair)
    then have "world_inv w'"
      using inv world_inv_envs world_inv_commit by (elim handle_commit_cases) (metis snd_conv)+
    with 3 h show ?thesis by (simp add: dispatch_world control_handlers)
  next
    case 4
    obtain rep w' where h: "handle_abort_transaction hdr payload w = (rep, w')" by (metis surj_pair)
    then have "world_inv w'"
      using inv world_inv_envs world_inv_lease lease_turn_abort by (elim handle_abort_cases) metis+
    with 4 h show ?thesis by (simp add: dispatch_world control_handlers)
  qed
qed

lemma world_inv_step: "world_inv w \<Longrightarrow> daemon_step w w' \<Longrightarrow> world_inv w'"
proof (erule daemon_step.cases)
  fix v renew assume "world_inv w" "w = v" "w' = maintain_leases renew v"
  then show "world_inv w'" using maintain_lease_turn world_inv_lease by blast
next
  fix v assume "world_inv w" "w = v" "w' = close_txns v"
  moreover have "lease_turn v (close_txns v)" unfolding close_txns_def by (intro lease_turn_foldl lease_turn_abort)
  ultimately show "world_inv w'" using world_inv_lease by blast
qed (simp add: world_inv_serve)

interpretation daemon: invariant_system daemon_init daemon_step world_inv
  by unfold_locales (fact world_inv_new, fact world_inv_step)

section \<open>Isolation\<close>

text \<open>The transaction a request works on or ends.\<close>

definition targets :: "u64 \<Rightarrow> request_header \<Rightarrow> bytes \<Rightarrow> bool" where
  "targets j hdr payload \<longleftrightarrow>
     (if opCode hdr = op_begin_transaction then False
      else if opCode hdr = op_commit_transaction then
        (case decode_commit_transaction_request (new_decoder payload) of Some (req, _) \<Rightarrow> ctr_txn_id req = j | None \<Rightarrow> False)
      else if opCode hdr = op_abort_transaction then
        (case decode_abort_transaction_request (new_decoder payload) of Some (req, _) \<Rightarrow> atr_txn_id req = j | None \<Rightarrow> False)
      else txnID hdr = j)"

lemma untouched_by_commit:
  assumes inv: "world_inv w" and "j \<noteq> i"
  shows "find_txn j (snd (commit dl i w)) = find_txn j w" "writer j h w \<Longrightarrow> hive_db h (snd (commit dl i w)) = hive_db h w"
proof -
  obtain res w' where c: "commit dl i w = (res, w')" by (cases "commit dl i w")
  have out: "case res of Inl e \<Rightarrow> kept_by i w w' | Inr _ \<Rightarrow> commit_ends i w w'"
    by (rule commit_outcome [OF c]) (use inv in \<open>simp add: world_inv_def\<close>)
  then show "find_txn j (snd (commit dl i w)) = find_txn j w"
    using assms(2) c by (cases res) (auto simp: kept_by_def commit_ends_def others_kept_def)
  assume j: "writer j h w"
  have "committed_db info w h = hive_db h w" if "find_txn i w = Some info" for info
  proof -
    have "\<not> writer i h w" using inv j assms(2) unfolding world_inv_def by metis
    with that show ?thesis by (auto simp: writer_def committed_db_def split: option.split)
  qed
  with out c show "hive_db h (snd (commit dl i w)) = hive_db h w"
    by (cases res) (auto simp: kept_by_def hives_kept_def commit_ends_def)
qed

lemma serve_isolated:
  assumes inv: "world_inv w" and j: "j \<noteq> 0" and other: "\<not> targets j hdr payload"
  shows "(find_txn j w \<noteq> None \<longrightarrow> find_txn j (snd (serve hdr payload w)) = find_txn j w) \<and>
    (writer j h w \<longrightarrow> hive_db h (snd (serve hdr payload w)) = hive_db h w)"
proof -
  consider (work) "opCode hdr \<notin> {op_begin_transaction, op_commit_transaction, op_abort_transaction}"
    | (begins) "opCode hdr = op_begin_transaction" | (commits) "opCode hdr = op_commit_transaction"
    | (aborts) "opCode hdr = op_abort_transaction" by auto
  then show ?thesis
  proof cases
    case work
    with other have "txnID hdr \<noteq> j" by (auto simp: targets_def split: if_splits)
    with iso.dispatched [OF HOL.refl work, of j h w payload] j show ?thesis by (auto simp: undisturbed_def writer_def)
  next
    case begins
    have "undisturbed j h 0 w (snd (handle_begin_transaction hdr payload w))"
      by (rule iso.handler_begin) (auto simp: undisturbed_def world_simps)
    with j begins show ?thesis by (auto simp: undisturbed_def dispatch_world control_handlers writer_def)
  next
    case commits
    obtain rep w' where h: "handle_commit_transaction hdr payload w = (rep, w')" by (metis surj_pair)
    from h have "find_txn j w' = find_txn j w \<and> (writer j h w \<longrightarrow> hive_db h w' = hive_db h w)"
    proof (cases rule: handle_commit_cases)
      case refused then show ?thesis by (simp add: env_step_sees)
    next
      case (failed req d v dl e)
      with other commits have "j \<noteq> ctr_txn_id req" by (auto simp: targets_def op_defs)
      note kept = untouched_by_commit [OF world_inv_envs [OF inv failed(2)] this, where dl = dl]
      from kept failed(2,3) show ?thesis by (auto simp: env_step_sees writer_def)
    next
      case (committed req d v dl x)
      with other commits have "j \<noteq> ctr_txn_id req" by (auto simp: targets_def op_defs)
      note kept = untouched_by_commit [OF world_inv_envs [OF inv committed(2)] this, where dl = dl]
      from kept committed(2,3) show ?thesis by (auto simp: env_step_sees writer_def)
    qed
    with h commits show ?thesis by (simp add: dispatch_world control_handlers)
  next
    case aborts
    obtain rep w' where h: "handle_abort_transaction hdr payload w = (rep, w')" by (metis surj_pair)
    from h have "find_txn j w' = find_txn j w \<and> hive_db h w' = hive_db h w"
    proof (cases rule: handle_abort_cases)
      case undecoded then show ?thesis by (simp add: env_step_sees)
    next
      case (aborted req d v)
      with other aborts have "j \<noteq> atr_txn_id req" by (auto simp: targets_def op_defs)
      with abort_outcome [where i = "atr_txn_id req" and w = v] aborted show ?thesis
        by (simp add: env_step_sees others_kept_def hives_kept_def)
    qed
    with h aborts show ?thesis by (simp add: dispatch_world control_handlers)
  qed
qed

section \<open>The outcome of the control requests\<close>

lemma committed_db_env: "env_step w v \<Longrightarrow> committed_db info v h = committed_db info w h"
  by (simp add: committed_db_def env_step_sees split: option.split)

lemma commit_request:
  assumes inv: "world_inv w" and run: "handle_commit_transaction hdr payload w = (rep, w')"
  shows "(fst rep = status_ok \<and>
      (\<exists>req d. decode_commit_transaction_request (new_decoder payload) = Some (req, d) \<and> commit_ends (ctr_txn_id req) w w')) \<or>
    (fst rep \<noteq> status_ok \<and> hives_kept w w' \<and> (\<forall>j. entry_kept j w w'))"
proof -
  have coh: "coherent v" if "env_step w v" for v
    using world_inv_envs [OF inv that] by (simp add: world_inv_def)
  from run show ?thesis
  proof (cases rule: handle_commit_cases)
    case refused
    then show ?thesis by (simp add: hives_kept_def entry_kept_def env_step_sees status_invalid_def status_ok_def)
  next
    case (failed req d v dl e)
    have "kept_by (ctr_txn_id req) v w'" using commit_outcome [OF failed(3) coh [OF failed(2)]] by simp
    then have "hives_kept w w'" "entry_kept j w w'" for j
      using failed(2) by (cases "j = ctr_txn_id req"; simp add: kept_by_def hives_kept_def others_kept_def entry_kept_def env_step_sees)+
    with failed(4) show ?thesis by (simp add: storage_status_def status_defs)
  next
    case (committed req d v dl x)
    have "commit_ends (ctr_txn_id req) v w'" using commit_outcome [OF committed(3) coh [OF committed(2)]] by simp
    then have "commit_ends (ctr_txn_id req) w w'"
      using committed(2) by (simp add: commit_ends_def others_kept_def registry_kept_def env_step_sees committed_db_env)
    with committed show ?thesis by simp
  qed
qed

lemma abort_request:
  assumes "handle_abort_transaction hdr payload w = (rep, w')"
    and "decode_abort_transaction_request (new_decoder payload) = Some (req, d)"
  shows "fst rep = status_ok \<and> find_txn (atr_txn_id req) w' = None \<and> hives_kept w w' \<and> others_kept (atr_txn_id req) w w'"
  using assms(1)
proof (cases rule: handle_abort_cases)
  case undecoded
  with assms(2) show ?thesis by simp
next
  case (aborted req' d' v)
  with abort_outcome [where i = "atr_txn_id req" and w = v] assms(2) show ?thesis
    by (simp add: env_step_sees hives_kept_def others_kept_def)
qed

section \<open>Requests under an ended lease\<close>

lemma lock_expired:
  assumes "find_txn i w = Some info" and "ti_expired info"
  shows "\<exists>e\<in>{Err_Ctx, Err_Txn_Ended}. fst (lock_operation_mode (Some dl) i Normal_Operation w) = Inl e"
proof -
  obtain res v where a: "acquire_in (Some dl) w = (res, v)" by (cases "acquire_in (Some dl) w")
  have "env_step w v" using a env_step_calls(1) [of w dl] by (simp add: acquire_in_def)
  then have "find_txn i v = Some info" using assms(1) by (simp add: env_step_sees)
  with a assms show ?thesis
    by (auto simp: lock_operation_mode_def acquire_in_def gate_acquire_def lease_expired_def Let_def split: if_splits sum.splits)
qed

lemma start_expired:
  assumes "find_txn i w = Some info" and "ti_expired info" and "i \<noteq> 0" and "txnID hdr = i"
  obtains e v where "start_request hdr w = (Inl e, v)" "map_write_err e \<in> {status_storage_error, status_txn_busy}" "kept_by i w v"
proof -
  let ?w = "if session hdr \<noteq> 0 then snd (elapse w) else w"
  have e: "env_step w ?w" using env_step_elapse [of w] by simp
  then have f: "find_txn i ?w = Some info" using assms(1) by (simp add: env_step_sees)
  have k: "kept_by i w (snd (lock_operation_mode dl i mode ?w))" "kept_by i w ?w" for dl mode
    using kept_by_trans [OF kept_by_env [OF e] lock_operation_kept] kept_by_env [OF e] by simp_all
  have busy: "map_write_err e \<in> {status_storage_error, status_txn_busy}" if "e \<noteq> Err_Read_Only_Txn" for e
    using that by (simp add: map_write_err_def)
  define dl' where "dl' = nat (int (env_now (w_env ?w)) +
      (if session hdr \<noteq> 0 then if monotonic_ns ?w < deadlineNS hdr then sint (deadlineNS hdr - monotonic_ns ?w) else 0 else w_budget ?w))"
  have s: "start_request hdr w =
      (if session hdr \<noteq> 0 \<and> leaseNS hdr = 0 then (Inl Err_Expired_Txn, ?w)
       else case lock_operation_mode (Some dl') i Normal_Operation ?w of
         (Inl e, w) \<Rightarrow> (Inl e, w) | (Inr _, w) \<Rightarrow> (Inr \<lparr>rq_txn = i, rq_deadline = dl'\<rparr>, w))"
    using assms(3) unfolding assms(4) [symmetric] start_request_def Let_def dl'_def by simp
  obtain res v where l: "lock_operation_mode (Some dl') i Normal_Operation ?w = (res, v)" by (metis surj_pair)
  from lock_expired [OF f assms(2), of dl'] l obtain e where e: "res = Inl e" "e \<in> {Err_Ctx, Err_Txn_Ended}" by auto
  have "kept_by i w v" using k(1) [of "Some dl'" Normal_Operation] l by simp
  with s l e k(2) busy [of e] busy [of Err_Expired_Txn] that show ?thesis
    by (cases "session hdr \<noteq> 0 \<and> leaseNS hdr = 0") auto
qed

lemma handler_shape:
  assumes "register_handlers new_dispatcher op = Some h" and "op \<notin> {op_begin_transaction, op_commit_transaction, op_abort_transaction}"
  shows "\<exists>body. h hdr payload = with_request hdr body"
proof -
  note shapes = handle_lookup_def handle_enum_children_def handle_read_key_def handle_query_values_def handle_flush_def
    handle_create_entry_def handle_hide_entry_def handle_delete_entry_def handle_create_key_def handle_write_key_def
    handle_drop_key_def handle_set_value_def handle_delete_value_entry_def handle_set_blanket_tombstone_def handle_delete_layer_def
  have "\<forall>h\<in>{handle_lookup, handle_enum_children, handle_read_key, handle_query_values, handle_flush,
      handle_create_entry, handle_hide_entry, handle_delete_entry, handle_create_key, handle_write_key, handle_drop_key,
      handle_set_value, handle_delete_value_entry, handle_set_blanket_tombstone, handle_delete_layer}.
      \<exists>body. h hdr payload = with_request hdr body"
    by (intro ballI, elim insertE emptyE; hypsubst; unfold shapes; rule exI, rule HOL.refl)
  with handler_cases [OF assms(1)] assms(2) show ?thesis by blast
qed

lemma serve_expired:
  assumes "find_txn i w = Some info" and "ti_expired info" and "i \<noteq> 0" and "txnID hdr = i"
    and "opCode hdr \<notin> {op_begin_transaction, op_commit_transaction, op_abort_transaction}"
  shows "(\<exists>st\<in>{status_storage_error, status_txn_busy, status_invalid}.
      fst (serve hdr payload w) = write_response (requestID hdr) (opCode hdr) st []) \<and>
    hives_kept w (snd (serve hdr payload w)) \<and> (\<forall>j. entry_kept j w (snd (serve hdr payload w)))"
proof (cases "register_handlers new_dispatcher (opCode hdr)")
  case (Some h)
  from handler_shape [OF Some assms(5)] obtain body where body: "h hdr payload = with_request hdr body" by blast
  from start_expired [OF assms(1-4)] obtain e v where e: "start_request hdr w = (Inl e, v)"
    "map_write_err e \<in> {status_storage_error, status_txn_busy}" "kept_by i w v" by blast
  have "serve hdr payload w = (write_response (requestID hdr) (opCode hdr) (map_write_err e) [], v)"
    by (simp add: dispatch_def Some body with_request_def e(1))
  moreover have "entry_kept j w v" for j using e(3) by (cases "j = i") (auto simp: kept_by_def others_kept_def entry_kept_def)
  ultimately show ?thesis using e(2,3) by (auto simp: kept_by_def)
qed (simp add: dispatch_def hives_kept_def entry_kept_def)

end
