(* ===== verification/Runs.thy ===== *)
theory Runs
  imports Effects Dispatch
begin

text \<open>
  Requests in a calm environment: no event is pending, so no time passes, no call fails and
  no deadline is met.  The lemmas compute the blocking points away, and a small daemon with
  one hive runs a transaction; the properties of transactions are witnessed on it.
\<close>

section \<open>Calm evaluation\<close>

definition calm :: "world \<Rightarrow> bool" where
  "calm w \<longleftrightarrow> env_events (w_env w) = []"

named_theorems calm_simps \<open>evaluation in a calm environment\<close>

lemma next_event_calm: "env_events e = [] \<Longrightarrow> next_event e = (quiet, e)"
  by (simp add: next_event_def)

lemma elapse_calm [calm_simps]: "calm w \<Longrightarrow> elapse w = (quiet, w)"
  by (simp add: calm_def elapse_def next_event_calm)

lemma gate_acquire_calm [calm_simps]: "calm w \<Longrightarrow> \<not> ctx_done dl w \<Longrightarrow> gate_acquire dl w = (Inr (), w)"
  by (simp add: gate_acquire_def elapse_calm)

lemma storage_call_calm [calm_simps]: "calm w \<Longrightarrow> \<not> ctx_done dl w \<Longrightarrow> storage_call dl w = (Inr (), w)"
  by (simp add: storage_call_def elapse_calm quiet_def)

lemma commit_conn_calm [calm_simps]: "calm w \<Longrightarrow> \<not> ctx_done dl w \<Longrightarrow> commit_conn dl w = (Inr (), w)"
  by (simp add: commit_conn_def elapse_calm quiet_def)

lemma calm_updates [calm_simps]:
  "calm (put_txn i info w) = calm w" "calm (delete_txn i w) = calm w" "calm (publish h d w) = calm w"
  "calm (cache_store g h w) = calm w" "calm (cache_delete g w) = calm w"
  "ctx_done dl (put_txn i info w) = ctx_done dl w" "ctx_done dl (delete_txn i w) = ctx_done dl w"
  "ctx_done dl (publish h d w) = ctx_done dl w" "ctx_done dl (cache_store g h w) = ctx_done dl w"
  "ctx_done dl (cache_delete g w) = ctx_done dl w"
  by (simp_all add: calm_def ctx_done_def world_simps)

lemma arrange_quiet [calm_simps]: "arrange [] xs = xs" "arrange (ev_order quiet) xs = xs"
proof -
  show *: "arrange [] xs = xs" using length_arrange [of "[]" xs] by (auto simp: arrange_def split: if_splits)
  then show "arrange (ev_order quiet) xs = xs" by (simp add: quiet_def)
qed

text \<open>A request outside the lease protocol: its deadline is the handler's budget away.\<close>

definition plain_deadline :: "world \<Rightarrow> nat" where
  "plain_deadline w = nat (int (env_now (w_env w)) + w_budget w)"

lemma plain_deadline_ahead [calm_simps]: "0 < w_budget w \<Longrightarrow> \<not> ctx_done (plain_deadline w) w"
  by (auto simp: plain_deadline_def ctx_done_def)

lemma lock_operation_calm:
  assumes "calm w" "\<not> ctx_done dl w" "find_txn i w = Some info" "ti_session info = 0" "\<not> ti_expired info"
  shows "lock_operation_mode (Some dl) i mode w = (Inr (), w)"
  using assms by (simp add: lock_operation_mode_def acquire_in_def calm_simps lease_expired_def Let_def put_txn_same)

lemma start_request_calm:
  assumes "calm w" "0 < w_budget w" "session hdr = 0"
    and "txnID hdr \<noteq> 0 \<Longrightarrow> \<exists>info. find_txn (txnID hdr) w = Some info \<and> ti_session info = 0 \<and> \<not> ti_expired info"
  shows "start_request hdr w = (Inr \<lparr>rq_txn = txnID hdr, rq_deadline = plain_deadline w\<rparr>, w)"
  using assms lock_operation_calm [OF assms(1) plain_deadline_ahead [OF assms(2)], of "txnID hdr"]
  by (auto simp: start_request_def plain_deadline_def [symmetric] Let_def)

lemma finish_request_calm: "calm w \<Longrightarrow> \<not> ctx_done (rq_deadline r) w \<Longrightarrow> finish_request r st w = (st, w)"
  by (simp add: finish_request_def elapse_calm)

lemma with_request_calm:
  assumes "calm w" "0 < w_budget w" "session hdr = 0"
    and "txnID hdr \<noteq> 0 \<Longrightarrow> \<exists>info. find_txn (txnID hdr) w = Some info \<and> ti_session info = 0 \<and> \<not> ti_expired info"
    and "body \<lparr>rq_txn = txnID hdr, rq_deadline = plain_deadline w\<rparr> w = (rep, w')"
    and "calm w'" "\<not> ctx_done (plain_deadline w) w'"
  shows "with_request hdr body w = (rep, w')"
  using assms by (cases rep) (simp add: with_request_def start_request_calm finish_request_calm)

lemma resolve_hive_cached: "w_cache w g = Some h \<Longrightarrow> with_hive r g k w = k h w"
  by (simp add: with_hive_def resolve_hive_status_def resolve_hive_def)

lemma put_txn_twice [calm_simps]: "put_txn i x (put_txn i y w) = put_txn i x w"
proof -
  have "AList.update i x (AList.update i y xs) = AList.update i x xs" for xs by (induction xs) auto
  then show ?thesis by (simp add: put_txn_def)
qed

lemma other_writer_put [calm_simps]: "other_writer h i (put_txn i info w) = other_writer h i w"
proof -
  have "list_ex (\<lambda>(j, x). j \<noteq> i \<and> P x) (AList.update i info xs) = list_ex (\<lambda>(j, x). j \<noteq> i \<and> P x) xs" for P xs
    by (induction xs) auto
  then show ?thesis by (simp add: other_writer_def put_txn_def)
qed

text \<open>The querier of a write: the hive's own connection, or the working copy just taken.\<close>

lemma write_q_calm:
  assumes "calm w" "\<not> ctx_done (rq_deadline r) w" "\<not> other_writer h (rq_txn r) w"
  shows "rq_txn r = 0 \<Longrightarrow> write_q r h w = (Inr (Autocommit h), w)"
    and "rq_txn r = i \<Longrightarrow> i \<noteq> 0 \<Longrightarrow> find_txn i w = Some info \<Longrightarrow> \<not> ti_read_only info \<Longrightarrow> \<not> ti_failed info \<Longrightarrow>
      ti_conn info = None \<Longrightarrow> \<not> ti_binding info \<Longrightarrow>
      write_q r h w = (Inr (Pinned i), put_txn i (info\<lparr>ti_hive := Some h, ti_conn := Some (hive_db h w), ti_binding := False\<rparr>) w)"
  using assms
  by (simp_all add: write_q_def lock_hive_def mutation_allowed_def calm_simps get_or_bind_write_def and_then_def set_binding_def world_simps)

text \<open>Statements.\<close>

lemma quiet_faultless: "ev_fault quiet = None"
  by (simp add: quiet_def)

lemma act_calm [calm_simps]:
  assumes "env_events e = []" "\<not> dl \<le> env_now e"
  shows "sql_exec dl f (e, d) = (case f d of None \<Rightarrow> (Inl Err_Unique, e, d) | Some d' \<Rightarrow> (Inr (), e, d'))"
    "sql_count dl n g (e, d) = (Inr (n d), e, g d)"
    "sql_query dl q (e, d) = (Inr (q d), e, d)"
    "sql_query_row dl q' (e, d) = ((case q' d of [] \<Rightarrow> Inl Err_No_Rows | r # _ \<Rightarrow> Inr r), e, d)"
  using assms
  by (simp_all add: quiet_faultless sql_exec_def sql_count_def sql_query_def sql_query_row_def statement_def next_event_calm
      Let_def arrange_quiet split: option.split list.split)

lemma act_steps_calm [calm_simps]:
  "ok x s = (Inr x, s)" "fail e s = (Inl e, s)"
  "and_then m k s = (case m s of (Inl e, s') \<Rightarrow> (Inl e, s') | (Inr x, s') \<Rightarrow> k x s')"
  "on_error m h k s = (case m s of (Inl e, s') \<Rightarrow> h e s' | (Inr x, s') \<Rightarrow> k x s')"
  by (simp_all add: ok_def fail_def and_then_def on_error_def)

section \<open>A run\<close>

definition run_guid :: guid where "run_guid = replicate 16 1"

definition run_root :: key_row where
  "run_root = \<lparr>kr_guid = run_guid, kr_name = [], kr_name_folded = [], kr_parent_guid = None, kr_sd = [],
     kr_volatile = 0, kr_symlink = 0, kr_last_write_time = 0\<rparr>"

definition run_db :: db where
  "run_db = empty_db\<lparr>db_main := empty_schema\<lparr>s_keys := [run_root]\<rparr>\<rparr>"

definition run_hive :: hive where
  "run_hive = \<lparr>hv_name = [], hv_root_guid = run_guid, hv_db = run_db\<rparr>"

definition run_start :: world where
  "run_start = new_handler [run_hive] \<lparr>env_now = 0, env_epoch = 0, env_events = []\<rparr>"

definition run_header :: "u16 \<Rightarrow> u64 \<Rightarrow> request_header" where
  "run_header op i = \<lparr>session = 0, deadlineNS = 0, lifetimeNS = 0, leaseNS = 0, totalLen = 0, requestID = 1, opCode = op, txnID = i\<rparr>"

lemma run_header_fields [simp]:
  "session (run_header op i) = 0" "opCode (run_header op i) = op" "txnID (run_header op i) = i"
  "requestID (run_header op i) = 1" "(run_header op i)\<lparr>txnID := j\<rparr> = run_header op j"
  by (simp_all add: run_header_def)

lemma fold_string_Nil [simp]: "fold_string [] = []"
  by (simp add: fold_string_def runes.simps [of "[]"])

lemma run_start_sees [simp]:
  "calm run_start" "w_budget run_start = request_timeout" "find_txn i run_start = None" "hive_db [] run_start = run_db"
  "w_cache run_start run_guid = Some []" "find_hive [] run_start = Some run_hive" "w_txns run_start = []"
proof -
  show "calm run_start" "w_budget run_start = request_timeout" "find_txn i run_start = None" "hive_db [] run_start = run_db"
    "w_cache run_start run_guid = Some []" "find_hive [] run_start = Some run_hive" "w_txns run_start = []"
    by (simp_all add: run_start_def new_handler_def run_hive_def calm_def find_txn_def hive_db_def find_hive_def cache_store_def)
qed

lemma run_db_ok: "db_ok run_db"
  by (simp add: db_ok_def keys_ok_def paths_ok_def values_ok_def blankets_ok_def table_ok_def apart_def
      run_db_def empty_db_def empty_schema_def run_root_def key_row_ok_def run_guid_def)

text \<open>BEGIN of transaction 1, and a deletion under it, which binds the hive.\<close>

definition run_begin :: "u32 \<Rightarrow> bytes" where
  "run_begin mode = begin_transaction_frame \<lparr>btr_txn_id = 1, btr_mode = mode\<rparr>"

definition run_delete :: bytes where
  "run_delete = delete_value_entry_frame \<lparr>dvr_guid = run_guid, dvr_value_name = [], dvr_layer_name = []\<rparr>"

definition run_commit :: bytes where
  "run_commit = commit_transaction_frame \<lparr>ctr_txn_id = 1\<rparr>"

lemma run_decodes [simp]:
  "\<exists>d. decode_begin_transaction_request (new_decoder (run_begin mode)) = Some (\<lparr>btr_txn_id = 1, btr_mode = mode\<rparr>, d)"
  "\<exists>d. decode_delete_value_entry_request (new_decoder run_delete) = Some (\<lparr>dvr_guid = run_guid, dvr_value_name = [], dvr_layer_name = []\<rparr>, d)"
  "\<exists>d. decode_commit_transaction_request (new_decoder run_commit) = Some (\<lparr>ctr_txn_id = 1\<rparr>, d)"
  using begin_transaction_codec.dec_new [of "\<lparr>btr_txn_id = 1, btr_mode = mode\<rparr>" "[]"]
    delete_value_entry_codec.dec_new [of "\<lparr>dvr_guid = run_guid, dvr_value_name = [], dvr_layer_name = []\<rparr>" "[]"]
    commit_transaction_codec.dec_new [of "\<lparr>ctr_txn_id = 1\<rparr>" "[]"]
  by (simp_all add: run_begin_def run_delete_def run_commit_def begin_transaction_ok_def delete_value_entry_ok_def
      commit_transaction_ok_def run_guid_def)

definition run_begun :: "bool \<Rightarrow> world" where
  "run_begun ro = put_txn 1 (new_txn ro 0 0 0) run_start"

lemma run_begun_step:
  assumes "mode = (if ro then 1 else 0)"
  shows "handle_begin_transaction (run_header op_begin_transaction 0) (run_begin mode) run_start = ((status_ok, []), run_begun ro)"
proof -
  obtain d where "decode_begin_transaction_request (new_decoder (run_begin mode)) = Some (\<lparr>btr_txn_id = 1, btr_mode = mode\<rparr>, d)"
    using run_decodes(1) by blast
  then show ?thesis
    unfolding handle_begin_transaction_def Let_def
    by (intro with_request_calm)
      (auto simp: assms decoded_def op_case_def begin_leased_def begin_mode_def answer_def run_begun_def calm_simps
        txn_read_write_def txn_read_only_def request_timeout_def)
qed

definition run_bound :: world where
  "run_bound = put_txn 1 ((new_txn False 0 0 0)\<lparr>ti_hive := Some [], ti_conn := Some run_db\<rparr>) run_start"

lemma run_bound_step:
  "handle_delete_value_entry (run_header op_delete_value_entry 1) run_delete (run_begun False) = ((status_ok, []), run_bound)"
proof -
  obtain d where dec: "decode_delete_value_entry_request (new_decoder run_delete) = Some (\<lparr>dvr_guid = run_guid, dvr_value_name = [], dvr_layer_name = []\<rparr>, d)"
    using run_decodes(2) by blast
  have begun: "find_txn 1 (run_begun False) = Some (new_txn False 0 0 0)" "calm (run_begun False)"
    "w_cache (run_begun False) run_guid = Some []" "hive_db [] (run_begun False) = run_db"
    "w_budget (run_begun False) = request_timeout"
    by (simp_all add: run_begun_def world_simps calm_simps) (simp add: put_txn_def)
  have txns: "w_txns (run_begun False) = [(1, new_txn False 0 0 0)]" by (simp add: run_begun_def put_txn_def)
  define r where "r = \<lparr>rq_txn = 1 :: u64, rq_deadline = plain_deadline (run_begun False)\<rparr>"
  have alive: "\<not> ctx_done (rq_deadline r) (run_begun False)" "rq_txn r = 1"
    using plain_deadline_ahead [of "run_begun False"] begun(5) by (simp_all add: r_def request_timeout_def)
  have q: "write_q r [] (run_begun False) = (Inr (Pinned 1), run_bound)"
    using write_q_calm(2) [OF begun(2) alive(1) _ alive(2) _ begun(1), of "[]"] txns alive(2) begun(4)
    by (simp add: other_writer_def new_txn_def run_bound_def run_begun_def calm_simps)
  have bound: "calm run_bound" "find_txn 1 run_bound = Some ((new_txn False 0 0 0)\<lparr>ti_hive := Some [], ti_conn := Some run_db\<rparr>)"
    "\<not> ctx_done (rq_deadline r) run_bound"
    using alive(1) by (simp_all add: run_bound_def run_begun_def world_simps calm_simps)
  have noop: "delete_value_key st run_guid [] [] run_db = run_db" for st
    by (cases st) (simp_all add: delete_value_key_def run_db_def empty_db_def empty_schema_def delete_where_def)
  have run: "run_on (Pinned 1) (delete_value_act (rq_deadline r) \<lparr>dvr_guid = run_guid, dvr_value_name = [], dvr_layer_name = []\<rparr>) run_bound
      = (Inr (), run_bound)"
    using bound by (simp add: run_on_def view_def put_view_def delete_value_act_def calm_simps calm_def ctx_done_def noop put_txn_same)
  show ?thesis
    unfolding handle_delete_value_entry_def
    by (rule with_request_calm)
      (use dec begun q run bound in \<open>simp_all add: decoded_def resolve_hive_cached op_case_def answer_def r_def new_txn_def request_timeout_def\<close>)
qed

text \<open>A read under a read-only transaction pins its snapshot.\<close>

lemma snapshot_calm:
  assumes "calm w" "\<not> ctx_done dl w"
  shows "open_pinned_snapshot dl h w = (Inr (hive_db h w), w)"
  using assms by (simp add: open_pinned_snapshot_def and_then_def calm_simps)

definition run_read :: bytes where
  "run_read = read_key_frame \<lparr>rkr_guid = run_guid\<rparr>"

definition run_pinned :: world where
  "run_pinned = put_txn 1 ((new_txn True 0 0 0)\<lparr>ti_hive := Some [], ti_snapshot_db := True, ti_conn := Some run_db\<rparr>) run_start"

definition run_root_reply :: bytes where
  "run_root_reply = encode_read_key_response
     \<lparr>rkp_name = [], rkp_parent_guid = zero_guid, rkp_sd = [], rkp_volatile = False, rkp_symlink = False, rkp_last_write_time = 0\<rparr> new_encoder"

lemma run_pinned_step:
  "handle_read_key (run_header op_read_key 1) run_read (run_begun True) = ((status_ok, run_root_reply), run_pinned)"
proof -
  obtain d where dec: "decode_read_key_request (new_decoder run_read) = Some (\<lparr>rkr_guid = run_guid\<rparr>, d)"
    using read_key_codec.dec_new [of "\<lparr>rkr_guid = run_guid\<rparr>" "[]"] by (auto simp: run_read_def read_key_ok_def run_guid_def)
  have begun: "find_txn 1 (run_begun True) = Some (new_txn True 0 0 0)" "calm (run_begun True)"
    "w_cache (run_begun True) run_guid = Some []" "hive_db [] (run_begun True) = run_db"
    "w_budget (run_begun True) = request_timeout"
    by (simp_all add: run_begun_def world_simps calm_simps) (simp add: put_txn_def)
  define r where "r = \<lparr>rq_txn = 1 :: u64, rq_deadline = plain_deadline (run_begun True)\<rparr>"
  have alive: "\<not> ctx_done (rq_deadline r) (run_begun True)" "rq_txn r = 1"
    using plain_deadline_ahead [of "run_begun True"] begun(5) by (simp_all add: r_def request_timeout_def)
  have q: "read_q r [] (run_begun True) = (Inr (Pinned 1), run_pinned)"
    using begun alive
    by (simp add: read_q_def lock_hive_def get_read_querier_def new_txn_def calm_simps snapshot_calm set_binding_def world_simps
        run_pinned_def run_begun_def)
  have pinned: "calm run_pinned" "find_txn 1 run_pinned = Some ((new_txn True 0 0 0)\<lparr>ti_hive := Some [], ti_snapshot_db := True, ti_conn := Some run_db\<rparr>)"
    "\<not> ctx_done (rq_deadline r) run_pinned"
    using alive(1) by (simp_all add: run_pinned_def run_begun_def world_simps calm_simps)
  have keys: "keys_with_guid Main run_guid run_db @ keys_with_guid Volatile run_guid run_db = [run_root]"
    by (simp add: keys_with_guid_def run_db_def empty_db_def empty_schema_def run_root_def)
  have run: "run_on (Pinned 1) (read_key_full (rq_deadline r) run_guid) run_pinned = (Inr
      \<lparr>rkp_name = [], rkp_parent_guid = zero_guid, rkp_sd = [], rkp_volatile = False, rkp_symlink = False, rkp_last_write_time = 0\<rparr>, run_pinned)"
    using pinned by (simp add: run_on_def view_def put_view_def read_key_full_def calm_simps calm_def ctx_done_def keys put_txn_same)
      (simp add: run_root_def)
  show ?thesis
    unfolding handle_read_key_def
    by (rule with_request_calm)
      (use dec begun q run pinned in \<open>simp_all add: decoded_def resolve_hive_cached op_case_def r_def new_txn_def request_timeout_def run_root_reply_def\<close>)
qed

end
