(* ===== verification/Txn_Props.thy ===== *)
theory Txn_Props
  imports Isolation Runs
begin

unbundle bit_operations_syntax

text \<open>
  The properties of transactions and leases, over the reachable states of the daemon.
\<close>

section \<open>The witness run\<close>

abbreviation served :: "world \<Rightarrow> bool" where
  "served \<equiv> reachable daemon_init daemon_step"

lemma run_reach:
  "served run_start" "served (run_begun ro)" "served run_bound" "served run_pinned"
proof -
  have "daemon_init run_start"
    unfolding daemon_init_def run_start_def by (intro exI [of _ "[run_hive]"] exI conjI) (simp_all add: run_hive_def run_db_ok)
  then show start: "served run_start" by (rule reachable.start)
  have "snd (serve (run_header op_begin_transaction 0) (run_begin (if ro then 1 else 0)) run_start) = run_begun ro" for ro
    by (simp add: dispatch_world control_handlers run_begun_step)
  then show begun: "served (run_begun ro)" for ro using move [OF start request] by metis
  have "snd (serve (run_header op_delete_value_entry 1) run_delete (run_begun False)) = run_bound"
    by (simp add: dispatch_world handler_table op_defs run_bound_step [unfolded op_defs])
  then show "served run_bound" using move [OF begun request] by metis
  have "snd (serve (run_header op_read_key 1) run_read (run_begun True)) = run_pinned"
    by (simp add: dispatch_world handler_table op_defs run_pinned_step [unfolded op_defs])
  then show "served run_pinned" using move [OF begun request] by metis
qed

section \<open>The invariant\<close>

text \<open>C1: in every state the daemon reaches, the database of every hive and the view of every
  transaction is intact (unique keys in each store, GUIDs and entry triples in one store
  only, folded columns the fold of their names, targets that match their type), a hive has
  at most one writing transaction, an interrupted transaction holds no connection, and the
  GUID cache names served hives only.\<close>

theorem daemon_integrity:
  assumes "served w"
  shows "world_inv w"
  by (rule daemon.reachable_inv [OF assms])

theorem daemon_integrity_witness: "world_inv run_bound \<and> writer 1 [] run_bound"
  using daemon_integrity [OF run_reach(3)]
  by (simp add: writer_def run_bound_def world_simps new_txn_def)

section \<open>Isolation\<close>

text \<open>C3: while a transaction writes a hive, no request that is not its own and does not commit
  or abort it changes its working copy or the committed state of its hive, whatever the
  request, its outcome, and the failures of the storage; so a commit overwrites nothing it
  did not start from.\<close>

theorem writer_isolated:
  assumes "served w" and "writer j h w" and "\<not> targets j hdr payload"
  shows "find_txn j (snd (serve hdr payload w)) = find_txn j w \<and> hive_db h (snd (serve hdr payload w)) = hive_db h w"
proof -
  have inv: "world_inv w" by (rule daemon.reachable_inv [OF assms(1)])
  have "j \<noteq> 0" by (rule world_inv_zero [OF inv assms(2)])
  moreover have "find_txn j w \<noteq> None" using assms(2) by (auto simp: writer_def split: option.splits)
  ultimately show ?thesis using serve_isolated [OF inv _ assms(3), of h] assms(2) by simp
qed

theorem writer_isolated_witness:
  "writer 1 [] run_bound \<and>
   hive_db [] (snd (serve (run_header op_delete_value_entry 0) run_delete run_bound)) = run_db"
proof -
  have "writer 1 [] run_bound" by (simp add: writer_def run_bound_def world_simps new_txn_def)
  moreover have "\<not> targets 1 (run_header op_delete_value_entry 0) run_delete" by (simp add: targets_def op_defs)
  moreover have "hive_db [] run_bound = run_db" by (simp add: run_bound_def world_simps)
  ultimately show ?thesis using writer_isolated [OF run_reach(3)] by simp
qed

text \<open>C2: COMMIT is all or nothing.  When it answers OK, the transaction is gone, its hive holds
  exactly its working copy, and no other hive and no other transaction changed; when it
  answers anything else, every hive and every transaction is as before, but for the mark of
  an expired lease, so it can be retried or aborted.\<close>

theorem commit_all_or_nothing:
  assumes "served w" and "handle_commit_transaction hdr payload w = (rep, w')"
  shows "(fst rep = status_ok \<and>
      (\<exists>req d. decode_commit_transaction_request (new_decoder payload) = Some (req, d) \<and> commit_ends (ctr_txn_id req) w w')) \<or>
    (fst rep \<noteq> status_ok \<and> hives_kept w w' \<and> (\<forall>j. entry_kept j w w'))"
  using commit_request [OF daemon.reachable_inv [OF assms(1)] assms(2)] .

theorem commit_all_or_nothing_witness:
  "commit_ends 1 run_bound (snd (handle_commit_transaction (run_header op_commit_transaction 0) run_commit run_bound))"
proof -
  obtain d where dec: "decode_commit_transaction_request (new_decoder run_commit) = Some (\<lparr>ctr_txn_id = 1\<rparr>, d)"
    using run_decodes(3) by blast
  have bound: "calm run_bound" "w_budget run_bound = request_timeout"
    "find_txn 1 run_bound = Some ((new_txn False 0 0 0)\<lparr>ti_hive := Some [], ti_conn := Some run_db\<rparr>)"
    by (simp_all add: run_bound_def world_simps calm_simps) (simp add: put_txn_def)
  have alive: "\<not> ctx_done (plain_deadline run_bound) run_bound" by (rule plain_deadline_ahead) (simp add: bound request_timeout_def)
  obtain rep w' where run: "handle_commit_transaction (run_header op_commit_transaction 0) run_commit run_bound = (rep, w')"
    by (metis surj_pair)
  have started: "start_request (run_header op_commit_transaction 0) run_bound =
      (Inr \<lparr>rq_txn = 0, rq_deadline = plain_deadline run_bound\<rparr>, run_bound)"
    using start_request_calm [of run_bound "run_header op_commit_transaction 0"] bound by (simp add: request_timeout_def)
  have "lock_operation_mode (Some (plain_deadline run_bound)) 1 Normal_Operation run_bound = (Inr (), run_bound)"
    by (rule lock_operation_calm [OF bound(1) alive bound(3)]) (simp_all add: new_txn_def)
  then have "fst (commit (plain_deadline run_bound) 1 run_bound) = Inr ()"
    using bound alive by (simp add: commit_def new_txn_def calm_simps Let_def lease_expired_def)
  with run dec started have "fst rep = status_ok"
    by (cases "commit (plain_deadline run_bound) 1 run_bound")
      (auto simp: handle_commit_transaction_def op_case_def decoded_def answer_def)
  with commit_all_or_nothing [OF run_reach(3) run] dec run show ?thesis by simp
qed

text \<open>C20: ABORT answers OK to every well-formed request, even one whose transaction is unknown or
  interrupted; the transaction is gone afterwards, and no hive and no other transaction
  changed.\<close>

theorem abort_discards:
  assumes "handle_abort_transaction hdr payload w = (rep, w')"
    and "decode_abort_transaction_request (new_decoder payload) = Some (req, d)"
  shows "fst rep = status_ok \<and> find_txn (atr_txn_id req) w' = None \<and> hives_kept w w' \<and> others_kept (atr_txn_id req) w w'"
  by (rule abort_request [OF assms])

theorem abort_discards_witness:
  "find_txn 1 (snd (handle_abort_transaction (run_header op_abort_transaction 0) run_commit run_bound)) = None \<and>
   hives_kept run_bound (snd (handle_abort_transaction (run_header op_abort_transaction 0) run_commit run_bound))"
proof -
  have "\<exists>d. decode_abort_transaction_request (new_decoder run_commit) = Some (\<lparr>atr_txn_id = 1\<rparr>, d)"
    using abort_transaction_codec.dec_new [of "\<lparr>atr_txn_id = 1\<rparr>" "[]"]
    by (simp add: run_commit_def commit_transaction_frame_def abort_transaction_frame_def abort_transaction_ok_def)
  then obtain d where dec: "decode_abort_transaction_request (new_decoder run_commit) = Some (\<lparr>atr_txn_id = 1\<rparr>, d)" by blast
  obtain rep w' where run: "handle_abort_transaction (run_header op_abort_transaction 0) run_commit run_bound = (rep, w')"
    by (metis surj_pair)
  from abort_discards [OF run dec] run show ?thesis by simp
qed

section \<open>Read-only transactions\<close>

text \<open>C18: a request under a read-only transaction changes no hive, whatever its operation; the
  transaction stays read-only, and the snapshot it has pinned is the one it keeps, unless
  the request was interrupted and poisoned it.\<close>

theorem read_only_writes_nothing:
  assumes "find_txn i w = Some info" and "ti_read_only info" and "i \<noteq> 0" and "txnID hdr = i"
    and "opCode hdr \<notin> {op_begin_transaction, op_commit_transaction, op_abort_transaction}"
  shows "hives_kept w (snd (serve hdr payload w)) \<and>
    (\<exists>info'. find_txn i (snd (serve hdr payload w)) = Some info' \<and> snapshot_kept info info')"
  using ro.dispatched [OF assms(4,5), of w payload] assms(1-3) by (simp add: only_snapshot_def hives_kept_def)

theorem read_only_writes_nothing_witness:
  "hives_kept (run_begun True) (snd (serve (run_header op_delete_value_entry 1) run_delete (run_begun True)))"
proof -
  have "find_txn 1 (run_begun True) = Some (new_txn True 0 0 0)" by (simp add: run_begun_def world_simps)
  from read_only_writes_nothing [OF this, of "run_header op_delete_value_entry 1" run_delete] show ?thesis
    by (simp add: new_txn_def op_defs)
qed

text \<open>C7: repeatable reads: once a read-only transaction has pinned its snapshot, no step of the
  daemon (a request of its own, of another transaction or of none, a commit that publishes
  to the same hive, the lease loop) changes what it reads: it sees the same database or has
  lost its connection.\<close>

theorem snapshot_stable:
  assumes "served w" and "daemon_step w w'" and "i \<noteq> 0"
    and "find_txn i w = Some info" and "ti_read_only info" and "ti_conn info = Some d"
    and "find_txn i w' = Some info'"
  shows "ti_conn info' = Some d \<and> ti_hive info' = ti_hive info \<or> ti_conn info' = None \<and> ti_failed info'"
  using assms(2)
proof cases
  case (request hdr payload)
  show ?thesis
  proof (cases "targets i hdr payload")
    case False
    with serve_isolated [OF daemon.reachable_inv [OF assms(1)] assms(3) False] request assms(4,6,7) show ?thesis by simp
  next
    case True
    consider (work) "opCode hdr \<notin> {op_begin_transaction, op_commit_transaction, op_abort_transaction}" "txnID hdr = i"
      | (commits) "opCode hdr = op_commit_transaction" | (aborts) "opCode hdr = op_abort_transaction"
      using True by (auto simp: targets_def split: if_splits)
    then show ?thesis
    proof cases
      case work
      with ro.dispatched [OF work(2,1), of w payload] request assms(3-7) show ?thesis
        by (auto simp: only_snapshot_def snapshot_kept_def)
    next
      case commits
      obtain rep v where h: "handle_commit_transaction hdr payload w = (rep, v)" by (metis surj_pair)
      have v: "v = w'" using request commits h by (simp add: dispatch_world control_handlers)
      from True commits obtain req d where dec: "decode_commit_transaction_request (new_decoder payload) = Some (req, d)" "ctr_txn_id req = i"
        by (auto simp: targets_def op_defs split: option.splits)
      from commit_request [OF daemon.reachable_inv [OF assms(1)] h] v dec assms(7) have "entry_kept i w w'"
        by (auto simp: commit_ends_def)
      with assms(4,6,7) show ?thesis by (auto simp: entry_kept_def)
    next
      case aborts
      obtain rep v where h: "handle_abort_transaction hdr payload w = (rep, v)" by (metis surj_pair)
      have v: "v = w'" using request aborts h by (simp add: dispatch_world control_handlers)
      from True aborts obtain req d where dec: "decode_abort_transaction_request (new_decoder payload) = Some (req, d)" "atr_txn_id req = i"
        by (auto simp: targets_def op_defs split: option.splits)
      from abort_request [OF h dec(1)] dec(2) v assms(7) show ?thesis by simp
    qed
  qed
next
  case (leases renew)
  from lease_turnD [OF maintain_lease_turn [of w renew], of i] leases assms(4,6,7) show ?thesis by (auto simp: same_work_def)
next
  case shutdown
  have "lease_turn w (close_txns w)" unfolding close_txns_def by (intro lease_turn_foldl lease_turn_abort)
  from lease_turnD [OF this, of i] shutdown assms(4,6,7) show ?thesis by (auto simp: same_work_def)
qed

theorem snapshot_stable_witness:
  "case find_txn 1 (snd (serve (run_header op_delete_value_entry 0) run_delete run_pinned)) of
     Some info \<Rightarrow> ti_conn info = Some run_db \<and> ti_hive info = Some [] \<or> ti_conn info = None \<and> ti_failed info
   | None \<Rightarrow> True"
proof (cases "find_txn 1 (snd (serve (run_header op_delete_value_entry 0) run_delete run_pinned))")
  case (Some info)
  have "find_txn 1 run_pinned = Some ((new_txn True 0 0 0)\<lparr>ti_hive := Some [], ti_snapshot_db := True, ti_conn := Some run_db\<rparr>)"
    by (simp add: run_pinned_def world_simps)
  from snapshot_stable [OF run_reach(4) request _ this _ _ Some, of run_db] Some show ?thesis
    by (simp add: new_txn_def)
qed simp

section \<open>Leases\<close>

text \<open>C19: the end of a lease is terminal: once a transaction is marked expired, every request
  under it is refused before its handler runs, with an empty error response, and changes no
  hive and no transaction.\<close>

theorem expired_refused:
  assumes "find_txn i w = Some info" and "ti_expired info" and "i \<noteq> 0" and "txnID hdr = i"
    and "opCode hdr \<notin> {op_begin_transaction, op_commit_transaction, op_abort_transaction}"
  shows "(\<exists>st\<in>{status_storage_error, status_txn_busy, status_invalid}.
      fst (serve hdr payload w) = write_response (requestID hdr) (opCode hdr) st []) \<and>
    hives_kept w (snd (serve hdr payload w)) \<and> (\<forall>j. entry_kept j w (snd (serve hdr payload w)))"
  by (rule serve_expired [OF assms])

definition run_expired :: world where
  "run_expired = put_txn 1 ((new_txn False 1 0 0)\<lparr>ti_expired := True\<rparr>) run_start"

theorem expired_refused_witness:
  "hives_kept run_expired (snd (serve (run_header op_delete_value_entry 1) run_delete run_expired))"
proof -
  have "find_txn 1 run_expired = Some ((new_txn False 1 0 0)\<lparr>ti_expired := True\<rparr>)" by (simp add: run_expired_def world_simps)
  from expired_refused [OF this, of "run_header op_delete_value_entry 1" run_delete] show ?thesis
    by (simp add: op_defs)
qed

text \<open>C21: one turn of the lease loop ends every leased transaction whose lease or lifetime has
  run out by the loop's clock and whose cleanup has not been started, and changes no hive.\<close>

theorem lease_loop_cleans:
  assumes "find_txn i w = Some info" and "ti_session info \<noteq> 0" and "\<not> ti_cleanup_started info"
    and "now = monotonic_ns (snd (elapse w))"
    and "ti_lease_ns info \<le> now \<or> (ti_lifetime_ns info \<noteq> 0 \<and> ti_lifetime_ns info \<le> now)"
  shows "find_txn i (maintain_leases renew w) = None \<and> hives_kept w (maintain_leases renew w)"
proof -
  have "needs_cleanup (monotonic_ns (snd (elapse w))) info"
    using assms(2-5) by (auto simp: needs_cleanup_def lease_expired_def)
  from maintain_cleans [OF assms(1) this] maintain_lease_turn [of w renew] show ?thesis
    by (simp add: lease_turn_def)
qed

theorem lease_loop_cleans_witness:
  "find_txn 1 (maintain_leases (\<lambda>_ _. None) (put_txn 1 (new_txn False 7 0 0) run_start)) = None"
  using lease_loop_cleans [of 1 "put_txn 1 (new_txn False 7 0 0) run_start" "new_txn False 7 0 0"
      "monotonic_ns (snd (elapse (put_txn 1 (new_txn False 7 0 0) run_start)))"]
  by (simp add: world_simps new_txn_def)

end
