(* ===== verification/Device_Laws.thy ===== *)
theory Device_Laws
  imports Device Txn_Props
begin

unbundle bit_operations_syntax

text \<open>
  The device boundary: what the kernel reads from a registration is what the daemon
  registered, the control numbers describe the structures they carry, and every run of the
  request loop has a serial order, answers each accepted request exactly once, and ends.
\<close>

section \<open>Registration\<close>

definition entry_bytes :: "u64 \<Rightarrow> hive_registration \<Rightarrow> bytes" where
  "entry_bytes ptr hv =
     le_bytes 4 (word_of_nat (length (hr_name hv)) :: u32) @ replicate 4 0 @ le_bytes 8 ptr @ hr_root_guid hv @ replicate 24 0"

fun entries_bytes :: "(nat \<Rightarrow> u64) \<Rightarrow> nat \<Rightarrow> hive_registration list \<Rightarrow> bytes" where
  "entries_bytes name_addr i [] = []"
| "entries_bytes name_addr i (hv # hives) =
     entry_bytes (if hr_name hv = [] then 0 else name_addr i) hv @ entries_bytes name_addr (Suc i) hives"

lemma put_entry_fresh:
  assumes "length pre = base" and "length (hr_root_guid hv) = 16"
  shows "put_entry ptr base hv (pre @ replicate 56 0 @ rest) = pre @ entry_bytes ptr hv @ rest"
proof -
  have zeros: "replicate 56 (0 :: byte) = replicate 4 0 @ replicate 4 0 @ replicate 8 0 @ replicate 16 0 @ replicate 24 0"
    by (simp flip: replicate_add)
  have put: "store_at (length a) b (a @ c @ d) = a @ b @ d" if "length b = length c" for a b c d :: bytes
    using that by (simp add: store_at_def)
  show ?thesis
    unfolding put_entry_def Let_def zeros assms(1) [symmetric]
    using put [of "le_bytes 4 (word_of_nat (length (hr_name hv)) :: u32)" "replicate 4 0" pre
        "replicate 4 0 @ replicate 8 0 @ replicate 16 0 @ replicate 24 0 @ rest"]
      put [of "le_bytes 8 ptr" "replicate 8 0" "pre @ le_bytes 4 (word_of_nat (length (hr_name hv)) :: u32) @ replicate 4 0"
        "replicate 16 0 @ replicate 24 0 @ rest"]
      put [of "hr_root_guid hv" "replicate 16 0"
        "pre @ le_bytes 4 (word_of_nat (length (hr_name hv)) :: u32) @ replicate 4 0 @ le_bytes 8 ptr" "replicate 24 0 @ rest"]
      assms(2)
    by (simp add: entry_bytes_def)
qed

lemma put_entries_fresh:
  assumes "length pre = i * 56" and "list_all (\<lambda>hv. length (hr_root_guid hv) = 16) hives"
  shows "put_entries name_addr i hives (pre @ replicate (length hives * 56) 0) = pre @ entries_bytes name_addr i hives"
  using assms
proof (induction hives arbitrary: i pre)
  case (Cons hv hives)
  let ?ptr = "if hr_name hv = [] then 0 else name_addr i"
  have "replicate (length (hv # hives) * 56) (0 :: byte) = replicate 56 0 @ replicate (length hives * 56) 0"
    by (simp flip: replicate_add)
  then have "put_entries name_addr i (hv # hives) (pre @ replicate (length (hv # hives) * 56) 0) =
      put_entries name_addr (Suc i) hives ((pre @ entry_bytes ?ptr hv) @ replicate (length hives * 56) 0)"
    using put_entry_fresh [of pre "i * 56" hv ?ptr "replicate (length hives * 56) 0"] Cons.prems
    by (simp add: reg_src_hive_entry_size_def)
  moreover have "length (pre @ entry_bytes ?ptr hv) = Suc i * 56" using Cons.prems by (simp add: entry_bytes_def)
  ultimately show ?case using Cons.IH [of "pre @ entry_bytes ?ptr hv" "Suc i"] Cons.prems by simp
qed simp

text \<open>The kernel's side: the structures of the header, read at their offsets.\<close>

definition read_entry :: "(u64 \<Rightarrow> nat \<Rightarrow> bytes) \<Rightarrow> bytes \<Rightarrow> hive_registration \<times> bytes" where
  "read_entry mem e =
     (\<lparr>hr_name = mem (le_word (take 8 (drop 8 e))) (unat (le_word (take 4 e) :: u32)), hr_root_guid = take 16 (drop 16 e)\<rparr>,
      drop 32 e)"

fun read_entries :: "(u64 \<Rightarrow> nat \<Rightarrow> bytes) \<Rightarrow> nat \<Rightarrow> bytes \<Rightarrow> (hive_registration \<times> bytes) list" where
  "read_entries mem 0 bs = []"
| "read_entries mem (Suc n) bs = read_entry mem (take 56 bs) # read_entries mem n (drop 56 bs)"

definition read_registration :: "(u64 \<Rightarrow> nat \<Rightarrow> bytes) \<Rightarrow> bytes \<Rightarrow> (hive_registration \<times> bytes) list \<times> u64" where
  "read_registration mem args =
     (let n = unat (le_word (take 4 args) :: u32); ptr = le_word (take 8 (drop 16 args))
      in (read_entries mem n (mem ptr (n * 56)), le_word (take 8 (drop 8 args))))"

text \<open>The memory the registration points to: the names and the entries array.\<close>

definition holds_names :: "(u64 \<Rightarrow> nat \<Rightarrow> bytes) \<Rightarrow> (nat \<Rightarrow> u64) \<Rightarrow> nat \<Rightarrow> hive_registration list \<Rightarrow> bool" where
  "holds_names mem name_addr i hives \<longleftrightarrow>
     (\<forall>k<length hives. let name = hr_name (hives ! k) in
        mem (if name = [] then 0 else name_addr (i + k)) (length name) = name \<and> length name < 2 ^ 32 \<and>
        length (hr_root_guid (hives ! k)) = 16)"

lemma holds_names_Cons:
  "holds_names mem name_addr i (hv # hives) \<longleftrightarrow>
     mem (if hr_name hv = [] then 0 else name_addr i) (length (hr_name hv)) = hr_name hv \<and> length (hr_name hv) < 2 ^ 32 \<and>
     length (hr_root_guid hv) = 16 \<and> holds_names mem name_addr (Suc i) hives"
  by (auto simp: holds_names_def Let_def All_less_Suc2)

lemma read_entries_bytes:
  "holds_names mem name_addr i hives \<Longrightarrow>
   read_entries mem (length hives) (entries_bytes name_addr i hives) = map (\<lambda>hv. (hv, replicate 24 0)) hives"
proof (induction hives arbitrary: i)
  case (Cons hv hives)
  then have hv: "mem (if hr_name hv = [] then 0 else name_addr i) (length (hr_name hv)) = hr_name hv"
    "length (hr_name hv) < 2 ^ 32" "length (hr_root_guid hv) = 16" "holds_names mem name_addr (Suc i) hives"
    by (simp_all only: holds_names_Cons)
  let ?e = "entry_bytes (if hr_name hv = [] then 0 else name_addr i) hv"
  have len: "length ?e = 56" by (simp add: entry_bytes_def hv)
  have n: "unat (word_of_nat (length (hr_name hv)) :: u32) = length (hr_name hv)" using hv(2) by (simp add: unat_of_nat)
  have "read_entry mem ?e = (hv, replicate 24 0)"
    by (cases hv) (use hv n in \<open>simp add: read_entry_def entry_bytes_def\<close>)
  with Cons.IH [OF hv(4)] len show ?case by simp
qed simp

lemma register_args_fields:
  "take 4 (register_args ea hives ms) = le_bytes 4 (word_of_nat (length hives) :: u32)"
  "take 8 (drop 8 (register_args ea hives ms)) = le_bytes 8 ms" "take 8 (drop 16 (register_args ea hives ms)) = le_bytes 8 ea"
  "length (register_args ea hives ms) = reg_src_register_args_size"
  by (simp_all add: register_args_def store_at_def reg_src_register_args_size_def Let_def)

text \<open>C34: what the kernel reads from a registration, following the pointers it was given, is
  exactly the hives of the command line with their root GUIDs, in order, the maximum
  sequence, and zero flags and scope.\<close>

theorem registration_readback:
  assumes "register_hives name_addr entries_addr hives max_seq = Inr (args, entries)"
    and "holds_names mem name_addr 0 hives" and "mem entries_addr (length entries) = entries" and "length hives < 2 ^ 32"
  shows "read_registration mem args = (map (\<lambda>hv. (hv, replicate 24 0)) hives, max_seq)"
proof -
  have guids: "list_all (\<lambda>hv. length (hr_root_guid hv) = 16) hives"
    using assms(2) by (auto simp: holds_names_def Let_def list_all_length)
  have e: "entries = entries_bytes name_addr 0 hives" "args = register_args entries_addr hives max_seq"
    using assms(1) put_entries_fresh [of "[]" 0 hives name_addr] guids
    by (auto simp: register_hives_def register_entries_def reg_src_hive_entry_size_def split: if_splits)
  have len: "length (entries_bytes name_addr i hives) = length hives * 56" for i
    using guids by (induction hives arbitrary: i) (auto simp: entry_bytes_def)
  have n: "unat (word_of_nat (length hives) :: u32) = length hives" using assms(4) by (simp add: unat_of_nat)
  show ?thesis
    unfolding e(2) read_registration_def register_args_fields Let_def
    using n assms(3) read_entries_bytes [OF assms(2)] by (simp add: e(1) len)
qed

theorem registration_readback_witness:
  defines "hives \<equiv> [\<lparr>hr_name = [77], hr_root_guid = replicate 16 1\<rparr>]"
  defines "mem \<equiv> (\<lambda>a n. if a = 100 then take n [77] else take n (register_entries (\<lambda>_. 100) hives))"
  shows "read_registration mem (register_args 200 hives 9) = ([(\<lparr>hr_name = [77], hr_root_guid = replicate 16 1\<rparr>, replicate 24 0)], 9)"
proof -
  have "register_hives (\<lambda>_. 100) 200 hives 9 = Inr (register_args 200 hives 9, register_entries (\<lambda>_. 100) hives)"
    by (simp add: register_hives_def hives_def)
  from registration_readback [OF this, of mem] show ?thesis
    by (simp add: holds_names_def hives_def mem_def)
qed

section \<open>Control numbers\<close>

definition negotiate_bytes :: "negotiate_args \<Rightarrow> bytes" where
  "negotiate_bytes a = le_bytes 4 (na_version a) @ le_bytes 4 (na_flags a) @ le_bytes 8 (na_session a)"

definition context_bytes :: "context_args \<Rightarrow> bytes" where
  "context_bytes a = le_bytes 8 (ca_session a) @ le_bytes 8 (ca_request_id a) @ le_bytes 8 (ca_request_deadline a)
     @ le_bytes 8 (ca_lifetime_deadline a) @ le_bytes 8 (ca_lease_deadline a)"

definition renew_bytes :: "renew_args \<Rightarrow> bytes" where
  "renew_bytes a = le_bytes 8 (ra_session a) @ le_bytes 8 (ra_transaction_id a) @ le_bytes 8 (ra_lifetime_deadline a)
     @ le_bytes 8 (ra_lease_deadline a)"

definition ioc_size :: "u32 \<Rightarrow> nat" where "ioc_size cmd = unat (drop_bit 16 cmd AND 0x3FFF)"

text \<open>The size field of every control number is the size of the structure it carries, the
  direction is write for the registration and read-write for the others, the type is R, and
  the numbers are 0 to 3.\<close>

theorem control_numbers:
  "ioc_size reg_src_register = length (register_args ea hives ms) \<and> ioc_size reg_src_negotiate = length (negotiate_bytes na) \<and>
   ioc_size reg_src_request_context = length (context_bytes ca) \<and> ioc_size reg_src_renew = length (renew_bytes ra) \<and>
   map (drop_bit 30) [reg_src_register, reg_src_negotiate, reg_src_request_context, reg_src_renew] = [1, 3, 3, 3] \<and>
   map (\<lambda>c. c AND 0xFFFF) [reg_src_register, reg_src_negotiate, reg_src_request_context, reg_src_renew]
     = [0x5200, 0x5201, 0x5202, 0x5203]"
  by (simp add: ioc_size_def reg_src_register_def reg_src_negotiate_def reg_src_request_context_def reg_src_renew_def
      negotiate_bytes_def context_bytes_def renew_bytes_def register_args_fields reg_src_register_args_size_def)

section \<open>The request loop\<close>

text \<open>What identifies a request on the wire, and the same fields of a response.\<close>

definition request_tag :: "request_header \<Rightarrow> u64 \<times> u16" where
  "request_tag hdr = (requestID hdr, opCode hdr OR response_bit)"

definition response_tag :: "bytes \<Rightarrow> u64 \<times> u16" where
  "response_tag r = (le_word (take 8 (drop 4 r)), le_word (take 2 (drop 12 r)))"

lemma response_tag_write [simp]: "response_tag (write_response rid opc st payload) = (rid, opc OR response_bit)"
  by (simp add: response_tag_def write_response_def Let_def)

lemma dispatch_tag: "response_tag (fst (dispatch d hdr payload w)) = request_tag hdr"
  by (simp add: dispatch_def request_tag_def split: option.split prod.split)

definition loop_init :: "serving \<Rightarrow> bool" where
  "loop_init s \<longleftrightarrow> daemon_init (sv_world s) \<and> sv_loop s = Reading \<and> sv_jobs s = [] \<and> sv_accepted s = [] \<and>
     sv_responses s = [] \<and> sv_refused s = []"

abbreviation loop_step :: "u64 option \<Rightarrow> (u64 \<Rightarrow> u64 \<Rightarrow> u64 option) \<Rightarrow> serving \<Rightarrow> serving \<Rightarrow> bool" where
  "loop_step \<equiv> serve_step (register_handlers new_dispatcher)"

text \<open>A step in terms of the job it moves.\<close>

lemma receive_cases [case_names stops accepts]:
  obtains (stops) e where "receive lt r s = s\<lparr>sv_loop := Draining e\<rparr>"
  | (accepts) hdr payload where "receive lt r s =
      s\<lparr>sv_accepted := sv_accepted s @ [(hdr, payload)],
        sv_jobs := sv_jobs s @ [(length (sv_accepted s), Dispatched hdr payload)],
        sv_loop := (if opCode hdr = op_begin_transaction then Inline (length (sv_accepted s)) else Reading)\<rparr>"
proof (cases r)
  case (Message msg)
  show ?thesis
  proof (cases "parse_request msg")
    case (Inr hp)
    obtain hdr payload where hp: "hp = (hdr, payload)" by (cases hp)
    show ?thesis
    proof (cases "case lt of None \<Rightarrow> Inr hdr | Some (ses, ioctl) \<Rightarrow> request_context ses ioctl hdr")
      case (Inr hdr')
      with Message \<open>parse_request msg = Inr hp\<close> hp accepts [of hdr' payload] show ?thesis
        by (simp add: receive_def Let_def)
    qed (use Message Inr hp stops in \<open>simp add: receive_def\<close>)
  qed (use Message stops in \<open>simp add: receive_def\<close>)
qed (use stops in \<open>simp_all add: receive_def\<close>)

lemma handle_cases:
  assumes "k < length (sv_jobs s)" and "awaits (snd (sv_jobs s ! k))"
  obtains A n hdr payload B where "sv_jobs s = A @ (n, Dispatched hdr payload) # B"
    "handle_job d k s = s\<lparr>sv_world := snd (dispatch d hdr payload (sv_world s)),
       sv_jobs := A @ (n, Replying (fst (dispatch d hdr payload (sv_world s)))) # B\<rparr>"
proof -
  obtain n hdr payload where job: "sv_jobs s ! k = (n, Dispatched hdr payload)"
    using assms(2) by (cases "sv_jobs s ! k"; cases "snd (sv_jobs s ! k)") auto
  show ?thesis
    by (rule that [of "take k (sv_jobs s)" n hdr payload "drop (Suc k) (sv_jobs s)"])
      (use id_take_nth_drop [OF assms(1)] upd_conv_take_nth_drop [OF assms(1)] job
       in \<open>simp_all add: handle_job_def case_prod_beta Let_def\<close>)
qed

lemma write_cases:
  assumes "k < length (sv_jobs s)" and "\<not> awaits (snd (sv_jobs s ! k))"
  obtains A n response B refused where "sv_jobs s = A @ (n, Replying response) # B"
    "write_reply outcome k s = s\<lparr>sv_responses := sv_responses s @ [response], sv_refused := refused,
       sv_jobs := A @ B, sv_loop := (if sv_loop s = Inline n then Reading else sv_loop s)\<rparr>"
proof -
  obtain n response where job: "sv_jobs s ! k = (n, Replying response)"
    using assms(2) by (cases "sv_jobs s ! k"; cases "snd (sv_jobs s ! k)") auto
  show ?thesis
    by (rule that [of "take k (sv_jobs s)" n response "drop (Suc k) (sv_jobs s)"])
      (use id_take_nth_drop [OF assms(1)] job in \<open>simp_all add: write_reply_def\<close>)
qed

fun job_tag :: "job \<Rightarrow> u64 \<times> u16" where
  "job_tag (Dispatched hdr payload) = request_tag hdr" | "job_tag (Replying response) = response_tag response"

definition balanced :: "serving \<Rightarrow> bool" where
  "balanced s \<longleftrightarrow>
     mset (map (request_tag \<circ> fst) (sv_accepted s)) =
       mset (map response_tag (sv_responses s)) + mset (map (job_tag \<circ> snd) (sv_jobs s))"

section \<open>The serial order\<close>

text \<open>
  The specification of the loop: one after the other, requests of the log are dispatched and
  leases are maintained.
\<close>

datatype turn = Serve nat | Lease

definition play_turn :: "(u64 \<Rightarrow> u64 \<Rightarrow> u64 option) \<Rightarrow> (request_header \<times> bytes) list \<Rightarrow> bytes list \<times> world \<Rightarrow> turn \<Rightarrow> bytes list \<times> world" where
  "play_turn renew reqs s t =
     (case t of
        Serve n \<Rightarrow>
          (let (response, w) = dispatch (register_handlers new_dispatcher) (fst (reqs ! n)) (snd (reqs ! n)) (snd s)
           in (fst s @ [response], w))
      | Lease \<Rightarrow> (fst s, maintain_leases renew (snd s)))"

definition play :: "(u64 \<Rightarrow> u64 \<Rightarrow> u64 option) \<Rightarrow> (request_header \<times> bytes) list \<Rightarrow> turn list \<Rightarrow> world \<Rightarrow> bytes list \<times> world" where
  "play renew reqs turns w = foldl (play_turn renew reqs) ([], w) turns"

definition serves :: "turn list \<Rightarrow> nat list" where
  "serves turns = concat (map (\<lambda>t. case t of Serve n \<Rightarrow> [n] | Lease \<Rightarrow> []) turns)"

lemma serves_simps [simp]:
  "serves [] = []" "serves (turns @ [Serve n]) = serves turns @ [n]" "serves (turns @ [Lease]) = serves turns"
  by (simp_all add: serves_def)

lemma play_simps [simp]:
  "play renew reqs [] w = ([], w)"
  "play renew reqs (turns @ [t]) w = play_turn renew reqs (play renew reqs turns w) t"
  by (simp_all add: play_def)

lemma play_grow:
  "\<forall>n\<in>set (serves turns). n < length reqs \<Longrightarrow> play renew (reqs @ new) turns w = play renew reqs turns w"
proof (induction turns rule: rev_induct)
  case (snoc t turns)
  then show ?case by (cases t) (simp_all add: play_turn_def nth_append)
qed simp

definition awaiting :: "serving \<Rightarrow> nat list" where
  "awaiting s = map fst (filter (awaits \<circ> snd) (sv_jobs s))"

definition replies :: "serving \<Rightarrow> bytes list" where
  "replies s = concat (map (\<lambda>(n, job). case job of Dispatched hdr payload \<Rightarrow> [] | Replying response \<Rightarrow> [response]) (sv_jobs s))"

definition begins :: "serving \<Rightarrow> nat \<Rightarrow> bool" where
  "begins s n \<longleftrightarrow> opCode (fst (sv_accepted s ! n)) = op_begin_transaction"

text \<open>A serial order that explains a state of the loop.\<close>

definition explains :: "(u64 \<Rightarrow> u64 \<Rightarrow> u64 option) \<Rightarrow> world \<Rightarrow> turn list \<Rightarrow> serving \<Rightarrow> bool" where
  "explains renew w0 turns s \<longleftrightarrow>
     snd (play renew (sv_accepted s) turns w0) = sv_world s \<and>
     mset (fst (play renew (sv_accepted s) turns w0)) = mset (sv_responses s) + mset (replies s) \<and>
     mset (serves turns) + mset (awaiting s) = mset [0..<length (sv_accepted s)] \<and>
     (\<forall>i<length (serves turns). \<forall>j<i. begins s (serves turns ! i) \<longrightarrow> serves turns ! j < serves turns ! i)"

text \<open>The jobs are those of the log, and only the last accepted request can be a BEGIN that waits.\<close>

definition jobs_ok :: "serving \<Rightarrow> bool" where
  "jobs_ok s \<longleftrightarrow>
     distinct (map fst (sv_jobs s)) \<and>
     (\<forall>(n, job)\<in>set (sv_jobs s). n < length (sv_accepted s) \<and>
        (\<forall>hdr payload. job = Dispatched hdr payload \<longrightarrow> sv_accepted s ! n = (hdr, payload) \<and>
           (opCode hdr = op_begin_transaction \<longrightarrow> sv_loop s = Inline n \<and> Suc n = length (sv_accepted s)))) \<and>
     (\<forall>n. sv_loop s = Inline n \<longrightarrow> n \<in> fst ` set (sv_jobs s) \<and> Suc n = length (sv_accepted s)) \<and>
     (\<forall>e. sv_loop s = Returned e \<longrightarrow> sv_jobs s = [])"

lemma jobs_ok_step:
  assumes "jobs_ok s" and "loop_step lifetime renew s s'"
  shows "jobs_ok s'"
  using assms(2)
proof cases
  case (read ioctl r)
  show ?thesis
  proof (cases rule: receive_cases [of "map_option (\<lambda>ses. (ses, ioctl)) lifetime" r s])
    case (stops e)
    with read assms(1) show ?thesis by (fastforce simp: jobs_ok_def)
  next
    case (accepts hdr payload)
    have old: "n < length (sv_accepted s)" if "(n, job) \<in> set (sv_jobs s)" for n job
      using assms(1) that by (auto simp: jobs_ok_def)
    have wait: "sv_accepted s ! n = (h, p) \<and> opCode h \<noteq> op_begin_transaction" if "(n, Dispatched h p) \<in> set (sv_jobs s)" for n h p
      using assms(1) that read(2) by (auto simp: jobs_ok_def)
    have "distinct (map fst (sv_jobs s))" using assms(1) by (simp add: jobs_ok_def)
    with read(1) show ?thesis
      by (auto simp: jobs_ok_def accepts nth_append dest: old wait)
  qed
next
  case (handle k)
  obtain A n hdr payload B where job: "sv_jobs s = A @ (n, Dispatched hdr payload) # B"
    and s': "handle_job (register_handlers new_dispatcher) k s =
      s\<lparr>sv_world := snd (dispatch (register_handlers new_dispatcher) hdr payload (sv_world s)),
        sv_jobs := A @ (n, Replying (fst (dispatch (register_handlers new_dispatcher) hdr payload (sv_world s)))) # B\<rparr>"
    using handle_cases [OF handle(2,3)] by metis
  show ?thesis using assms(1) unfolding handle(1) s' by (simp add: jobs_ok_def job ball_Un)
next
  case (write_back k outcome)
  obtain A n response B refused where job: "sv_jobs s = A @ (n, Replying response) # B"
    and s': "write_reply outcome k s = s\<lparr>sv_responses := sv_responses s @ [response], sv_refused := refused,
       sv_jobs := A @ B, sv_loop := (if sv_loop s = Inline n then Reading else sv_loop s)\<rparr>"
    using write_cases [OF write_back(2,3)] by metis
  have old: "m < length (sv_accepted s)" if "(m, j) \<in> set (sv_jobs s)" for m j
    using assms(1) that by (auto simp: jobs_ok_def)
  have wait: "sv_accepted s ! m = (h, p) \<and> (opCode h = op_begin_transaction \<longrightarrow> sv_loop s = Inline m \<and> Suc m = length (sv_accepted s))"
    if "(m, Dispatched h p) \<in> set (sv_jobs s)" for m h p
    using assms(1) that by (auto simp: jobs_ok_def)
  have dist: "distinct (map fst (sv_jobs s))" using assms(1) by (simp add: jobs_ok_def)
  have kept: "(m, j) \<in> set (sv_jobs s) \<and> m \<noteq> n" if "(m, j) \<in> set (A @ B)" for m j
  proof -
    have "m \<in> fst ` set (A @ B)" using that by force
    moreover have "n \<notin> fst ` set (A @ B)" using dist by (auto simp: job)
    ultimately show ?thesis using that by (auto simp: job)
  qed
  have inline: "m \<in> fst ` set (A @ B) \<and> Suc m = length (sv_accepted s)" if "sv_loop s = Inline m" "m \<noteq> n" for m
    using assms(1) that by (auto simp: jobs_ok_def job)
  have busy: "sv_loop s \<noteq> Returned e" for e using assms(1) by (auto simp: jobs_ok_def job)
  have "distinct (map fst (A @ B))" using dist by (simp add: job)
  moreover have "m < length (sv_accepted s) \<and> (\<forall>h p. j = Dispatched h p \<longrightarrow> sv_accepted s ! m = (h, p) \<and>
      (opCode h = op_begin_transaction \<longrightarrow> sv_loop s = Inline m \<and> m \<noteq> n \<and> Suc m = length (sv_accepted s)))"
    if "(m, j) \<in> set (A @ B)" for m j
    using kept [OF that] old wait by blast
  ultimately show ?thesis
    unfolding write_back(1) s' jobs_ok_def using inline busy by (auto simp del: set_append) blast
next
  case (drained e)
  with assms(1) show ?thesis by (simp add: jobs_ok_def)
next
  case lease
  with assms(1) show ?thesis by (simp add: jobs_ok_def)
qed

lemma explains_numbers:
  assumes "explains renew w0 turns s"
  shows "\<forall>n\<in>set (serves turns). n < length (sv_accepted s)" "n \<in> set (awaiting s) \<Longrightarrow> n \<notin> set (serves turns)"
proof -
  have all: "mset (serves turns @ awaiting s) = mset [0..<length (sv_accepted s)]" using assms by (simp add: explains_def)
  show "\<forall>n\<in>set (serves turns). n < length (sv_accepted s)" using mset_eq_setD [OF all] by auto
  have "distinct (serves turns @ awaiting s)" using mset_eq_imp_distinct_iff [OF all] by simp
  then show "n \<in> set (awaiting s) \<Longrightarrow> n \<notin> set (serves turns)" by auto
qed

lemma explains_same:
  assumes "explains renew w0 turns s" and "sv_world s' = sv_world s" and "sv_accepted s' = sv_accepted s"
    and "awaiting s' = awaiting s" and "mset (sv_responses s') + mset (replies s') = mset (sv_responses s) + mset (replies s)"
  shows "explains renew w0 turns s'"
  using assms by (simp add: explains_def begins_def)

lemma explains_accept:
  assumes "explains renew w0 turns s" and "sv_world s' = sv_world s" and "sv_accepted s' = sv_accepted s @ [(hdr, payload)]"
    and "sv_jobs s' = sv_jobs s @ [(length (sv_accepted s), Dispatched hdr payload)]" and "sv_responses s' = sv_responses s"
  shows "explains renew w0 turns s'"
proof -
  note old = explains_numbers(1) [OF assms(1)]
  have "begins s' n = begins s n" if "n \<in> set (serves turns)" for n
    using old that assms(3) by (simp add: begins_def nth_append)
  with assms old play_grow [OF old] show ?thesis by (simp add: explains_def awaiting_def replies_def)
qed

lemma explains_handle:
  assumes "explains renew w0 turns s" and "jobs_ok s" and "sv_jobs s = A @ (n, Dispatched hdr payload) # B"
  shows "explains renew w0 (turns @ [Serve n]) (s\<lparr>sv_world := snd (dispatch (register_handlers new_dispatcher) hdr payload (sv_world s)),
    sv_jobs := A @ (n, Replying (fst (dispatch (register_handlers new_dispatcher) hdr payload (sv_world s)))) # B\<rparr>)"
proof -
  have req: "sv_accepted s ! n = (hdr, payload)" "begins s n \<Longrightarrow> Suc n = length (sv_accepted s)"
    using assms(2,3) by (auto simp: jobs_ok_def begins_def)
  have wait: "n \<in> set (awaiting s)" by (simp add: awaiting_def assms(3))
  note numbers = explains_numbers(1) [OF assms(1)] explains_numbers(2) [OF assms(1) wait]
  have "serves turns ! j < n" if "begins s n" "j < length (serves turns)" for j
  proof -
    have "serves turns ! j \<in> set (serves turns)" using that(2) by simp
    with numbers req(2) [OF that(1)] show ?thesis by (metis less_SucE)
  qed
  with assms(1) show ?thesis
    by (auto simp: explains_def begins_def play_turn_def req(1) awaiting_def replies_def assms(3) nth_append less_Suc_eq split: prod.split)
qed

definition loop_inv :: "(u64 \<Rightarrow> u64 \<Rightarrow> u64 option) \<Rightarrow> serving \<Rightarrow> bool" where
  "loop_inv renew s \<longleftrightarrow>
     served (sv_world s) \<and> balanced s \<and> jobs_ok s \<and> (\<exists>w0 turns. daemon_init w0 \<and> explains renew w0 turns s)"

lemma served_steps:
  "served w \<Longrightarrow> served (snd (serve hdr payload w))" "served w \<Longrightarrow> served (maintain_leases renew w)"
  by (blast intro: move request leases)+

lemma loop_inv_step:
  assumes "loop_inv renew s" and "loop_step lifetime renew s s'"
  shows "loop_inv renew s'"
proof -
  obtain w0 turns where inv: "served (sv_world s)" "balanced s" "jobs_ok s" "daemon_init w0" "explains renew w0 turns s"
    using assms(1) by (auto simp: loop_inv_def)
  note jobs = jobs_ok_step [OF inv(3) assms(2)]
  have "served (sv_world s') \<and> balanced s' \<and> (\<exists>turns'. explains renew w0 turns' s')"
    using assms(2)
  proof cases
    case (read ioctl r)
    show ?thesis
    proof (cases rule: receive_cases [of "map_option (\<lambda>ses. (ses, ioctl)) lifetime" r s])
      case (stops e)
      with read inv explains_same [OF inv(5), of s'] show ?thesis by (auto simp: balanced_def awaiting_def replies_def)
    next
      case (accepts hdr payload)
      with read inv explains_accept [OF inv(5), of s' hdr payload] show ?thesis by (auto simp: balanced_def)
    qed
  next
    case (handle k)
    obtain A n hdr payload B where job: "sv_jobs s = A @ (n, Dispatched hdr payload) # B"
      and s': "handle_job (register_handlers new_dispatcher) k s =
        s\<lparr>sv_world := snd (dispatch (register_handlers new_dispatcher) hdr payload (sv_world s)),
          sv_jobs := A @ (n, Replying (fst (dispatch (register_handlers new_dispatcher) hdr payload (sv_world s)))) # B\<rparr>"
      using handle_cases [OF handle(2,3)] by metis
    from inv explains_handle [OF inv(5,3) job] show ?thesis
      unfolding handle(1) s' by (auto simp: balanced_def served_steps dispatch_tag job)
  next
    case (write_back k outcome)
    obtain A n response B refused where job: "sv_jobs s = A @ (n, Replying response) # B"
      and s': "write_reply outcome k s = s\<lparr>sv_responses := sv_responses s @ [response], sv_refused := refused,
         sv_jobs := A @ B, sv_loop := (if sv_loop s = Inline n then Reading else sv_loop s)\<rparr>"
      using write_cases [OF write_back(2,3)] by metis
    with inv explains_same [OF inv(5), of s'] show ?thesis
      unfolding write_back(1) s' by (auto simp: balanced_def awaiting_def replies_def)
  next
    case (drained e)
    with inv explains_same [OF inv(5), of s'] show ?thesis by (auto simp: balanced_def awaiting_def replies_def)
  next
    case lease
    with inv have "explains renew w0 (turns @ [Lease]) s'"
      by (simp add: explains_def begins_def awaiting_def replies_def play_turn_def)
    with lease inv show ?thesis by (auto simp: balanced_def served_steps)
  qed
  with jobs inv(4) show ?thesis by (auto simp: loop_inv_def)
qed

lemma loop_init_explained: "loop_init s \<Longrightarrow> explains renew (sv_world s) [] s"
  by (simp add: loop_init_def explains_def awaiting_def replies_def)

interpretation loop: invariant_system loop_init "loop_step lifetime renew" "loop_inv renew"
proof
  fix s assume init: "loop_init s"
  then have "served (sv_world s)" "balanced s" "jobs_ok s" "daemon_init (sv_world s)"
    by (auto simp: loop_init_def balanced_def jobs_ok_def intro: reachable.start)
  with loop_init_explained [OF init] show "loop_inv renew s" by (auto simp: loop_inv_def)
qed (rule loop_inv_step)


definition loop_start :: serving where
  "loop_start = \<lparr>sv_world = run_start, sv_loop = Reading, sv_jobs = [], sv_accepted = [], sv_responses = [], sv_refused = []\<rparr>"

lemma loop_start_ok: "loop_init loop_start"
  unfolding loop_init_def loop_start_def daemon_init_def
  by (intro conjI exI [of _ "[run_hive]"] exI) (simp_all add: run_start_def run_hive_def run_db_ok)

definition loop_message :: read_result where
  "loop_message = Message (request_frame ((run_header op_flush 0)\<lparr>totalLen := 22\<rparr>) [])"

definition loop_flush :: serving where
  "loop_flush = loop_start\<lparr>sv_accepted := [((run_header op_flush 0)\<lparr>totalLen := 22\<rparr>, [])],
     sv_jobs := [(0, Dispatched ((run_header op_flush 0)\<lparr>totalLen := 22\<rparr>) [])]\<rparr>"

lemma loop_flush_reachable: "reachable loop_init (loop_step None renew) loop_flush"
proof -
  have "parse_request (request_frame ((run_header op_flush 0)\<lparr>totalLen := 22\<rparr>) []) = Inr ((run_header op_flush 0)\<lparr>totalLen := 22\<rparr>, [])"
    by (rule parse_request_frame) (simp add: frame_header_def size_defs run_header_def)
  then have "receive None loop_message loop_start = loop_flush"
    by (simp add: receive_def loop_message_def loop_flush_def loop_start_def Let_def op_defs)
  moreover have "loop_step None renew loop_start (receive (map_option (\<lambda>ses. (ses, ioctl)) None) loop_message loop_start)" for ioctl
    by (rule serve_step.read) (simp add: loop_start_def)
  ultimately show ?thesis using move [OF reachable.start [of loop_init, OF loop_start_ok]] by simp
qed

text \<open>The flush has been served and its reply is written; the loop returns.\<close>

lemma loop_returned_reachable:
  "\<exists>s. reachable loop_init (loop_step None renew) s \<and> sv_loop s = Returned None \<and> length (sv_accepted s) = 1"
proof -
  let ?d = "register_handlers new_dispatcher"
  have "receive None End_Of_File loop_flush = loop_flush\<lparr>sv_loop := Draining None\<rparr>" by (simp add: receive_def)
  moreover have "loop_step None renew loop_flush (receive (map_option (\<lambda>ses. (ses, ioctl)) None) End_Of_File loop_flush)" for ioctl
    by (rule serve_step.read) (simp add: loop_flush_def loop_start_def)
  ultimately have r1: "reachable loop_init (loop_step None renew) (loop_flush\<lparr>sv_loop := Draining None\<rparr>)" (is "reachable _ _ ?s1")
    using move [OF loop_flush_reachable] by simp
  let ?s2 = "handle_job ?d 0 ?s1" and ?s3 = "write_reply None 0 (handle_job ?d 0 ?s1)"
  have r2: "reachable loop_init (loop_step None renew) ?s2"
    by (rule move [OF r1 serve_step.handle]) (simp_all add: loop_flush_def)
  have r3: "reachable loop_init (loop_step None renew) ?s3"
    by (rule move [OF r2 serve_step.write_back]) (simp_all add: loop_flush_def handle_job_def case_prod_beta Let_def)
  have f: "sv_loop ?s3 = Draining None" "sv_jobs ?s3 = []" "length (sv_accepted ?s3) = 1"
    by (simp_all add: loop_flush_def handle_job_def write_reply_def case_prod_beta Let_def)
  have "reachable loop_init (loop_step None renew) (?s3\<lparr>sv_loop := Returned None\<rparr>)"
    by (rule move [OF r3 serve_step.drained [OF f(1,2)]])
  with f(3) show ?thesis by (intro exI [of _ "?s3\<lparr>sv_loop := Returned None\<rparr>"]) simp
qed


text \<open>C32: when the loop returns, for whatever reason, every request it accepted has been
  answered exactly once: the responses handed to the device carry the request ids and the op
  codes of the accepted requests, each as often as it was accepted.\<close>

theorem loop_answers_once:
  assumes "reachable loop_init (loop_step lifetime renew) s" and "sv_loop s = Returned e"
  shows "mset (map response_tag (sv_responses s)) = mset (map (request_tag \<circ> fst) (sv_accepted s))"
proof -
  have "balanced s" "jobs_ok s" using loop.reachable_inv [OF assms(1)] by (simp_all add: loop_inv_def)
  with assms(2) show ?thesis by (auto simp: balanced_def jobs_ok_def)
qed

theorem loop_answers_once_witness:
  "\<exists>s :: serving. sv_accepted s \<noteq> [] \<and> mset (map response_tag (sv_responses s)) = mset (map (request_tag \<circ> fst) (sv_accepted s))"
proof -
  obtain s where s: "reachable loop_init (loop_step None (\<lambda>_ _. None)) s" "sv_loop s = Returned None" "length (sv_accepted s) = 1"
    using loop_returned_reachable by blast
  show ?thesis by (rule exI [of _ s]) (use s(3) loop_answers_once [OF s(1,2)] in auto)
qed

section \<open>Shutdown of the loop\<close>

text \<open>What a loop that has stopped reading still has to do: two steps for a request, one for a
  reply, and its return.\<close>

definition pending :: "serving \<Rightarrow> nat" where
  "pending s = sum_list (map (\<lambda>(n, job). if awaits job then 2 else 1) (sv_jobs s)) +
     (case sv_loop s of Returned e \<Rightarrow> 0 | _ \<Rightarrow> 1)"

definition stopped :: "serve_error option \<Rightarrow> serving \<Rightarrow> bool" where
  "stopped e s \<longleftrightarrow> sv_loop s = Draining e \<or> sv_loop s = Returned e \<and> sv_jobs s = []"

lemma stopped_step:
  assumes "stopped e s" and "loop_step lifetime renew s s'"
  shows "stopped e s' \<and> sv_accepted s' = sv_accepted s \<and>
    length (sv_responses s') + length (sv_jobs s') = length (sv_responses s) + length (sv_jobs s) \<and>
    (pending s' < pending s \<or> (\<exists>w. s' = s\<lparr>sv_world := w\<rparr>))"
  using assms(2)
proof cases
  case (read ioctl r)
  with assms(1) show ?thesis by (simp add: stopped_def)
next
  case (handle k)
  obtain A n hdr payload B where job: "sv_jobs s = A @ (n, Dispatched hdr payload) # B"
    and s': "handle_job (register_handlers new_dispatcher) k s =
      s\<lparr>sv_world := snd (dispatch (register_handlers new_dispatcher) hdr payload (sv_world s)),
        sv_jobs := A @ (n, Replying (fst (dispatch (register_handlers new_dispatcher) hdr payload (sv_world s)))) # B\<rparr>"
    using handle_cases [OF handle(2,3)] by metis
  from assms(1) show ?thesis unfolding handle(1) s' by (simp add: stopped_def pending_def job)
next
  case (write_back k outcome)
  obtain A n response B refused where job: "sv_jobs s = A @ (n, Replying response) # B"
    and s': "write_reply outcome k s = s\<lparr>sv_responses := sv_responses s @ [response], sv_refused := refused,
       sv_jobs := A @ B, sv_loop := (if sv_loop s = Inline n then Reading else sv_loop s)\<rparr>"
    using write_cases [OF write_back(2,3)] by metis
  from assms(1) show ?thesis unfolding write_back(1) s' by (auto simp: stopped_def pending_def job)
next
  case (drained e)
  with assms(1) show ?thesis by (simp add: stopped_def pending_def)
next
  case lease
  with assms(1) show ?thesis by (auto simp: stopped_def)
qed

lemma stopped_runs:
  assumes "(loop_step lifetime renew)\<^sup>*\<^sup>* s s'" and "stopped e s"
  shows "stopped e s' \<and> sv_accepted s' = sv_accepted s \<and>
    length (sv_responses s') + length (sv_jobs s') = length (sv_responses s) + length (sv_jobs s)"
  using assms(1)
proof (induction rule: rtranclp_induct)
  case (step y z)
  with stopped_step [of e y lifetime renew z] show ?case by simp
qed (simp add: assms(2))

lemma draining_moves:
  assumes "sv_loop s = Draining e"
  shows "\<exists>t. loop_step lifetime renew s t \<and> pending t < pending s"
proof (cases "sv_jobs s")
  case Nil
  with assms show ?thesis
    by (intro exI [of _ "s\<lparr>sv_loop := Returned e\<rparr>"] conjI serve_step.drained) (simp_all add: pending_def)
next
  case (Cons x jobs)
  have "\<exists>t. loop_step lifetime renew s t \<and> (\<nexists>w. t = s\<lparr>sv_world := w\<rparr>)"
  proof (cases "awaits (snd x)")
    case True
    then have step: "loop_step lifetime renew s (handle_job (register_handlers new_dispatcher) 0 s)"
      by (intro serve_step.handle) (simp_all add: Cons)
    obtain n hdr payload where "x = (n, Dispatched hdr payload)" using True by (cases x; cases "snd x") auto
    then have "sv_jobs (handle_job (register_handlers new_dispatcher) 0 s) \<noteq> sv_jobs s"
      by (simp add: handle_job_def Cons case_prod_beta Let_def)
    with step show ?thesis by (metis serving.ext_inject serving.surjective serving.update_convs(1))
  next
    case False
    then have step: "loop_step lifetime renew s (write_reply None 0 s)"
      by (intro serve_step.write_back) (simp_all add: Cons)
    obtain n response where "x = (n, Replying response)" using False by (cases x; cases "snd x") auto
    then have "sv_jobs (write_reply None 0 s) \<noteq> sv_jobs s" by (simp add: write_reply_def Cons)
    with step show ?thesis by (metis serving.ext_inject serving.surjective serving.update_convs(1))
  qed
  with stopped_step [of e s lifetime renew] assms show ?thesis by (auto simp: stopped_def)
qed

text \<open>C33: shutdown ends: a loop that has stopped reading accepts nothing more, whatever happens
  next.  Until it returns, with the error it stopped with and with no dispatch in flight, a
  step is enabled that brings it nearer to its return; every step does so or is a lease turn,
  so it returns once each request in flight is handled and its reply written, and each of
  them is answered.\<close>

theorem loop_drains:
  assumes "sv_loop s = Draining e" and "(loop_step lifetime renew)\<^sup>*\<^sup>* s s'"
  shows "sv_accepted s' = sv_accepted s \<and>
    length (sv_responses s') + length (sv_jobs s') = length (sv_responses s) + length (sv_jobs s) \<and>
    (sv_loop s' = Returned e \<and> sv_jobs s' = [] \<or>
     sv_loop s' = Draining e \<and> (\<exists>t. loop_step lifetime renew s' t \<and> pending t < pending s')) \<and>
    (\<forall>t. loop_step lifetime renew s' t \<longrightarrow> pending t < pending s' \<or> (\<exists>w. t = s'\<lparr>sv_world := w\<rparr>))"
proof -
  have "stopped e s" using assms(1) by (simp add: stopped_def)
  from stopped_runs [OF assms(2) this] stopped_step [of e s' lifetime renew] draining_moves [of s' e lifetime renew]
  show ?thesis by (auto simp: stopped_def)
qed

theorem loop_drains_witness:
  "\<exists>t. loop_step None (\<lambda>_ _. None) (loop_flush\<lparr>sv_loop := Draining None\<rparr>) t \<and>
     pending t < pending (loop_flush\<lparr>sv_loop := Draining None\<rparr>) \<and> length (sv_responses t) + length (sv_jobs t) = 1"
proof -
  let ?s = "loop_flush\<lparr>sv_loop := Draining None\<rparr>"
  have loop: "sv_loop ?s = Draining None" by simp
  from loop_drains [where lifetime = None and renew = "\<lambda>_ _. None", OF loop rtranclp.rtrancl_refl] loop obtain t where
    t: "loop_step None (\<lambda>_ _. None) ?s t" "pending t < pending ?s" by auto
  have "length (sv_responses t) + length (sv_jobs t) = 1"
    using loop_drains [OF loop r_into_rtranclp [where r = "loop_step None (\<lambda>_ _. None)", OF t(1)]] by (simp add: loop_flush_def loop_start_def)
  with t show ?thesis by blast
qed

end
