(* ===== verification/Startup_Laws.thy ===== *)
theory Startup_Laws
  imports Startup Hivedb_Laws Device_Laws
begin

text \<open>
  What a start and a stop of the process guarantee: the runtime lock keeps two daemons apart
  and residue away, a failed start closes every connection and the lock, a successful one
  serves an initial state of the daemon and registers what it serves, and a stop gives back
  what the start took.
\<close>

section \<open>Steps that only let time pass\<close>

lemma and_then_assoc: "and_then (and_then m k) l = and_then m (\<lambda>x. and_then (k x) l)"
  by (simp add: and_then_def fun_eq_iff split: prod.split sum.split)

definition env_only :: "'a os \<Rightarrow> bool" where
  "env_only m \<longleftrightarrow> (\<forall>h. \<exists>e. snd (m h) = h\<lparr>ho_env := e\<rparr>)"

lemma env_onlyD: "env_only m \<Longrightarrow> m h = (res, h') \<Longrightarrow> \<exists>e. h' = h\<lparr>ho_env := e\<rparr>"
  unfolding env_only_def by (metis snd_conv)

lemma env_only_os_call [inv_intros]: "env_only os_call"
  by (auto simp: env_only_def os_call_def split: prod.split)

lemma env_only_conn_call [inv_intros]: "env_only (conn_call dl)"
  by (auto simp: env_only_def conn_call_def Let_def split: prod.split)

lemma env_same: "\<exists>e. h = h\<lparr>ho_env := e\<rparr>"
  by (rule exI [of _ "ho_env h"]) simp

lemma env_only_ok [inv_intros]: "env_only (ok x)" "env_only (fail e)"
  unfolding env_only_def ok_def fail_def using env_same by auto

lemma env_only_and_then [inv_intros]:
  assumes "env_only m" and "\<And>x. env_only (k x)"
  shows "env_only (and_then m k)"
  unfolding env_only_def
proof
  fix h
  obtain res h1 where m: "m h = (res, h1)" by (cases "m h")
  from env_onlyD [OF assms(1) m] obtain e where h1: "h1 = h\<lparr>ho_env := e\<rparr>" by blast
  show "\<exists>e. snd (and_then m k h) = h\<lparr>ho_env := e\<rparr>"
  proof (cases res)
    case (Inr x)
    obtain res2 h2 where k: "k x h1 = (res2, h2)" by (cases "k x h1")
    from env_onlyD [OF assms(2) k] h1 m Inr k show ?thesis by (auto simp: and_then_def)
  qed (use m h1 in \<open>auto simp: and_then_def\<close>)
qed

lemma env_only_if [inv_intros]: "env_only m \<Longrightarrow> env_only m' \<Longrightarrow> env_only (if c then m else m')"
  by simp

lemma env_only_enable_wal [inv_intros]: "env_only (enable_wal dl)"
  unfolding enable_wal_def by (intro inv_intros)

definition host_kept :: "host \<Rightarrow> host \<Rightarrow> bool" where
  "host_kept h h' \<longleftrightarrow> ho_files h' = ho_files h \<and> ho_entries h' = ho_entries h \<and> ho_lock h' = ho_lock h \<and> ho_tmpfs h' = ho_tmpfs h"

lemma host_kept_env [simp]: "host_kept h (h\<lparr>ho_env := e\<rparr>)" "host_kept h h"
  by (simp_all add: host_kept_def)

lemma host_kept_trans: "host_kept h h' \<Longrightarrow> host_kept h' h'' \<Longrightarrow> host_kept h h''"
  by (simp add: host_kept_def)

section \<open>Connections\<close>

text \<open>A connection is open exactly when its opening succeeded.\<close>

lemma open_conn_outcome:
  assumes "open_conn path vol h = (res, h')"
  shows "host_kept h h' \<and> mset (ho_conns h') = (case res of Inl _ \<Rightarrow> mset (ho_conns h) | Inr _ \<Rightarrow> add_mset (path, vol) (mset (ho_conns h)))"
proof -
  let ?dl = "env_now (ho_env h) + connection_open_timeout"
  let ?conf = "and_then (conn_call ?dl) (\<lambda>_. and_then (conn_call ?dl) (\<lambda>_. and_then (conn_call ?dl) (\<lambda>_.
      and_then (enable_wal ?dl) (\<lambda>_. enable_wal ?dl))))"
  have conf: "env_only ?conf" by (intro inv_intros)
  obtain r1 h1 where o: "os_call h = (r1, h1)" by (cases "os_call h")
  from env_onlyD [OF env_only_os_call o] obtain e1 where h1: "h1 = h\<lparr>ho_env := e1\<rparr>" by blast
  obtain r2 h2 where s: "?conf (add_conn path vol h1) = (r2, h2)" by (cases "?conf (add_conn path vol h1)")
  from env_onlyD [OF conf s] obtain e2 where h2: "h2 = (add_conn path vol h1)\<lparr>ho_env := e2\<rparr>" by blast
  have "\<not> ?dl \<le> env_now (ho_env h)" by (simp add: connection_open_timeout_def)
  then have "open_conn path vol h = (case r1 of Inl e \<Rightarrow> (Inl e, h1) | Inr _ \<Rightarrow>
      (case r2 of Inl e \<Rightarrow> (Inl e, close_conn path vol h2) | Inr _ \<Rightarrow> (Inr (), h2)))"
    by (simp add: open_conn_def connect_def and_then_def [of os_call] o s split: sum.split)
  with assms show ?thesis
    by (auto simp: h1 h2 add_conn_def close_conn_def host_kept_def split: sum.splits)
qed

lemma close_conns_outcome:
  "host_kept h (close_conns n path vol h) \<and> mset (ho_conns (close_conns n path vol h)) = mset (ho_conns h) - replicate_mset n (path, vol)"
proof (induction n arbitrary: h)
  case (Suc n)
  from Suc.IH [of "close_conn path vol h"] show ?case
    by (simp add: close_conn_def host_kept_def)
qed simp

lemma open_conns_outcome:
  assumes "open_conns n done_so_far path vol h = (res, h')" and "replicate_mset done_so_far (path, vol) \<subseteq># mset (ho_conns h)"
  shows "host_kept h h' \<and> mset (ho_conns h') = (case res of Inl _ \<Rightarrow> mset (ho_conns h) - replicate_mset done_so_far (path, vol)
    | Inr _ \<Rightarrow> mset (ho_conns h) + replicate_mset n (path, vol))"
  using assms
proof (induction n arbitrary: done_so_far h)
  case (Suc n)
  obtain r h1 where o: "open_conn path vol h = (r, h1)" by (cases "open_conn path vol h")
  note one = open_conn_outcome [OF o]
  show ?case
  proof (cases r)
    case (Inl e)
    with Suc.prems o one close_conns_outcome [of h1 done_so_far path vol] show ?thesis by (auto intro: host_kept_trans)
  next
    case (Inr u)
    then have m: "mset (ho_conns h1) = add_mset (path, vol) (mset (ho_conns h))" using one by simp
    have sub: "replicate_mset (Suc done_so_far) (path, vol) \<subseteq># mset (ho_conns h1)" using Suc.prems(2) by (simp add: m)
    have "open_conns n (Suc done_so_far) path vol h1 = (res, h')" using Suc.prems(1) o Inr by simp
    from Suc.IH [OF this sub] one show ?thesis by (auto simp: m intro: host_kept_trans split: sum.splits)
  qed
qed auto

lemma open_read_pool_outcome:
  "open_read_pool num_cpu path vol h = (res, h') \<Longrightarrow>
   host_kept h h' \<and> mset (ho_conns h') = mset (ho_conns h) +
     (case res of Inl _ \<Rightarrow> {#} | Inr _ \<Rightarrow> replicate_mset (nat (read_pool_size num_cpu)) (path, vol))"
  using open_conns_outcome [of _ 0] by (auto simp: open_read_pool_def split: sum.splits)

section \<open>The runtime directory\<close>

lemma env_only_protect: "env_only protect_runtime_directory"
  unfolding env_only_def
proof
  fix h
  obtain r h1 where o: "os_call h = (r, h1)" by (cases "os_call h")
  from env_onlyD [OF env_only_os_call o] obtain e where h1: "h1 = h\<lparr>ho_env := e\<rparr>" by blast
  have "env_only (and_then os_call (\<lambda>_. and_then os_call (\<lambda>_. os_call)))" by (intro inv_intros)
  then obtain e2 where "snd (and_then os_call (\<lambda>_. and_then os_call (\<lambda>_. os_call)) h1) = h1\<lparr>ho_env := e2\<rparr>"
    unfolding env_only_def by blast
  then show "\<exists>e. snd (protect_runtime_directory h) = h\<lparr>ho_env := e\<rparr>"
    by (cases r) (auto simp: protect_runtime_directory_def and_then_def [of os_call "\<lambda>_ h. if _ h then _ h else _ h"] o h1)
qed

definition files_kept :: "host \<Rightarrow> host \<Rightarrow> bool" where
  "files_kept h h' \<longleftrightarrow> ho_files h' = ho_files h \<and> ho_conns h' = ho_conns h \<and> ho_tmpfs h' = ho_tmpfs h"

lemma remove_all_outcome:
  "remove_all x h = (res, h') \<Longrightarrow> files_kept h h' \<and> ho_lock h' = ho_lock h \<and>
     ho_entries h' = (case res of Inl _ \<Rightarrow> ho_entries h | Inr _ \<Rightarrow> removeAll x (ho_entries h))"
  using env_only_os_call unfolding env_only_def
  by (cases "os_call h"; cases "fst (os_call h)") (force simp: remove_all_def and_then_def files_kept_def dest: spec [of _ h])+

lemma remove_entries_outcome:
  "remove_entries xs h = (res, h') \<Longrightarrow> files_kept h h' \<and> ho_lock h' = ho_lock h \<and>
     (res = Inr () \<longrightarrow> set (ho_entries h') = {x \<in> set (ho_entries h). x = lock_name \<or> x \<notin> set xs})"
proof (induction xs arbitrary: h)
  case (Cons x xs)
  show ?case
  proof (cases "x = lock_name")
    case True
    with Cons show ?thesis by fastforce
  next
    case False
    obtain r h1 where o: "remove_all x h = (r, h1)" by (cases "remove_all x h")
    from remove_all_outcome [OF o] False o Cons.prems Cons.IH [of h1] show ?thesis
      by (cases r) (auto simp: and_then_def files_kept_def)
  qed
qed (auto simp: ok_def files_kept_def)

lemma lock_outcome:
  assumes "acquire_runtime_lock me h = (res, h')"
  shows "files_kept h h' \<and> set (ho_entries h) \<subseteq> set (ho_entries h') \<and> set (ho_entries h') \<subseteq> insert lock_name (set (ho_entries h)) \<and>
    (case res of Inl _ \<Rightarrow> ho_lock h' = ho_lock h | Inr _ \<Rightarrow> ho_lock h = None \<and> ho_lock h' = Some me)"
proof -
  obtain r h1 where o: "os_call h = (r, h1)" by (cases "os_call h")
  from env_onlyD [OF env_only_os_call o] obtain e where h1: "h1 = h\<lparr>ho_env := e\<rparr>" by blast
  let ?h2 = "h1\<lparr>ho_entries := List.insert lock_name (ho_entries h1)\<rparr>"
  obtain r2 h3 where o2: "os_call ?h2 = (r2, h3)" by (cases "os_call ?h2")
  from env_onlyD [OF env_only_os_call o2] obtain e2 where h3: "h3 = ?h2\<lparr>ho_env := e2\<rparr>" by blast
  from assms o o2 show ?thesis
    by (cases r; cases r2)
      (auto simp: acquire_runtime_lock_def and_then_def h1 h3 files_kept_def split: if_splits)
qed

lemma open_runtime_outcome:
  assumes "open_runtime_store me protection h = (res, h')"
  shows "files_kept h h' \<and>
    (case res of Inl _ \<Rightarrow> ho_lock h' = ho_lock h \<and> (ho_lock h \<noteq> None \<longrightarrow> set (ho_entries h) \<subseteq> set (ho_entries h'))
     | Inr _ \<Rightarrow> ho_lock h = None \<and> ho_lock h' = Some me \<and> set (ho_entries h') \<subseteq> {lock_name})"
proof -
  let ?guard = "if protection = Native_Protection then protect_runtime_directory else ok ()"
  let ?pre = "and_then os_call (\<lambda>_. and_then os_call (\<lambda>_. ?guard))"
  have pre: "env_only ?pre" using env_only_protect by (intro inv_intros)
  let ?lock = "\<lambda>_ h. case cleanup_runtime_residue h of (Inl e, h) \<Rightarrow> (Inl e, release_runtime_lock h) | (Inr _, h) \<Rightarrow> (Inr (), h)"
  obtain r h1 where p: "?pre h = (r, h1)" by (cases "?pre h")
  from env_onlyD [OF pre p] obtain e where h1: "h1 = h\<lparr>ho_env := e\<rparr>" by blast
  have run: "open_runtime_store me protection h = (case r of Inl e \<Rightarrow> (Inl e, h1) | Inr _ \<Rightarrow> and_then (acquire_runtime_lock me) ?lock h1)"
  proof -
    have "open_runtime_store me protection h = and_then ?pre (\<lambda>_. and_then (acquire_runtime_lock me) ?lock) h"
      by (simp only: open_runtime_store_def and_then_assoc)
    then show ?thesis unfolding and_then_def [of ?pre] p by (simp split: sum.split)
  qed
  obtain r2 h2 where l: "acquire_runtime_lock me h1 = (r2, h2)" by (cases "acquire_runtime_lock me h1")
  note lock = lock_outcome [OF l]
  obtain r3 h3 where c: "cleanup_runtime_residue h2 = (r3, h3)" by (cases "cleanup_runtime_residue h2")
  obtain r4 h4 where o: "os_call h2 = (r4, h4)" by (cases "os_call h2")
  from env_onlyD [OF env_only_os_call o] obtain e4 where h4: "h4 = h2\<lparr>ho_env := e4\<rparr>" by blast
  have clean: "files_kept h2 h3 \<and> ho_lock h3 = ho_lock h2 \<and> (r3 = Inr () \<longrightarrow> set (ho_entries h3) \<subseteq> {lock_name})"
    using c o remove_entries_outcome [of "ho_entries h4" h4 r3 h3]
    by (cases r4) (auto simp: cleanup_runtime_residue_def and_then_def h4 files_kept_def)
  show ?thesis
  proof (cases r)
    case (Inl e)
    with assms run show ?thesis by (auto simp: h1 files_kept_def)
  next
    case (Inr u)
    with assms run l c lock clean show ?thesis
      by (cases r2; cases r3) (auto simp: and_then_def h1 files_kept_def release_runtime_lock_def)
  qed
qed

section \<open>Opening a hive\<close>

text \<open>The files of the host, all of which can be opened.\<close>

definition files_ok :: "host \<Rightarrow> bool" where
  "files_ok h \<longleftrightarrow> (\<forall>path. file_ok (file_at path h))"

lemma file_at_update: "file_at path (h\<lparr>ho_env := e, ho_files := AList.update p f (ho_files h)\<rparr>) = (if path = p then f else file_at path h)"
  by (simp add: file_at_def update_conv')

lemma file_at_kept: "ho_files h' = ho_files h \<Longrightarrow> file_at path h' = file_at path h"
  by (simp add: file_at_def)

lemma file_at_fields [simp]:
  "file_at p (h\<lparr>ho_env := e\<rparr>) = file_at p h" "file_at p (h\<lparr>ho_entries := es\<rparr>) = file_at p h"
  "file_at p (h\<lparr>ho_lock := l\<rparr>) = file_at p h" "file_at p (h\<lparr>ho_conns := cs\<rparr>) = file_at p h"
  by (simp_all add: file_at_def)

lemma on_file_outcome:
  assumes "on_file path m h = (res, h')"
  obtains e f where "m (ho_env h, file_at path h) = (res, e, f)"
    "\<And>p. file_at p h' = (if p = path then f else file_at p h)"
    "ho_entries h' = ho_entries h" "ho_lock h' = ho_lock h" "ho_conns h' = ho_conns h"
proof -
  obtain res' e f where m: "m (ho_env h, file_at path h) = (res', e, f)" by (cases "m (ho_env h, file_at path h)") auto
  with assms have "res' = res" "h' = h\<lparr>ho_env := e, ho_files := AList.update path f (ho_files h)\<rparr>" by (simp_all add: on_file_def)
  with m that [of e f] show ?thesis by (simp add: file_at_update)
qed

text \<open>The connections of an open hive.\<close>

definition hive_conns :: "open_hive \<Rightarrow> (bytes \<times> bytes) multiset" where
  "hive_conns hive = replicate_mset (Suc (oh_readers hive)) (oh_path hive, oh_volatile hive)"

text \<open>What one opening may do to the file: nothing, or what the startup steps do.\<close>

definition hive_result :: "guid \<Rightarrow> hive_config \<Rightarrow> host \<Rightarrow> (error + open_hive) \<Rightarrow> host \<Rightarrow> bool" where
  "hive_result fresh cfg h res h' \<longleftrightarrow>
     ho_lock h' = ho_lock h \<and> (\<forall>p. p \<noteq> hc_path cfg \<longrightarrow> file_at p h' = file_at p h) \<and>
     (let f = file_at (hc_path cfg) h; f' = file_at (hc_path cfg) h' in
      case res of
        Inl _ \<Rightarrow> mset (ho_conns h') = mset (ho_conns h) \<and>
          (half_opened (hc_name cfg) fresh f f' \<or> (\<exists>g. opened (hc_name cfg) fresh f g f'))
      | Inr hive \<Rightarrow> mset (ho_conns h') = mset (ho_conns h) + hive_conns hive \<and> oh_path hive = hc_path cfg \<and>
          oh_name hive = hc_name cfg \<and> opened (hc_name cfg) fresh f (oh_root_guid hive) f')"

lemma half_opened_same [simp]: "half_opened name fresh f f"
  by (simp add: half_opened_def)

lemma open_hive_files_outcome:
  assumes "open_hive_files num_cpu fresh cfg vol h = (res, h')"
  shows "hive_result fresh cfg h res h' \<and> ho_entries h' = ho_entries h"
proof -
  let ?path = "hc_path cfg"
  obtain r1 h1 where o: "os_call h = (r1, h1)" by (cases "os_call h")
  from env_onlyD [OF env_only_os_call o] obtain e1 where h1: "h1 = h\<lparr>ho_env := e1\<rparr>" by blast
  obtain r2 h2 where c: "open_conn ?path vol h1 = (r2, h2)" by (cases "open_conn ?path vol h1")
  note conn = open_conn_outcome [OF c]
  obtain r3 h3 where i: "on_file ?path (initialize_hive (hc_name cfg) fresh) h2 = (r3, h3)"
    by (cases "on_file ?path (initialize_hive (hc_name cfg) fresh) h2")
  from on_file_outcome [OF i] obtain e3 f3 where init: "initialize_hive (hc_name cfg) fresh (ho_env h2, file_at ?path h2) = (r3, e3, f3)"
    and f3: "\<And>p. file_at p h3 = (if p = ?path then f3 else file_at p h2)"
    and k3: "ho_entries h3 = ho_entries h2" "ho_lock h3 = ho_lock h2" "ho_conns h3 = ho_conns h2" by blast
  obtain r4 h4 where p: "open_read_pool num_cpu ?path vol h3 = (r4, h4)" by (cases "open_read_pool num_cpu ?path vol h3")
  note pool = open_read_pool_outcome [OF p]
  have at: "file_at q h1 = file_at q h" for q by (rule file_at_kept) (simp add: h1)
  have at2: "file_at q h2 = file_at q h" for q using file_at_kept [of h2 h1 q] conn by (simp add: host_kept_def at)
  have at4: "file_at q h4 = file_at q h3" for q using pool by (intro file_at_kept) (simp add: host_kept_def)
  have close: "file_at q (close_conn ?path vol h) = file_at q h" "ho_lock (close_conn ?path vol h) = ho_lock h"
    "ho_entries (close_conn ?path vol h) = ho_entries h" for q h
    by (simp_all add: close_conn_def file_at_def)
  have run: "open_hive_files num_cpu fresh cfg vol h = (case r1 of Inl e \<Rightarrow> (Inl e, h1) | Inr _ \<Rightarrow>
      (case r2 of Inl e \<Rightarrow> (Inl e, h2) | Inr _ \<Rightarrow>
        (case r3 of Inl e \<Rightarrow> (Inl e, close_conn ?path vol h3) | Inr root \<Rightarrow>
          (case r4 of Inl e \<Rightarrow> (Inl e, close_conn ?path vol h4)
           | Inr _ \<Rightarrow> (Inr \<lparr>oh_name = hc_name cfg, oh_root_guid = root, oh_path = ?path, oh_volatile = vol,
               oh_readers = nat (read_pool_size num_cpu)\<rparr>, h4)))))"
    by (simp add: open_hive_files_def and_then_def o c i p split: sum.split)
  show ?thesis
  proof (cases "\<exists>u v. r1 = Inr u \<and> r2 = Inr v")
    case False
    then consider (early) e where "r1 = Inl e" | (late) v e where "r1 = Inr v" "r2 = Inl e" by (cases r1; cases r2) auto
    then show ?thesis
    proof cases
      case early
      with assms run show ?thesis by (auto simp: hive_result_def Let_def h1)
    next
      case late
      with assms run have "res = Inl e" "h' = h2" by simp_all
      with conn late show ?thesis by (simp add: hive_result_def Let_def at2) (simp add: h1 host_kept_def)
    qed
  next
    case True
    then have c2: "mset (ho_conns h2) = add_mset (?path, vol) (mset (ho_conns h))" "ho_lock h2 = ho_lock h" "ho_entries h2 = ho_entries h"
      using conn by (auto simp: h1 host_kept_def)
    note outcome = initialize_hive_outcome [OF init, unfolded at2]
    from True assms run have fin: "(res, h') = (case r3 of Inl e \<Rightarrow> (Inl e, close_conn ?path vol h3) | Inr root \<Rightarrow>
        (case r4 of Inl e \<Rightarrow> (Inl e, close_conn ?path vol h4)
         | Inr _ \<Rightarrow> (Inr \<lparr>oh_name = hc_name cfg, oh_root_guid = root, oh_path = ?path, oh_volatile = vol,
             oh_readers = nat (read_pool_size num_cpu)\<rparr>, h4)))" by auto
    have after: "file_at q h3 = (if q = ?path then f3 else file_at q h)" "file_at q h4 = (if q = ?path then f3 else file_at q h)" for q
      by (simp_all add: at4 f3 at2)
    show ?thesis
    proof (cases r3)
      case (Inl e)
      with fin outcome c2 show ?thesis
        by (simp add: hive_result_def Let_def close after k3) (simp add: close_conn_def k3)
    next
      case (Inr root)
      note root = this
      show ?thesis
      proof (cases r4)
        case (Inl e)
        with root fin outcome c2 pool show ?thesis
          by (auto simp: hive_result_def Let_def close after k3 host_kept_def) (simp_all add: close_conn_def k3)
      next
        case (Inr u)
        with root fin have "res = Inr \<lparr>oh_name = hc_name cfg, oh_root_guid = root, oh_path = ?path, oh_volatile = vol,
             oh_readers = nat (read_pool_size num_cpu)\<rparr>" "h' = h4" by simp_all
        with root outcome c2 pool Inr show ?thesis
          by (simp add: hive_result_def hive_conns_def Let_def after k3 host_kept_def)
      qed
    qed
  qed
qed

lemma open_in_outcome:
  assumes "open_in num_cpu names fresh cfg h = (res, h')"
  shows "hive_result fresh cfg h res h'"
proof -
  obtain r1 h1 where o: "os_call h = (r1, h1)" by (cases "os_call h")
  from env_onlyD [OF env_only_os_call o] obtain e1 where h1: "h1 = h\<lparr>ho_env := e1\<rparr>" by blast
  let ?vol = "names (ho_entries h1)"
  let ?h2 = "h1\<lparr>ho_entries := ?vol # ho_entries h1\<rparr>"
  obtain r3 h3 where f: "open_hive_files num_cpu fresh cfg ?vol ?h2 = (r3, h3)"
    by (cases "open_hive_files num_cpu fresh cfg ?vol ?h2")
  have opened: "hive_result fresh cfg h r3 h3"
    using open_hive_files_outcome [OF f] by (simp add: hive_result_def h1 Let_def split: sum.splits)
  obtain r4 h4 where r: "remove_all ?vol h3 = (r4, h4)" by (cases "remove_all ?vol h3")
  have "files_kept h3 h4" "ho_lock h4 = ho_lock h3" using remove_all_outcome [OF r] by simp_all
  then have removed: "hive_result fresh cfg h (Inl e) h4" if "r3 = Inl e" for e
    using opened that file_at_kept [of h4 h3] by (simp add: hive_result_def files_kept_def)
  show ?thesis
  proof (cases r1)
    case (Inl e)
    with assms o show ?thesis by (auto simp: open_in_def and_then_def hive_result_def h1 Let_def)
  next
    case (Inr u)
    with assms o f r opened removed show ?thesis
      by (cases r3) (auto simp: open_in_def and_then_def Let_def)
  qed
qed

lemma close_hive_outcome:
  "(\<forall>p. file_at p (close_hive hive h) = file_at p h) \<and> ho_lock (close_hive hive h) = ho_lock h \<and>
   mset (ho_conns (close_hive hive h)) = mset (ho_conns h) - hive_conns hive"
proof -
  let ?h1 = "close_conns (oh_readers hive) (oh_path hive) (oh_volatile hive) h"
  let ?h2 = "close_conn (oh_path hive) (oh_volatile hive) ?h1"
  obtain r h3 where r: "remove_all (oh_volatile hive) ?h2 = (r, h3)" by (cases "remove_all (oh_volatile hive) ?h2")
  have "files_kept ?h2 h3" "ho_lock h3 = ho_lock ?h2" using remove_all_outcome [OF r] by simp_all
  moreover have "host_kept h ?h1" "mset (ho_conns ?h1) = mset (ho_conns h) - replicate_mset (oh_readers hive) (oh_path hive, oh_volatile hive)"
    using close_conns_outcome by blast+
  moreover have "close_hive hive h = h3" by (simp add: close_hive_def Let_def r)
  ultimately show ?thesis
    by (auto simp: close_conn_def host_kept_def files_kept_def hive_conns_def intro: file_at_kept)
qed

lemma close_hives_outcome:
  "(\<forall>p. file_at p (close_hives hives h) = file_at p h) \<and> ho_lock (close_hives hives h) = ho_lock h \<and>
   mset (ho_conns (close_hives hives h)) = mset (ho_conns h) - sum_list (map hive_conns hives)"
proof (induction hives arbitrary: h)
  case (Cons hive hives)
  from Cons.IH [of "close_hive hive h"] close_hive_outcome [of hive h] show ?case
    by (simp add: close_hives_def diff_diff_add)
qed (simp add: close_hives_def)

section \<open>Opening all hives\<close>

lemma all_sequences_filter: "set (all_sequences d) =
    pr_sequence ` set (s_path_entries (db_main d)) \<union> vr_sequence ` set (s_values (db_main d)) \<union> br_sequence ` set (s_blankets (db_main d)) \<union>
    (pr_sequence ` set (s_path_entries (db_volatile d)) \<union> vr_sequence ` set (s_values (db_volatile d)) \<union> br_sequence ` set (s_blankets (db_volatile d)))"
  by (auto simp: all_sequences_def)

lemma opened_sequences:
  assumes "opened name fresh f g f'"
  shows "set (all_sequences (hf_db f')) \<subseteq> set (all_sequences (hf_db f))"
proof -
  from assms obtain d where "rooted name fresh (hf_db f) g d" "f' = (versioned f)\<lparr>hf_db := swept d\<rparr>" by (auto simp: opened_def)
  then show ?thesis unfolding all_sequences_filter by (auto simp: rooted_def)
qed

lemma half_opened_sequences:
  "half_opened name fresh f f' \<Longrightarrow> set (all_sequences (hf_db f')) \<subseteq> set (all_sequences (hf_db f))"
  unfolding all_sequences_filter by (auto simp: half_opened_def rooted_def)

text \<open>What a step of the startup keeps of the files: they stay fit to open, and no sequence appears.\<close>

definition files_advance :: "host \<Rightarrow> host \<Rightarrow> bool" where
  "files_advance h h' \<longleftrightarrow>
     (files_ok h \<longrightarrow> files_ok h') \<and>
     (\<forall>p. set (all_sequences (hf_db (file_at p h'))) \<subseteq> set (all_sequences (hf_db (file_at p h))))"

lemma files_advance_trans: "files_advance h h' \<Longrightarrow> files_advance h' h'' \<Longrightarrow> files_advance h h''"
  by (meson files_advance_def subset_trans)

lemma files_advance_same: "(\<And>p. file_at p h' = file_at p h) \<Longrightarrow> files_advance h h'"
  by (simp add: files_advance_def files_ok_def)

lemma hive_result_advance:
  assumes "hive_result fresh cfg h res h'" and "length fresh = 16"
  shows "files_advance h h'"
proof -
  let ?f = "file_at (hc_path cfg) h" and ?f' = "file_at (hc_path cfg) h'"
  have "half_opened (hc_name cfg) fresh ?f ?f' \<or> (\<exists>g. opened (hc_name cfg) fresh ?f g ?f')"
    using assms(1) by (auto simp: hive_result_def Let_def split: sum.splits)
  then have "(file_ok ?f \<longrightarrow> file_ok ?f') \<and> set (all_sequences (hf_db ?f')) \<subseteq> set (all_sequences (hf_db ?f))"
    using half_opened_ok opened_ok half_opened_sequences opened_sequences assms(2) by blast
  moreover have "file_at p h' = file_at p h" if "p \<noteq> hc_path cfg" for p using assms(1) that by (simp add: hive_result_def)
  ultimately have "(file_ok (file_at p h) \<longrightarrow> file_ok (file_at p h')) \<and>
      set (all_sequences (hf_db (file_at p h'))) \<subseteq> set (all_sequences (hf_db (file_at p h)))" for p
    by (cases "p = hc_path cfg") auto
  then show ?thesis unfolding files_advance_def files_ok_def by blast
qed

text \<open>The loop: the connections of the opened hives are open, the registrations are theirs, and
  the maximum is above every sequence of their files.\<close>

definition sequences_below :: "u64 \<Rightarrow> host \<Rightarrow> open_hive list \<Rightarrow> bool" where
  "sequences_below m h hives \<longleftrightarrow> (\<forall>hive\<in>set hives. \<forall>s\<in>set (all_sequences (hf_db (file_at (oh_path hive) h))). s \<le> m)"

definition small_sequences :: "host \<Rightarrow> bool" where
  "small_sequences h \<longleftrightarrow> (\<forall>p. list_all (\<lambda>s. s < 2 ^ 63) (all_sequences (hf_db (file_at p h))))"

definition registration_of :: "open_hive \<Rightarrow> hive_registration" where
  "registration_of hive = \<lparr>hr_name = oh_name hive, hr_root_guid = oh_root_guid hive\<rparr>"

lemma files_advance_sequences:
  assumes "files_advance h h'"
  shows "sequences_below m h hives \<Longrightarrow> sequences_below m h' hives" "small_sequences h \<Longrightarrow> small_sequences h'"
proof -
  have sub: "s \<in> set (all_sequences (hf_db (file_at p h)))" if "s \<in> set (all_sequences (hf_db (file_at p h')))" for s p
    using assms that by (auto simp: files_advance_def)
  show "sequences_below m h hives \<Longrightarrow> sequences_below m h' hives" "small_sequences h \<Longrightarrow> small_sequences h'"
    using sub by (simp_all add: sequences_below_def small_sequences_def list_all_iff) (blast dest: sub)
qed

lemma max_sequence_outcome:
  assumes "max_sequence (e, f) = (res, e', f')"
  shows "f' = f \<and> (\<forall>m. res = Inr m \<longrightarrow> list_all (\<lambda>s. s < 2 ^ 63) (all_sequences (hf_db f)) \<longrightarrow> list_all (\<lambda>s. s \<le> m) (all_sequences (hf_db f)))"
  using max_sequence_cases [OF assms] by simp

lemma file_at_on_file:
  assumes "on_file path max_sequence h = (res, h')"
  shows "file_at p h' = file_at p h" "ho_lock h' = ho_lock h" "ho_conns h' = ho_conns h"
    "res = Inr m \<Longrightarrow> small_sequences h \<Longrightarrow> \<forall>s\<in>set (all_sequences (hf_db (file_at path h))). s \<le> m"
proof -
  from on_file_outcome [OF assms] obtain e f where m: "max_sequence (ho_env h, file_at path h) = (res, e, f)"
    and f: "\<And>p. file_at p h' = (if p = path then f else file_at p h)"
    and k: "ho_entries h' = ho_entries h" "ho_lock h' = ho_lock h" "ho_conns h' = ho_conns h" by blast
  note out = max_sequence_outcome [OF m]
  show "file_at p h' = file_at p h" "ho_lock h' = ho_lock h" "ho_conns h' = ho_conns h" using f k out by simp_all
  show "\<forall>s\<in>set (all_sequences (hf_db (file_at path h))). s \<le> m" if "res = Inr m" "small_sequences h"
    using out that by (auto simp: small_sequences_def list_all_iff)
qed

lemma open_hives_outcome:
  assumes "open_hives num_cpu names rand cfgs hives regs max_seq h = ((hives', res), h')" and "\<And>n. length (rand n) = 16"
  shows "files_advance h h' \<and> ho_lock h' = ho_lock h \<and>
    (\<exists>new. hives' = hives @ new \<and> mset (ho_conns h') = mset (ho_conns h) + sum_list (map hive_conns new) \<and>
      (\<forall>regs' m. res = Inr (regs', m) \<longrightarrow>
        regs' = regs @ map registration_of new \<and> map oh_name new = map hc_name cfgs \<and> map oh_path new = map hc_path cfgs \<and>
        max_seq \<le> m \<and> (small_sequences h \<longrightarrow> sequences_below m h' new)))"
  using assms(1)
proof (induction cfgs arbitrary: hives regs max_seq h)
  case Nil
  then show ?case by (auto simp: files_advance_def sequences_below_def)
next
  case (Cons cfg cfgs)
  obtain r h1 where o: "open_in num_cpu names (rand (length hives)) cfg h = (r, h1)"
    by (cases "open_in num_cpu names (rand (length hives)) cfg h")
  note one = open_in_outcome [OF o]
  note adv1 = hive_result_advance [OF one assms(2)]
  show ?case
  proof (cases r)
    case (Inl e)
    with Cons.prems o one adv1 show ?thesis by (auto simp: hive_result_def Let_def)
  next
    case (Inr hive)
    have hive: "mset (ho_conns h1) = mset (ho_conns h) + hive_conns hive" "oh_path hive = hc_path cfg" "oh_name hive = hc_name cfg"
      "ho_lock h1 = ho_lock h" using one Inr by (simp_all add: hive_result_def Let_def)
    obtain r2 h2 where q: "on_file (oh_path hive) max_sequence h1 = (r2, h2)" by (cases "on_file (oh_path hive) max_sequence h1")
    note seq = file_at_on_file [OF q]
    have adv2: "files_advance h1 h2" by (rule files_advance_same) (rule seq(1))
    note adv12 = files_advance_trans [OF adv1 adv2]
    show ?thesis
    proof (cases r2)
      case (Inl e)
      with Cons.prems o Inr q hive seq(2,3) adv12 \<open>r = Inr hive\<close> show ?thesis
        by (auto simp: Let_def intro!: exI [of _ "[hive]"])
    next
      case (Inr m)
      let ?m = "if m > max_seq then m else max_seq"
      have rest: "open_hives num_cpu names rand cfgs (hives @ [hive]) (regs @ [registration_of hive]) ?m h2 = ((hives', res), h')"
        using Cons.prems o q \<open>r = Inr hive\<close> Inr by (simp add: Let_def registration_of_def)
      from Cons.IH [OF rest] obtain new where adv3: "files_advance h2 h'" and lock: "ho_lock h' = ho_lock h2"
        and new: "hives' = (hives @ [hive]) @ new" "mset (ho_conns h') = mset (ho_conns h2) + sum_list (map hive_conns new)"
        and regs: "\<And>regs' k. res = Inr (regs', k) \<Longrightarrow> regs' = (regs @ [registration_of hive]) @ map registration_of new \<and>
          map oh_name new = map hc_name cfgs \<and> map oh_path new = map hc_path cfgs \<and> ?m \<le> k \<and>
          (small_sequences h2 \<longrightarrow> sequences_below k h' new)" by blast
      have "sequences_below k h' (hive # new)" if "res = Inr (regs', k)" "small_sequences h" for regs' k
      proof -
        have small: "small_sequences h1" "small_sequences h2"
          using files_advance_sequences(2) that(2) adv1 adv12 by blast+
        have "sequences_below ?m h2 [hive]"
          using seq(1,4) Inr small(1) by (fastforce simp: sequences_below_def)
        then have "sequences_below ?m h' [hive]" by (rule files_advance_sequences(1) [OF adv3])
        moreover have "?m \<le> k" "sequences_below k h' new" using regs [OF that(1)] small(2) by blast+
        ultimately show ?thesis unfolding sequences_below_def by (auto intro: order_trans)
      qed
      moreover have "max_seq \<le> ?m" by (simp add: less_imp_le)
      ultimately show ?thesis
        using new regs hive lock seq(2,3) files_advance_trans [OF adv12 adv3]
        by (intro conjI exI [of _ "hive # new"]) (auto simp: ac_simps intro: order_trans)
    qed
  qed
qed

section \<open>Starting and stopping\<close>

lemma env_only_attach:
  assumes "attach_device k regs max_seq h = (res, h')"
  shows "(\<exists>e. h' = h\<lparr>ho_env := e\<rparr>) \<and> (\<forall>ses args entries. res = Inr (ses, args, entries) \<longrightarrow>
    negotiate (kn_negotiate k) = Inr ses \<and> register_hives (kn_name_addr k) (kn_entries_addr k) regs max_seq = Inr (args, entries))"
proof -
  obtain r1 h1 where o: "os_call h = (r1, h1)" by (cases "os_call h")
  from env_onlyD [OF env_only_os_call o] obtain e1 where h1: "h1 = h\<lparr>ho_env := e1\<rparr>" by blast
  obtain r2 h2 where o2: "os_call h1 = (r2, h2)" by (cases "os_call h1")
  from env_onlyD [OF env_only_os_call o2] obtain e2 where h2: "h2 = h1\<lparr>ho_env := e2\<rparr>" by blast
  from assms show ?thesis
    by (auto simp: attach_device_def and_then_def o o2 [unfolded h1] ok_def fail_def h1 h2 split: sum.splits)
qed

lemma daemon_init_hives:
  assumes "files_ok h"
  shows "daemon_init (new_handler (map (hive_of h) hives) e)"
  unfolding daemon_init_def
  by (intro exI [of _ "map (hive_of h) hives"] exI [of _ e] conjI) (use assms in \<open>auto simp: hive_of_def files_ok_def file_ok_def\<close>)

definition started :: "kernel \<Rightarrow> nat \<Rightarrow> bytes list \<Rightarrow> running \<Rightarrow> host \<Rightarrow> bool" where
  "started k me args dm h' \<longleftrightarrow>
     daemon_init (dm_world dm) \<and> ho_lock h' = Some me \<and>
     (\<exists>configs m. parse_config args = Inr configs \<and> map oh_name (dm_hives dm) = map hc_name configs \<and>
        map oh_path (dm_hives dm) = map hc_path configs \<and> sequences_below m h' (dm_hives dm) \<and>
        register_hives (kn_name_addr k) (kn_entries_addr k) (map registration_of (dm_hives dm)) m = Inr (dm_registration dm))"

lemma start_outcome:
  assumes "start_daemon k num_cpu names rand me args h = (res, h')"
    and "files_ok h" and "small_sequences h" and "\<And>n. length (rand n) = 16"
  shows "files_ok h' \<and>
    (case res of
       Inl _ \<Rightarrow> mset (ho_conns h') = mset (ho_conns h) \<and> ho_lock h' = ho_lock h
     | Inr dm \<Rightarrow> started k me args dm h' \<and> mset (ho_conns h') = mset (ho_conns h) + sum_list (map hive_conns (dm_hives dm)))"
proof (cases "parse_config args")
  case (Inl e)
  with assms show ?thesis by (auto simp: start_daemon_def)
next
  case (Inr configs)
  obtain r1 h1 where o: "open_runtime_store me Native_Protection h = (r1, h1)" by (cases "open_runtime_store me Native_Protection h")
  note runtime = open_runtime_outcome [OF o]
  have files1: "file_at p h1 = file_at p h" for p using runtime by (intro file_at_kept) (simp add: files_kept_def)
  show ?thesis
  proof (cases r1)
    case (Inl e)
    with assms Inr o runtime files1 show ?thesis
      by (auto simp: start_daemon_def files_ok_def files_kept_def)
  next
    case (Inr u)
    obtain hives r2 h2 where p: "open_hives num_cpu names rand configs [] [] 0 h1 = ((hives, r2), h2)" by (metis surj_pair)
    from open_hives_outcome [OF p assms(4)] have adv: "files_advance h1 h2" "ho_lock h2 = ho_lock h1"
      and conns: "mset (ho_conns h2) = mset (ho_conns h1) + sum_list (map hive_conns hives)"
      and regs: "\<And>regs m. r2 = Inr (regs, m) \<Longrightarrow> regs = map registration_of hives \<and> map oh_name hives = map hc_name configs \<and>
        map oh_path hives = map hc_path configs \<and> (small_sequences h1 \<longrightarrow> sequences_below m h2 hives)" by auto
    have ok: "files_ok h2" "small_sequences h1"
      using adv(1) assms(2,3) files1 by (simp_all add: files_advance_def files_ok_def small_sequences_def)
    have undo: "files_ok (release_runtime_lock (close_hives hives g)) \<and>
        mset (ho_conns (release_runtime_lock (close_hives hives g))) = mset (ho_conns h) \<and>
        ho_lock (release_runtime_lock (close_hives hives g)) = ho_lock h"
      if "ho_files g = ho_files h2" "ho_conns g = ho_conns h2" for g
      using close_hives_outcome [of hives g] that ok(1) conns runtime Inr file_at_kept [of g h2]
      by (simp add: release_runtime_lock_def files_ok_def files_kept_def)
    show ?thesis
    proof (cases r2)
      case (Inl e)
      with assms(1) \<open>parse_config args = Inr configs\<close> o \<open>r1 = Inr u\<close> p undo [of h2] show ?thesis
        by (auto simp: start_daemon_def)
    next
      case (Inr rm)
      obtain rs m where rm: "r2 = Inr (rs, m)" using Inr by (cases rm) auto
      obtain r3 h3 where a: "attach_device k rs m h2 = (r3, h3)" by (cases "attach_device k rs m h2")
      from env_only_attach [OF a] obtain e3 where h3: "h3 = h2\<lparr>ho_env := e3\<rparr>" by blast
      show ?thesis
      proof (cases r3)
        case (Inl e)
        with assms(1) \<open>parse_config args = Inr configs\<close> o \<open>r1 = Inr u\<close> p rm a undo [of h3] show ?thesis
          by (auto simp: start_daemon_def h3)
      next
        case (Inr t)
        obtain ses args' entries where t: "t = (ses, args', entries)" by (cases t) auto
        let ?dm = "\<lparr>dm_hives = hives, dm_world = new_handler (map (hive_of h3) hives) (ho_env h3), dm_session = ses,
            dm_registration = (args', entries)\<rparr>"
        have "start_daemon k num_cpu names rand me args h = (Inr ?dm, h3)"
          using \<open>parse_config args = Inr configs\<close> o \<open>r1 = Inr u\<close> p rm a Inr t by (simp add: start_daemon_def)
        from trans [OF assms(1) [symmetric] this] have res: "res = Inr ?dm" "h' = h3" by (blast dest: Pair_inject)+
        have fok: "files_ok h3" using ok(1) by (simp add: files_ok_def h3)
        have "sequences_below m h3 hives" using regs [OF rm] ok(2) by (simp add: sequences_below_def h3)
        moreover have "ho_lock h3 = Some me" using adv(2) runtime \<open>r1 = Inr u\<close> by (simp add: h3)
        ultimately have "started k me args ?dm h3"
          using regs [OF rm] env_only_attach [OF a] daemon_init_hives [OF fok] Inr t \<open>parse_config args = Inr configs\<close>
          unfolding started_def by auto
        with res fok conns runtime \<open>r1 = Inr u\<close> show ?thesis by (simp add: h3 files_kept_def)
      qed
    qed
  qed
qed

text \<open>C12: a start either fails and leaves nothing behind (every connection it opened is closed,
  the runtime lock is as before, every file can be opened again), or it serves an initial
  state of the daemon: the hives of the command line, in order, under the lock, with the
  registration of exactly these hives and a sequence above every one they store.\<close>

theorem start_all_or_nothing:
  assumes "start_daemon k num_cpu names rand me args h = (res, h')"
    and "files_ok h" and "small_sequences h" and "\<And>n. length (rand n) = 16"
  shows "files_ok h' \<and>
    (case res of
       Inl _ \<Rightarrow> mset (ho_conns h') = mset (ho_conns h) \<and> ho_lock h' = ho_lock h
     | Inr dm \<Rightarrow> started k me args dm h' \<and> mset (ho_conns h') = mset (ho_conns h) + sum_list (map hive_conns (dm_hives dm)))"
  by (rule start_outcome [OF assms])

text \<open>C30: a second daemon does not get past the runtime lock: it fails, the lock stays with its
  holder, and no entry of the runtime directory (the volatile stores of the first), no file
  and no connection is touched.\<close>

theorem second_daemon_refused:
  assumes "ho_lock h = Some other"
  shows "\<exists>e h'. open_runtime_store me protection h = (Inl e, h') \<and> ho_lock h' = Some other \<and>
    set (ho_entries h) \<subseteq> set (ho_entries h') \<and> ho_files h' = ho_files h \<and> ho_conns h' = ho_conns h"
proof -
  obtain res h' where o: "open_runtime_store me protection h = (res, h')" by (cases "open_runtime_store me protection h")
  from open_runtime_outcome [OF o] o assms show ?thesis by (cases res) (auto simp: files_kept_def)
qed

text \<open>C31: a daemon that holds the lock starts from a runtime directory without residue: no
  volatile store of an earlier process is left to be opened.\<close>

theorem no_residue:
  assumes "open_runtime_store me protection h = (Inr u, h')"
  shows "ho_lock h = None \<and> ho_lock h' = Some me \<and> set (ho_entries h') \<subseteq> {lock_name}"
  using open_runtime_outcome [OF assms] by simp

section \<open>A start\<close>

definition boot_host :: host where
  "boot_host = \<lparr>ho_env = boot_env, ho_files = [], ho_tmpfs = True, ho_entries = [], ho_lock = None, ho_conns = []\<rparr>"

definition boot_kernel :: kernel where
  "boot_kernel = \<lparr>kn_negotiate = (\<lambda>a. Inr (a\<lparr>na_session := 5\<rparr>)), kn_name_addr = (\<lambda>_. 4096), kn_entries_addr = 8192\<rparr>"

definition boot_config :: hive_config where
  "boot_config = \<lparr>hc_name = [77], hc_path = [47, 109]\<rparr>"

lemma boot_calls:
  assumes "ho_env h = boot_env"
  shows "os_call h = (Inr (), h)" "open_conn path vol h = (Inr (), add_conn path vol h)"
proof -
  have os: "os_call h = (Inr (), h)" if "ho_env h = boot_env" for h
    using that by (simp add: os_call_def next_event_def boot_env_def quiet_def)
  have call: "conn_call connection_open_timeout h = (Inr False, h)" if "ho_env h = boot_env" for h
    using that by (simp add: conn_call_def next_event_def boot_env_def quiet_def connection_open_timeout_def)
  from assms show "os_call h = (Inr (), h)" by (rule os)
  show "open_conn path vol h = (Inr (), add_conn path vol h)"
  proof -
    have "\<not> connection_open_timeout \<le> 0" "env_now (ho_env h) = 0" by (simp_all add: assms boot_env_def connection_open_timeout_def)
    then show ?thesis
      using assms os [OF assms] by (simp add: open_conn_def connect_def and_then_def call add_conn_def enable_wal_def ok_def)
  qed
qed

lemma boot_pool_size: "nat (read_pool_size 1) = Suc 0"
  by (simp add: read_pool_size_def max_read_connections_def Let_def)

lemma boot_pool: "ho_env h = boot_env \<Longrightarrow> open_read_pool 1 path vol h = (Inr (), add_conn path vol h)"
  by (simp add: open_read_pool_def boot_pool_size boot_calls)

lemma boot_sequence: "\<exists>m. max_sequence (boot_env, f) = (Inr m, boot_env, f)"
  by (simp add: max_sequence_def and_then_def bg_query_row_def background_def next_event_def boot_env_def quiet_def Let_def ok_def
      split: option.split)

lemma boot_parse: "parse_config [render_hive boot_config] = Inr [boot_config]"
  by code_simp

lemma boot_start:
  "\<exists>dm h'. start_daemon boot_kernel 1 (\<lambda>_. [104]) (\<lambda>_. boot_guid) 1 [render_hive boot_config] boot_host = (Inr dm, h')"
proof -
  obtain f where f: "initialize_hive [77] boot_guid (boot_env, empty_file) = (Inr boot_guid, boot_env, f)"
    using boot_new by blast
  let ?h1 = "boot_host\<lparr>ho_entries := [lock_name], ho_lock := Some 1\<rparr>"
  have runtime: "open_runtime_store 1 Native_Protection boot_host = (Inr (), ?h1)"
    by (simp add: open_runtime_store_def protect_runtime_directory_def acquire_runtime_lock_def cleanup_runtime_residue_def
        and_then_def ok_def boot_calls boot_host_def)
  let ?files = "[([47, 109], f)]"
  let ?h2 = "boot_host\<lparr>ho_entries := [[104], lock_name], ho_lock := Some 1, ho_files := ?files,
      ho_conns := [([47, 109], [104]), ([47, 109], [104])]\<rparr>"
  let ?hive = "\<lparr>oh_name = [77], oh_root_guid = boot_guid, oh_path = [47, 109], oh_volatile = [104], oh_readers = 1\<rparr>"
  have hive: "open_in 1 (\<lambda>_. [104]) boot_guid boot_config ?h1 = (Inr ?hive, ?h2)"
    by (simp add: open_in_def open_hive_files_def and_then_def boot_calls boot_pool boot_pool_size boot_config_def boot_host_def add_conn_def
        on_file_def file_at_def f Let_def)
  obtain m where "max_sequence (boot_env, f) = (Inr m, boot_env, f)" using boot_sequence by blast
  then have seq: "on_file [47, 109] max_sequence ?h2 = (Inr m, ?h2)" by (simp add: on_file_def file_at_def boot_host_def)
  have hives: "\<exists>regs m. open_hives 1 (\<lambda>_. [104]) (\<lambda>_. boot_guid) [boot_config] [] [] 0 ?h1 = (([?hive], Inr (regs, m)), ?h2) \<and> regs \<noteq> []"
    using hive seq by (simp add: Let_def)
  have "\<exists>t. attach_device boot_kernel regs m ?h2 = (Inr t, ?h2)" if "regs \<noteq> []" for regs m
    using that by (simp add: attach_device_def and_then_def boot_calls boot_host_def boot_kernel_def negotiate_def register_hives_def ok_def)
  with hives obtain regs m t where "open_hives 1 (\<lambda>_. [104]) (\<lambda>_. boot_guid) [boot_config] [] [] 0 ?h1 = (([?hive], Inr (regs, m)), ?h2)"
    "attach_device boot_kernel regs m ?h2 = (Inr t, ?h2)" by blast
  then show ?thesis using boot_parse runtime by (cases t) (simp add: start_daemon_def del: open_hives.simps)
qed

lemma boot_host_ok: "files_ok boot_host" "small_sequences boot_host"
proof -
  have absent: "file_at p boot_host = empty_file" for p by (simp add: file_at_def boot_host_def)
  show "files_ok boot_host" "small_sequences boot_host"
    by (simp_all add: files_ok_def small_sequences_def absent) (simp add: all_sequences_def empty_file_def empty_db_def empty_schema_def)
qed

theorem start_all_or_nothing_witness:
  "\<exists>dm h'. start_daemon boot_kernel 1 (\<lambda>_. [104]) (\<lambda>_. boot_guid) 1 [render_hive boot_config] boot_host = (Inr dm, h') \<and>
     started boot_kernel 1 [render_hive boot_config] dm h' \<and> files_ok h'"
proof -
  obtain dm h' where run: "start_daemon boot_kernel 1 (\<lambda>_. [104]) (\<lambda>_. boot_guid) 1 [render_hive boot_config] boot_host = (Inr dm, h')"
    using boot_start by blast
  from start_all_or_nothing [OF run boot_host_ok] run show ?thesis by (auto simp: boot_guid_def)
qed

theorem second_daemon_refused_witness:
  "\<exists>e h'. open_runtime_store 2 Native_Protection (boot_host\<lparr>ho_lock := Some 1, ho_entries := [[104]]\<rparr>) = (Inl e, h') \<and>
     [104] \<in> set (ho_entries h')"
  using second_daemon_refused [of "boot_host\<lparr>ho_lock := Some 1, ho_entries := [[104]]\<rparr>" 1 2 Native_Protection] by auto

theorem no_residue_witness:
  "\<exists>h'. open_runtime_store 1 Posix_Only_Protection (boot_host\<lparr>ho_entries := [[104]]\<rparr>) = (Inr (), h') \<and> set (ho_entries h') \<subseteq> {lock_name}"
proof -
  have "lock_name \<noteq> [104]" by code_simp
  then have "\<exists>h'. open_runtime_store 1 Posix_Only_Protection (boot_host\<lparr>ho_entries := [[104]]\<rparr>) = (Inr (), h')"
    by (simp add: open_runtime_store_def acquire_runtime_lock_def cleanup_runtime_residue_def and_then_def ok_def remove_all_def
        boot_calls boot_host_def List.insert_def)
  then obtain h' where run: "open_runtime_store 1 Posix_Only_Protection (boot_host\<lparr>ho_entries := [[104]]\<rparr>) = (Inr (), h')" by blast
  from no_residue [OF run] run show ?thesis by simp
qed

section \<open>Shutdown\<close>

lemma close_txns_empty: "w_txns (close_txns w) = []"
proof -
  have "find_txn i (close_txns w) = None" for i
  proof (cases "i \<in> set (map fst (w_txns w))")
    case True
    then show ?thesis unfolding close_txns_def by (rule foldl_abort_gone)
  next
    case False
    have "lease_turn w (close_txns w)" unfolding close_txns_def by (intro lease_turn_foldl lease_turn_abort)
    then show ?thesis by (rule lease_turn_gone) (use False in \<open>simp add: find_txn_def map_of_eq_None_iff\<close>)
  qed
  then have "\<forall>i. i \<notin> fst ` set (w_txns (close_txns w))" by (simp add: find_txn_def map_of_eq_None_iff)
  then show ?thesis by (cases "w_txns (close_txns w)") auto
qed



end
