(* ===== verification/Writes.thy ===== *)
theory Writes
  imports Daemon
begin

unbundle bit_operations_syntax

text \<open>
  What the answer to a writing request says about the data.  \<open>seen i h w\<close> is the database of
  hive \<open>h\<close> as a request of transaction \<open>i\<close> finds it: its working copy or snapshot when it holds
  one, the committed state otherwise.  \<open>answers\<close> says that a request ended in one of the
  outcomes \<open>Q\<close> of its action on one hive, or was refused and changed nothing; the rules below
  carry it through the shell every handler has, whatever the environment does.
\<close>

section \<open>What a request sees\<close>

definition seen :: "u64 \<Rightarrow> bytes \<Rightarrow> world \<Rightarrow> db" where
  "seen i h w =
     (case find_txn i w of
        None \<Rightarrow> hive_db h w
      | Some info \<Rightarrow>
          if i \<noteq> 0 \<and> ti_hive info = Some h then (case ti_conn info of Some d \<Rightarrow> d | None \<Rightarrow> hive_db h w)
          else hive_db h w)"

text \<open>A transaction whose connection an expired request has rolled back: it can only be aborted.\<close>

definition poisoned :: "u64 \<Rightarrow> world \<Rightarrow> bool" where
  "poisoned i w \<longleftrightarrow> i \<noteq> 0 \<and> (\<exists>info. find_txn i w = Some info \<and> ti_failed info \<and> ti_conn info = None)"

definition unchanged :: "u64 \<Rightarrow> world \<Rightarrow> world \<Rightarrow> bool" where
  "unchanged i w w' \<longleftrightarrow> hives_kept w w' \<and> (poisoned i w' \<or> (\<forall>h. seen i h w' = seen i h w))"

text \<open>The view of hive \<open>h\<close> is now \<open>d\<close>, and no other data has changed.\<close>

definition rewrote :: "u64 \<Rightarrow> bytes \<Rightarrow> db \<Rightarrow> world \<Rightarrow> world \<Rightarrow> bool" where
  "rewrote i h d w w' \<longleftrightarrow>
     seen i h w' = d \<and> (\<forall>k. k \<noteq> h \<longrightarrow> seen i k w' = seen i k w \<and> hive_db k w' = hive_db k w) \<and>
     (i \<noteq> 0 \<longrightarrow> hive_db h w' = hive_db h w)"

text \<open>The served hives with their root GUIDs.\<close>

definition roots :: "world \<Rightarrow> (bytes \<times> guid) list" where
  "roots w = map (\<lambda>(h, hv). (h, hv_root_guid hv)) (w_hives w)"

text \<open>Bookkeeping: the data is kept, unless the transaction is poisoned.\<close>

definition data_kept :: "u64 \<Rightarrow> world \<Rightarrow> world \<Rightarrow> bool" where
  "data_kept i w w' \<longleftrightarrow>
     hives_kept w w' \<and> (\<forall>h. find_hive h w' = None \<longleftrightarrow> find_hive h w = None) \<and> roots w' = roots w \<and>
     (poisoned i w \<longrightarrow> poisoned i w') \<and> (poisoned i w' \<or> (\<forall>h. seen i h w' = seen i h w))"

definition gentle :: "u64 \<Rightarrow> world \<Rightarrow> world \<Rightarrow> bool" where
  "gentle i w w' \<longleftrightarrow> keeps_inv w w' \<and> data_kept i w w'"

lemma gentleD: "gentle i w w' \<Longrightarrow> data_kept i w w'" "gentle i w w' \<Longrightarrow> world_inv w \<Longrightarrow> world_inv w'"
  by (simp_all add: gentle_def keeps_inv_def)

lemma gentle_trans: "gentle i w w' \<Longrightarrow> gentle i w' w'' \<Longrightarrow> gentle i w w''"
  by (auto simp: gentle_def keeps_inv_def data_kept_def hives_kept_def)

lemma seen_env: "env_step w w' \<Longrightarrow> seen i h w' = seen i h w \<and> poisoned i w' = poisoned i w"
  by (simp add: seen_def poisoned_def env_step_sees split: option.split)

lemma roots_updates [world_simps]:
  "roots (put_txn j info w) = roots w" "roots (cache_store g k w) = roots w" "roots (cache_delete g w) = roots w"
  by (simp_all add: roots_def put_txn_def cache_store_def cache_delete_def)

lemma gentle_env: "env_step w w' \<Longrightarrow> gentle i w w'"
  by (simp add: gentle_def data_kept_def roots_def seen_env hives_kept_def env_step_sees inv.env)

lemma gentle_refl [simp]: "gentle i w w"
  by (rule gentle_env) simp

lemma gentle_unchanged: "gentle i w w' \<Longrightarrow> unchanged i w w'"
  by (simp add: gentle_def data_kept_def unchanged_def)

lemma gentle_served: "gentle i w w' \<Longrightarrow> world_inv w \<Longrightarrow> known h w' \<Longrightarrow> find_hive h w \<noteq> None"
proof -
  assume g: "gentle i w w'" and "world_inv w" and known: "known h w'"
  then have "world_inv w'" using gentleD(2) by blast
  with known have "find_hive h w' \<noteq> None" by (auto simp: known_def world_inv_def coherent_def)
  with gentleD(1) [OF g] show ?thesis by (simp add: data_kept_def)
qed

lemma seen_put:
  "seen i h (put_txn j info w) =
     (if i = j then (if i \<noteq> 0 \<and> ti_hive info = Some h then (case ti_conn info of Some d \<Rightarrow> d | None \<Rightarrow> hive_db h w) else hive_db h w)
      else seen i h w)"
  by (simp add: seen_def world_simps split: option.split)

lemma poisoned_put: "poisoned i (put_txn j info w) = (if i = j then i \<noteq> 0 \<and> ti_failed info \<and> ti_conn info = None else poisoned i w)"
  by (simp add: poisoned_def world_simps)

lemma poisoned_zero [simp]: "\<not> poisoned 0 w"
  by (simp add: poisoned_def)

lemma seen_cache [world_simps]:
  "seen i h (cache_store g k w) = seen i h w" "seen i h (cache_delete g w) = seen i h w"
  "poisoned i (cache_store g k w) = poisoned i w" "poisoned i (cache_delete g w) = poisoned i w"
  by (simp_all add: seen_def poisoned_def world_simps split: option.split)

lemma data_kept_put:
  assumes "find_txn i w = Some info" and "ti_hive info' = ti_hive info" "ti_conn info' = ti_conn info" "ti_failed info' = ti_failed info"
  shows "data_kept i w (put_txn i info' w)"
  using assms by (auto simp: data_kept_def hives_kept_def world_simps seen_put poisoned_put seen_def poisoned_def split: option.split)

lemma data_kept_bind:
  assumes "find_txn i w = Some info" and "ti_conn info = None" "\<not> ti_failed info"
    and "ti_hive info' = Some h" "ti_conn info' = Some (hive_db h w)"
  shows "data_kept i w (put_txn i info' w)"
  using assms by (auto simp: data_kept_def hives_kept_def world_simps seen_put poisoned_put seen_def poisoned_def split: option.split)

lemma data_kept_interrupt:
  assumes "find_txn i w = Some info"
  shows "data_kept i w (put_txn i (info\<lparr>ti_conn := None, ti_snapshot_db := False, ti_failed := True\<rparr>) w)"
  using assms by (cases "i = 0") (auto simp: data_kept_def hives_kept_def world_simps seen_put poisoned_put seen_def)

interpretation gentle: bind_effects "gentle i" i for i
proof unfold_locales
  fix w h g assume "known h w"
  then show "gentle i w (cache_store g h w)"
    using inv.cached [of h w g] by (simp add: gentle_def data_kept_def hives_kept_def world_simps)
qed (auto simp: gentle_def [of _ _ "put_txn _ _ _"]
    intro: gentle_trans gentle_env data_kept_put data_kept_bind data_kept_interrupt inv.expire inv.binding inv.interrupt inv.snapshot inv.bind)

lemma writable_sound: "writable i q h w \<Longrightarrow> \<not> poisoned i w \<and> view q w = seen i h w"
  by (auto simp: writable_def poisoned_def seen_def view_def mutation_allowed_def split: querier.splits option.splits)

section \<open>Writing the view\<close>

lemma writable_rewrote:
  assumes "writable i q h w" and "find_hive h w \<noteq> None"
  shows "rewrote i h d w (put_view q d w)"
proof (cases q)
  case (Pinned j)
  with assms show ?thesis
    by (auto simp: writable_def rewrote_def put_view_def seen_put world_simps) (auto simp: seen_def split: option.splits)
qed (use assms in \<open>auto simp: writable_def rewrote_def put_view_def seen_def world_simps split: option.splits\<close>)

lemma rewrote_after: "gentle i w v \<Longrightarrow> \<not> poisoned i v \<Longrightarrow> rewrote i h d v v' \<Longrightarrow> rewrote i h d w v'"
  by (auto simp: gentle_def data_kept_def hives_kept_def rewrote_def)

lemma rewrote_then:
  assumes "rewrote i h d w v" and "gentle i v v'"
  shows "if poisoned i v' then unchanged i w v' else rewrote i h d w v'"
proof (cases "poisoned i v'")
  case True
  with assms have "hive_db k v' = hive_db k w" for k
    by (cases "k = h") (simp_all add: gentle_def data_kept_def hives_kept_def rewrote_def poisoned_def)
  with True show ?thesis by (simp add: unchanged_def hives_kept_def)
qed (use assms in \<open>simp add: gentle_def data_kept_def hives_kept_def rewrote_def\<close>)

lemma rewrote_same: "rewrote i h (seen i h w) w w' \<Longrightarrow> unchanged i w w'"
proof -
  assume r: "rewrote i h (seen i h w) w w'"
  have "hive_db k w' = hive_db k w \<and> seen i k w' = seen i k w" for k
    using r by (cases "k = h"; cases "i = 0") (auto simp: rewrote_def seen_def split: option.splits)
  then show ?thesis by (simp add: unchanged_def hives_kept_def)
qed

lemma rewrote_updates:
  "rewrote i h d w v \<Longrightarrow> rewrote i h d w (cache_store g k v)"
  "rewrote i h d w v \<Longrightarrow> rewrote i h d w (cache_delete g v)"
  "rewrote i h d w v \<Longrightarrow> env_step v v' \<Longrightarrow> rewrote i h d w v'"
  "rewrote i h d w v \<Longrightarrow> rewrote i h d w (add_abort_hook i g v)"
  "rewrote i h d w v \<Longrightarrow> rewrote i h d w (add_commit_hook i g v)"
proof -
  have hook: "seen i k (add_abort_hook i g v) = seen i k v" "seen i k (add_commit_hook i g v) = seen i k v"
    "hive_db k (add_abort_hook i g v) = hive_db k v" "hive_db k (add_commit_hook i g v) = hive_db k v" for k
    by (auto simp: add_abort_hook_def add_commit_hook_def seen_put world_simps split: option.split) (simp_all add: seen_def)
  show "rewrote i h d w v \<Longrightarrow> rewrote i h d w (add_abort_hook i g v)"
    "rewrote i h d w v \<Longrightarrow> rewrote i h d w (add_commit_hook i g v)"
    by (simp_all add: rewrote_def hook)
qed (simp_all add: rewrote_def world_simps seen_env env_step_sees)

section \<open>Answers\<close>

definition refusal :: "u32 \<Rightarrow> bool" where
  "refusal st \<longleftrightarrow> st = status_invalid \<or> storage_failure st"

lemma refusal_statuses [simp]:
  "refusal status_invalid" "refusal (storage_status e)" "refusal (map_write_err e)" "refusal status_storage_error"
  "refusal status_txn_busy"
  using storage_failure_status [of e] by (auto simp: refusal_def map_write_err_def storage_failure_def)

lemma refusal_not_ok: "refusal st \<Longrightarrow> st \<noteq> status_ok"
  by (auto simp: refusal_def storage_failure_def status_defs)

text \<open>No served hive has the key.\<close>

definition absent :: "guid \<Rightarrow> u64 \<Rightarrow> world \<Rightarrow> bool" where
  "absent g i w \<longleftrightarrow> (\<forall>h. find_hive h w \<noteq> None \<longrightarrow> \<not> key_taken g (seen i h w))"

text \<open>
  The served hive a key is looked for in: the cache names it or it has the key; a new key may
  also name the root of the hive as its parent.
\<close>

definition routed :: "guid \<Rightarrow> u64 \<Rightarrow> bytes \<Rightarrow> world \<Rightarrow> bool" where
  "routed g i h w \<longleftrightarrow> find_hive h w \<noteq> None \<and> (w_cache w g = Some h \<or> key_taken g (seen i h w))"

definition owned :: "guid \<Rightarrow> u64 \<Rightarrow> bytes \<Rightarrow> world \<Rightarrow> bool" where
  "owned g i h w \<longleftrightarrow> routed g i h w \<or> find_hive h w \<noteq> None \<and> (h, g) \<in> set (roots w)"

lemma owned_served: "owned g i h w \<Longrightarrow> find_hive h w \<noteq> None"
  by (auto simp: owned_def routed_def)

lemma routed_owned: "routed g i h w \<Longrightarrow> owned g i h w"
  by (simp add: owned_def)

definition answers ::
  "u64 \<Rightarrow> ('r \<times> decoder) option \<Rightarrow> ('r \<Rightarrow> guid) \<Rightarrow> ('r \<Rightarrow> db \<Rightarrow> u32 \<Rightarrow> db \<Rightarrow> bool) \<Rightarrow> world \<Rightarrow> u32 \<Rightarrow> world \<Rightarrow> bool" where
  "answers i dec g Q w st w' \<longleftrightarrow>
     (\<exists>req d h d'. dec = Some (req, d) \<and> owned (g req) i h w \<and> Q req (seen i h w) st d' \<and> rewrote i h d' w w') \<or>
     unchanged i w w' \<and> (refusal st \<or> st = status_not_found \<and> (\<exists>req d. dec = Some (req, d) \<and> absent (g req) i w))"

text \<open>An outcome that does not tell the two storage failures apart.\<close>

definition storage_blind :: "('r \<Rightarrow> db \<Rightarrow> u32 \<Rightarrow> db \<Rightarrow> bool) \<Rightarrow> bool" where
  "storage_blind Q \<longleftrightarrow> (\<forall>req d d'. Q req d status_storage_error d' \<longrightarrow> Q req d status_txn_busy d')"

lemma finish_cases:
  assumes "finish_request r st v = (st', v')" and "rq_txn r = i"
  shows "gentle i v v' \<and>
    (st' = st \<and> env_step v v' \<or> st = status_storage_error \<and> st' = status_txn_busy \<and> env_step v v' \<or>
     st \<noteq> status_ok \<and> st' = status_storage_error \<and> poisoned i v')"
proof -
  have "gentle i v v'" using gentle.finished [of r i v st] assms by simp
  moreover have "env_step v (snd (elapse v))" by (rule env_step_elapse)
  ultimately show ?thesis
    using assms
    by (auto simp: finish_request_def Let_def fail_interrupted_def poisoned_put split: if_splits prod.splits bool.splits option.splits)
qed

lemma finish_answers:
  assumes "answers i dec g Q w st v" and "finish_request r st v = (st', v')" and "rq_txn r = i" and "storage_blind Q"
  shows "answers i dec g Q w st' v'"
proof -
  note fin = finish_cases [OF assms(2,3)]
  have same: "unchanged i w v \<Longrightarrow> unchanged i w v'"
    using fin by (auto simp: unchanged_def gentle_def data_kept_def hives_kept_def)
  from assms(1) [unfolded answers_def] show ?thesis
  proof
    assume u: "unchanged i w v \<and> (refusal st \<or> st = status_not_found \<and> (\<exists>req d. dec = Some (req, d) \<and> absent (g req) i w))"
    then have "refusal st' \<or> st' = status_not_found \<and> (\<exists>req d. dec = Some (req, d) \<and> absent (g req) i w)"
      using fin by auto
    with same u show ?thesis by (auto simp: answers_def)
  next
    assume "\<exists>req d h d'. dec = Some (req, d) \<and> owned (g req) i h w \<and> Q req (seen i h w) st d' \<and> rewrote i h d' w v"
    then obtain req d h d' where out: "dec = Some (req, d)" "owned (g req) i h w" "Q req (seen i h w) st d'" "rewrote i h d' w v"
      by blast
    from fin rewrote_then [OF out(4)] have "rewrote i h d' w v' \<and> (st' = st \<or> st = status_storage_error \<and> st' = status_txn_busy) \<or>
        unchanged i w v' \<and> st' = status_storage_error"
      using rewrote_updates(3) [OF out(4), of v'] by (auto split: if_splits)
    with out assms(4) show ?thesis
      unfolding answers_def storage_blind_def by (metis refusal_statuses(4))
  qed
qed

lemma start_kept:
  assumes "start_request header w = (res, v)"
  shows "\<exists>w1. env_step w w1 \<and> kept_by (txnID header) w1 v"
proof (intro exI conjI)
  define w1 where "w1 = (if session header \<noteq> 0 then snd (elapse w) else w)"
  show "env_step w w1" by (simp add: w1_def env_step_elapse)
  have "kept_by (txnID header) w1 (snd (lock_operation_mode (Some dl) (txnID header) Normal_Operation w1))" for dl
    by (rule lock_operation_kept)
  then show "kept_by (txnID header) w1 v"
    using assms kept_by_refl [of "txnID header" w1] unfolding start_request_def Let_def w1_def [symmetric]
    by (auto split: if_splits sum.splits prod.splits) (metis snd_conv)+
qed

lemma start_seen:
  assumes "start_request header w = (res, v)"
  shows "seen (txnID header) h v = seen (txnID header) h w" and "w_cache v g = Some k \<Longrightarrow> w_cache w g = Some k"
proof -
  from start_kept [OF assms] obtain w1 where e: "env_step w w1" and k: "kept_by (txnID header) w1 v" by blast
  then have "seen (txnID header) h v = seen (txnID header) h w1"
    by (auto simp: kept_by_def hives_kept_def entry_kept_def seen_def split: option.split)
  with seen_env [OF e] show "seen (txnID header) h v = seen (txnID header) h w" by simp
  show "w_cache v g = Some k \<Longrightarrow> w_cache w g = Some k"
    using k env_step_sees(4) [OF e] by (simp add: kept_by_def registry_kept_def)
qed

text \<open>Starting a request changes nothing it sees and caches no GUID.\<close>

definition begun :: "u64 \<Rightarrow> world \<Rightarrow> world \<Rightarrow> bool" where
  "begun i w v \<longleftrightarrow> (\<forall>h. seen i h v = seen i h w) \<and> (\<forall>g h. w_cache v g = Some h \<longrightarrow> w_cache w g = Some h)"

lemma start_begun: "start_request header w = (res, v) \<Longrightarrow> begun (txnID header) w v"
  using start_seen by (auto simp: begun_def)

lemma begun_absent: "begun i w v \<Longrightarrow> gentle i w v \<Longrightarrow> absent g i v \<Longrightarrow> absent g i w"
  using gentleD(1) [of i w v] unfolding begun_def absent_def data_kept_def by metis

text \<open>A statement about the answer that holds of every refusal and of every way to finish.\<close>

lemma request_rule:
  assumes "with_request header body w = ((st, resp), w')" and "txnID header = i"
    and "\<And>e v. gentle i w v \<Longrightarrow> A (map_write_err e) v"
    and "\<And>r v. rq_txn r = i \<Longrightarrow> gentle i w v \<Longrightarrow> begun i w v \<Longrightarrow> A (fst (fst (body r v))) (snd (body r v))"
    and "\<And>r st v st' v'. A st v \<Longrightarrow> finish_request r st v = (st', v') \<Longrightarrow> rq_txn r = i \<Longrightarrow> A st' v'"
  shows "A st w'"
proof -
  obtain res v where s: "start_request header w = (res, v)" by (cases "start_request header w")
  have g: "gentle i w v" using gentle.started [of header i w] assms(2) s by simp
  show ?thesis
  proof (cases res)
    case (Inl e)
    with assms(1) s have "st = map_write_err e" "w' = v" by (simp_all add: with_request_def)
    with assms(3) [OF g] show ?thesis by simp
  next
    case (Inr r)
    have r: "rq_txn r = i" using s Inr start_request_txn assms(2) by simp
    obtain st1 resp1 v1 where b: "body r v = ((st1, resp1), v1)" by (metis surj_pair)
    obtain st2 v2 where f: "finish_request r st1 v1 = (st2, v2)" by (cases "finish_request r st1 v1")
    have "begun i w v" using start_begun [OF s] assms(2) by simp
    from assms(4) [OF r g this] b have "A st1 v1" by simp
    from assms(5) [OF this f r] show ?thesis
      using assms(1) s Inr b f by (simp add: with_request_def)
  qed
qed

lemma request_answers:
  assumes "with_request header body w = ((st, resp), w')" and "txnID header = i" and "storage_blind Q"
    and "\<And>r v. rq_txn r = i \<Longrightarrow> gentle i w v \<Longrightarrow> begun i w v \<Longrightarrow>
      answers i dec g Q w (fst (fst (body r v))) (snd (body r v))"
  shows "answers i dec g Q w st w'"
proof (rule request_rule [OF assms(1,2), where A = "answers i dec g Q w"])
  show "answers i dec g Q w (map_write_err e) v" if "gentle i w v" for e v
    using that by (simp add: answers_def gentle_unchanged)
qed (fact assms(4), rule finish_answers [OF _ _ _ assms(3)])

lemma refusal_answers: "gentle i w v \<Longrightarrow> refusal st \<Longrightarrow> answers i dec g Q w st v"
  by (simp add: answers_def gentle_unchanged)

lemma refused: "gentle i w v \<Longrightarrow> refusal st \<Longrightarrow> answers i dec g Q w (fst (fst (answer st v))) (snd (answer st v))"
  by (simp add: answers_def answer_def gentle_unchanged)

lemma decoded_answers:
  assumes "gentle i w v" and "\<And>req d. dec = Some (req, d) \<Longrightarrow> answers i dec g Q w (fst (fst (k req v))) (snd (k req v))"
  shows "answers i dec g Q w (fst (fst (decoded dec k v))) (snd (decoded dec k v))"
  using assms refused [OF assms(1), of status_invalid] by (auto simp: decoded_def split: option.split)

lemma checked_answers:
  "gentle i w v \<Longrightarrow> refusal st \<Longrightarrow> answers i dec g Q w (fst (fst (k v))) (snd (k v)) \<Longrightarrow>
   answers i dec g Q w (fst (fst ((if c then answer st else k) v))) (snd ((if c then answer st else k) v))"
  by (cases c) (auto intro: refused)

lemma bound_view:
  assumes "world_inv v"
  shows "view (if bound_querier i h v then Pinned i else Pool h) v = seen i h v"
proof (cases "find_txn i v")
  case (Some info)
  have "i = 0 \<Longrightarrow> ti_conn info = None" using assms Some by (auto simp: world_inv_def)
  moreover have "\<not> (ti_failed info \<and> ti_conn info \<noteq> None)" using world_inv_info [OF assms Some] by (auto simp: info_ok_def split: option.splits)
  ultimately show ?thesis using Some by (auto simp: bound_querier_def view_def seen_def split: option.split)
qed (simp add: bound_querier_def view_def seen_def)

text \<open>The loop over the hives finds a hive that has the key, or none only if none has it.\<close>

definition located :: "guid \<Rightarrow> u64 \<Rightarrow> world \<Rightarrow> bytes list \<Rightarrow> bytes option \<Rightarrow> bool" where
  "located g i w hs found \<longleftrightarrow>
     (case found of None \<Rightarrow> \<forall>h \<in> set hs. \<not> key_taken g (seen i h w) | Some h \<Rightarrow> key_taken g (seen i h w))"

lemma resolve_loop_located:
  assumes "resolve_loop r g hs w = (Inr found, w')" and "world_inv w"
  shows "located g (rq_txn r) w hs found"
  using assms
proof (induction hs arbitrary: w)
  case (Cons k hs)
  obtain res1 w1 where a: "gate_acquire (rq_deadline r) w = (res1, w1)" by (cases "gate_acquire (rq_deadline r) w")
  let ?q = "if bound_querier (rq_txn r) k w1 then Pinned (rq_txn r) else Pool k"
  let ?m = "sql_query_row (rq_deadline r) (\<lambda>d. keys_with_guid Main g d @ keys_with_guid Volatile g d)"
  obtain res2 w2 where b: "run_on ?q ?m w1 = (res2, w2)" by (cases "run_on ?q ?m w1")
  have e1: "env_step w w1" using env_step_calls(1) [of w "rq_deadline r"] a by simp
  have e2: "env_step w w2" using env_step_trans [OF e1] run_on_pure [OF pure_query_row, of w1 ?q] b by (metis snd_conv)
  have inv: "world_inv w1" "world_inv w2" using gentleD(2) [OF gentle_env Cons.prems(2)] e1 e2 by blast+
  have view: "view ?q w1 = seen (rq_txn r) k w" using bound_view [OF inv(1)] seen_env [OF e1] by metis
  have "holds (\<lambda>d. d = view ?q w1) ?m (\<lambda>_ _. key_taken g (view ?q w1)) (\<lambda>e d. e = Err_No_Rows \<longrightarrow> \<not> key_taken g (view ?q w1))"
    by (rule holds_sql_query_row) (auto simp: keys_with_guid_empty key_taken_def dest: keys_with_guid_member)
  from holdsD [OF this HOL.refl, of "w_env w1"] b view
  have probe: "case res2 of Inl e \<Rightarrow> e = Err_No_Rows \<longrightarrow> \<not> key_taken g (seen (rq_txn r) k w) | Inr _ \<Rightarrow> key_taken g (seen (rq_txn r) k w)"
    by (auto simp: run_on_def split: prod.splits sum.splits)
  from Cons.prems(1) a b consider (row) "found = Some k" "\<exists>x. res2 = Inr x"
    | (no_row) "res2 = Inl Err_No_Rows" "resolve_loop r g hs w2 = (Inr found, w')"
    by (auto split: sum.splits if_splits)
  then show ?case
  proof cases
    case no_row
    from Cons.IH [OF no_row(2) inv(2)] seen_env [OF e2] probe no_row(1) show ?thesis
      by (auto simp: located_def split: option.splits)
  qed (use probe in \<open>auto simp: located_def\<close>)
qed (auto simp: located_def)

lemma resolve_hive_located:
  assumes "resolve_hive r g w = (Inr found, w')" and "world_inv w"
  shows "case found of None \<Rightarrow> absent g (rq_txn r) w | Some h \<Rightarrow> w_cache w g = Some h \<or> key_taken g (seen (rq_txn r) h w)"
proof (cases "w_cache w g")
  case None
  obtain ev w1 where ev: "elapse w = (ev, w1)" by (cases "elapse w")
  have e: "env_step w w1" using env_step_elapse [of w] ev by simp
  have "world_inv w1" by (rule gentleD(2) [OF gentle_env [OF e] assms(2)])
  with assms(1) ev None resolve_loop_located [of r g "arrange (ev_order ev) (map fst (w_hives w1))" w1 found w']
  have "located g (rq_txn r) w1 (map fst (w_hives w1)) found" by (auto simp: resolve_hive_def located_def split: option.splits)
  then show ?thesis
    using seen_env [OF e] env_step_sees(5) [OF e] by (auto simp: located_def absent_def find_hive_def map_of_eq_None_iff split: option.splits)
next
  case (Some h)
  with assms(1) have "found = Some h" by (simp add: resolve_hive_def)
  with Some show ?thesis by simp
qed

section \<open>Through the shell of a handler\<close>

abbreviation replies where
  "replies i dec g Q w p \<equiv> answers i dec g Q w (fst (fst p)) (snd p)"

text \<open>A statement that holds of every way \<open>with_hive\<close> can go on.\<close>

lemma hive_rule:
  assumes "world_inv w" and "gentle i w v" and "begun i w v" and "rq_txn r = i"
    and "\<And>e v'. gentle i w v' \<Longrightarrow> A (answer (storage_status e) v')"
    and "\<And>v'. gentle i w v' \<Longrightarrow> absent g i w \<Longrightarrow> A (answer status_not_found v')"
    and "\<And>h v'. gentle i w v' \<Longrightarrow> routed g i h w \<Longrightarrow> A (k h v')"
  shows "A (with_hive r g k v)"
proof -
  obtain res v1 where run: "resolve_hive r g v = (res, v1)" by (cases "resolve_hive r g v")
  have g1: "gentle i w v1" using gentle_trans [OF assms(2) gentle.resolved] run by (metis snd_conv)
  have inv: "world_inv v" by (rule gentleD(2) [OF assms(2,1)])
  consider (err) e where "res = Inl e" | (none) "res = Inr None" | (found) h where "res = Inr (Some h)"
    by (cases res; auto)
  then show ?thesis
  proof cases
    case err
    with run assms(5) [OF g1] show ?thesis by (simp add: with_hive_def resolve_hive_status_def)
  next
    case none
    from resolve_hive_located [of r g v None v1] run none inv assms(4) have "absent g i v" by simp
    from begun_absent [OF assms(3,2) this] none run assms(6) [OF g1] show ?thesis by (simp add: with_hive_def resolve_hive_status_def)
  next
    case found
    have "known h v1" by (rule resolve_hive_known) (use run found in simp)
    with resolve_hive_located [of r g v "Some h" v1] run found inv assms(3,4) have "routed g i h w"
      using gentle_served [OF g1 assms(1)] by (auto simp: routed_def begun_def)
    from assms(7) [OF g1 this] found run show ?thesis by (simp add: with_hive_def resolve_hive_status_def)
  qed
qed

lemma hive_answers:
  assumes "world_inv w" and "gentle i w v" and "begun i w v" and "rq_txn r = i" and "dec = Some (req, d)"
    and "\<And>h v'. gentle i w v' \<Longrightarrow> owned (g req) i h w \<Longrightarrow> replies i dec g Q w (k h v')"
  shows "replies i dec g Q w (with_hive r (g req) k v)"
proof (rule hive_rule [where A = "replies i dec g Q w", OF assms(1-4)])
  show "replies i dec g Q w (answer status_not_found v')" if "gentle i w v'" and "absent (g req) i w" for v'
    using that assms(5) gentle_unchanged by (auto simp: answers_def answer_def)
qed (use assms(6) in \<open>auto intro: refused routed_owned\<close>)

lemma write_answers:
  assumes "gentle i w v" and "rq_txn r = i" and "known h v"
    and "\<And>q v'. gentle i w v' \<Longrightarrow> writable i q h v' \<Longrightarrow> replies i dec g Q w (k q v')"
  shows "replies i dec g Q w (op_case (write_q r h) (\<lambda>e. answer (map_write_err e)) k v)"
proof -
  obtain res v1 where run: "write_q r h v = (res, v1)" by (cases "write_q r h v")
  have g1: "gentle i w v1" using gentle_trans [OF assms(1) gentle.writing [OF assms(3,2)]] run by simp
  show ?thesis
  proof (cases res)
    case (Inl e)
    with run refused [OF g1, of "map_write_err e"] show ?thesis by (simp add: op_case_def)
  next
    case (Inr q)
    with run assms(2,4) write_q_writable [of r h v q v1] g1 show ?thesis by (simp add: op_case_def)
  qed
qed

lemma gentle_known: "gentle i w v \<Longrightarrow> owned g i h w \<Longrightarrow> known h v"
  using gentleD(1) [of i w v] owned_served [of g i h w] by (auto simp: known_def data_kept_def)

lemma gentle_view: "gentle i w v \<Longrightarrow> writable i q h v \<Longrightarrow> view q v = seen i h w"
  using gentleD(1) [of i w v] writable_sound [of i q h v] by (simp add: data_kept_def)

lemma writable_env: "writable i q h v \<Longrightarrow> env_step v v' \<Longrightarrow> writable i q h v'"
  by (simp add: env_step_allowed)

text \<open>A probe leaves the connection writable; its error is an answer of its own.\<close>

lemma probe_answers:
  assumes "pure_act m" and "gentle i w v" and "writable i q h v"
    and "holds (\<lambda>d. d = seen i h w) m (\<lambda>x _. P x) (\<lambda>e _. unchanged i w (snd (run_on q m v)) \<longrightarrow> replies i dec g Q w (answer (s e) (snd (run_on q m v))))"
    and "\<And>x v'. gentle i w v' \<Longrightarrow> writable i q h v' \<Longrightarrow> P x \<Longrightarrow> replies i dec g Q w (k x v')"
  shows "replies i dec g Q w (op_case (run_on q m) (\<lambda>e. answer (s e)) k v)"
proof -
  obtain res v1 where run: "run_on q m v = (res, v1)" by (cases "run_on q m v")
  have e: "env_step v v1" using run_on_pure [OF assms(1), of v q] run by simp
  have g1: "gentle i w v1" by (rule gentle_trans [OF assms(2) gentle_env [OF e]])
  have "fst (m (w_env v, seen i h w)) = res"
    using run gentle_view [OF assms(2,3)] by (auto simp: run_on_def split: prod.splits)
  with holdsD [OF assms(4) HOL.refl, of "w_env v"]
  have "case res of Inl err \<Rightarrow> unchanged i w v1 \<longrightarrow> replies i dec g Q w (answer (s err) v1) | Inr x \<Rightarrow> P x"
    using run by (auto split: prod.splits sum.splits)
  with assms(5) [OF g1 writable_env [OF assms(3) e]] run gentle_unchanged [OF g1] show ?thesis
    by (cases res) (simp_all add: op_case_def)
qed

text \<open>The last action of a handler, run on the connection.\<close>

lemma run_on_rewrote:
  assumes "run_on q m v = (res, v')" and "gentle i w v" and "writable i q h v" and "find_hive h w \<noteq> None"
    and "holds (\<lambda>d. d = seen i h w) m Q E"
  obtains d' where "rewrote i h d' w v'" "case res of Inl e \<Rightarrow> E e d' | Inr x \<Rightarrow> Q x d'"
proof -
  obtain res' e d' where m: "m (w_env v, view q v) = (res', e, d')" by (cases "m (w_env v, view q v)")
  have v: "find_hive h v \<noteq> None" using gentleD(1) [OF assms(2)] assms(4) by (simp add: data_kept_def)
  let ?v = "v\<lparr>w_env := e\<rparr>"
  have e: "env_step v ?v" by simp
  have w: "writable i q h ?v" by (rule writable_env [OF assms(3) e])
  have "rewrote i h d' ?v (put_view q d' ?v)" by (rule writable_rewrote [OF w]) (use v in \<open>simp add: world_simps\<close>)
  then have "rewrote i h d' w (put_view q d' ?v)"
    using rewrote_after [OF gentle_trans [OF assms(2) gentle_env [OF e]]] writable_sound [OF w] by blast
  moreover have "case res' of Inl e \<Rightarrow> E e d' | Inr x \<Rightarrow> Q x d'"
    using holdsD [OF assms(5) HOL.refl, of "w_env v"] m gentle_view [OF assms(2,3)] by (auto split: sum.splits)
  ultimately show ?thesis using that assms(1) m by (simp add: run_on_def)
qed

lemma act_answers:
  assumes "gentle i w v" and "writable i q h v" and "owned (g req) i h w" and "dec = Some (req, d)"
    and "holds (\<lambda>d. d = seen i h w) m (\<lambda>x d'. Q req (seen i h w) (st x) d') (\<lambda>e d'. Q req (seen i h w) (s e) d')"
  shows "replies i dec g Q w (op_case (run_on q m) (\<lambda>e. answer (s e)) (\<lambda>x. answer (st x)) v)"
proof -
  obtain res v1 where run: "run_on q m v = (res, v1)" by (cases "run_on q m v")
  from run_on_rewrote [OF run assms(1,2) owned_served [OF assms(3)] assms(5)] obtain d' where "rewrote i h d' w v1"
    "case res of Inl e \<Rightarrow> Q req (seen i h w) (s e) d' | Inr x \<Rightarrow> Q req (seen i h w) (st x) d'" .
  with run assms(3,4) show ?thesis by (cases res) (auto simp: op_case_def answer_def answers_def)
qed

section \<open>The outcomes of the handlers\<close>

lemma seen_ok: "world_inv w \<Longrightarrow> db_ok (seen i h w)"
  using world_inv_info [of w i] by (force simp: seen_def world_inv_def info_ok_def split: option.splits)

lemma outcome_blind:
  "storage_blind (\<lambda>req d0. create_entry_outcome req d0 (entry_store req d0))"
  "storage_blind write_key_outcome" "storage_blind set_blanket_outcome"
  by (auto simp: storage_blind_def create_entry_outcome_def write_key_outcome_def set_blanket_outcome_def storage_failure_def status_defs)

lemma create_entry_answers:
  assumes "handle_create_entry header payload w = ((st, resp), w')" and "world_inv w" and "txnID header = i"
  shows "answers i (decode_create_entry_request (new_decoder payload)) cer_parent_guid
      (\<lambda>req d0. create_entry_outcome req d0 (entry_store req d0)) w st w'"
proof -
  have ok: "keys_ok (seen i h w)" for h using seen_ok [OF assms(2)] by (simp add: db_ok_def)
  show ?thesis
    by (rule request_answers [OF assms(1) [unfolded handle_create_entry_def] assms(3) outcome_blind(1)],
        rule decoded_answers, assumption, rule hive_answers [OF assms(2)], assumption+,
        rule write_answers, assumption+, rule gentle_known, assumption+,
        rule act_answers, assumption+, rule holds_conseq [OF holds_create_entry [OF ok]]) simp_all
qed

lemma write_key_answers:
  assumes "handle_write_key header payload w = ((st, resp), w')" and "world_inv w" and "txnID header = i"
  shows "answers i (decode_write_key_request (new_decoder payload)) wkr_guid write_key_outcome w st w'"
  by (rule request_answers [OF assms(1) [unfolded handle_write_key_def] assms(3) outcome_blind(2)],
      rule decoded_answers, assumption, rule checked_answers, assumption, simp, rule hive_answers [OF assms(2)], assumption+,
      rule write_answers, assumption+, rule gentle_known, assumption+,
      rule act_answers, assumption+, rule holds_conseq [OF holds_write_key]) simp_all

lemma set_blanket_answers:
  assumes "handle_set_blanket_tombstone header payload w = ((st, resp), w')" and "world_inv w" and "txnID header = i"
  shows "answers i (decode_set_blanket_tombstone_request (new_decoder payload)) sbr_guid set_blanket_outcome w st w'"
  by (rule request_answers [OF assms(1) [unfolded handle_set_blanket_tombstone_def] assms(3) outcome_blind(3)],
      rule decoded_answers, assumption, rule hive_answers [OF assms(2)], assumption+,
      rule write_answers, assumption+, rule gentle_known, assumption+,
      rule act_answers, assumption+, rule holds_conseq [OF holds_set_blanket]) simp_all

section \<open>Local transactions\<close>

text \<open>\<open>local_txn\<close> publishes the complete result of its action, or nothing.\<close>

lemma local_txn_cases:
  assumes "local_txn dl h m v = (res, v')" and "gentle 0 w v" and "find_hive h w \<noteq> None"
    and "holds (\<lambda>d. d = hive_db h w) m Q (\<lambda>_ _. True)"
  shows "case res of Inl e \<Rightarrow> gentle 0 w v' | Inr x \<Rightarrow> \<exists>d'. Q x d' \<and> rewrote 0 h d' w v'"
proof -
  obtain r1 w1 where a: "storage_call dl v = (r1, w1)" by (cases "storage_call dl v")
  obtain r2 w2 where b: "storage_call dl w1 = (r2, w2)" by (cases "storage_call dl w1")
  obtain r3 e3 d where c: "m (w_env w2, hive_db h w2) = (r3, e3, d)" by (cases "m (w_env w2, hive_db h w2)")
  obtain r4 w4 where f: "commit_conn dl (w2\<lparr>w_env := e3\<rparr>) = (r4, w4)" by (cases "commit_conn dl (w2\<lparr>w_env := e3\<rparr>)")
  have e1: "env_step v w1" using env_step_calls(2) [of v dl] a by simp
  have e2: "env_step v w2" using env_step_trans [OF e1] env_step_calls(2) [of w1 dl] b by simp
  have e3: "env_step v (w2\<lparr>w_env := e3\<rparr>)" by (rule env_step_trans [OF e2 env_stepI])
  have e4: "env_step v w4" using env_step_trans [OF e3] env_step_calls(3) [of "w2\<lparr>w_env := e3\<rparr>" dl] f by simp
  note g = gentle_trans [OF assms(2) gentle_env]
  have view: "hive_db h w2 = hive_db h w" using gentleD(1) [OF g [OF e2]] by (simp add: data_kept_def hives_kept_def)
  have out: "Q x d" if "r3 = Inr x" for x using holdsD [OF assms(4) HOL.refl, of "w_env w2"] c that view by simp
  have served: "find_hive h w4 \<noteq> None" using gentleD(1) [OF g [OF e4]] assms(3) by (simp add: data_kept_def)
  then have "rewrote 0 h d w4 (publish h d w4)" by (simp add: rewrote_def seen_def world_simps split: option.split)
  then have pub: "rewrote 0 h d w (publish h d w4)" using rewrote_after [OF g [OF e4]] poisoned_zero by blast
  show ?thesis
    using assms(1) a b c f g [OF e1] g [OF e2] g [OF e3] g [OF e4] out pub
    by (cases r1; cases r2; cases r3; cases r4) (auto simp: local_txn_def and_then_def)
qed

lemma gentle_rewrote: "gentle 0 w v \<Longrightarrow> hive_db h w = d \<Longrightarrow> rewrote 0 h d w v"
  using gentleD(1) [of 0 w v] by (auto simp: data_kept_def hives_kept_def rewrote_def seen_def split: option.splits)

lemma seen_zero [simp]: "seen 0 h w = hive_db h w"
  by (simp add: seen_def split: option.split)

text \<open>HIDE_ENTRY: the masking row replaces the entry in either store, all or nothing.\<close>

definition hide_outcome :: "hide_entry_request \<Rightarrow> db \<Rightarrow> u32 \<Rightarrow> db \<Rightarrow> bool" where
  "hide_outcome req d0 status d \<longleftrightarrow>
     status = status_ok \<and> (\<exists>st. has_key st (her_parent_guid req) d0 \<and> d = hide_entry st req d0) \<or>
     status = status_not_found \<and> \<not> key_taken (her_parent_guid req) d0 \<and> d = d0 \<or>
     storage_failure status \<and> d = d0"

text \<open>SET_VALUE: unconditional, or only over the value with the expected sequence.\<close>

definition set_value_outcome :: "set_value_request \<Rightarrow> db \<Rightarrow> u32 \<Rightarrow> db \<Rightarrow> bool" where
  "set_value_outcome req d0 status d \<longleftrightarrow>
     status = status_ok \<and> (\<exists>st. has_key st (svr_guid req) d0 \<and> d = set_value st req d0 \<and>
       (svr_expected_sequence req \<noteq> 0 \<longrightarrow> map vr_sequence (value_at st req d0) = [svr_expected_sequence req])) \<or>
     status = status_cas_failed \<and> svr_expected_sequence req \<noteq> 0 \<and> d = d0 \<and>
       (\<exists>st. has_key st (svr_guid req) d0 \<and> map vr_sequence (value_at st req d0) \<noteq> [svr_expected_sequence req]) \<or>
     status = status_not_found \<and> \<not> key_taken (svr_guid req) d0 \<and> d = d0 \<or>
     storage_failure status \<and> d = d0"

lemma set_outcome_blind: "storage_blind hide_outcome" "storage_blind set_value_outcome"
  by (auto simp: storage_blind_def hide_outcome_def set_value_outcome_def storage_failure_def status_defs)

lemma value_at_single:
  assumes "db_ok d" and "r \<in> set (value_at st req d)"
  shows "map vr_sequence (value_at st req d) = [vr_sequence r]"
proof -
  have "value_at st req d = [r]"
  proof (rule only_row [OF _ assms(2)])
    show "distinct (map value_pk (value_at st req d))"
      using assms(1) unfolding db_ok_cases [of _ st] value_at_def table_ok_def by (simp add: distinct_map_filter_key)
  qed (auto simp: value_at_def replaced_def value_pk_def)
  then show ?thesis by simp
qed

lemma cas_is_outcome:
  assumes "cas_outcome st req d0 status d" and "db_ok d0" and "has_key st (svr_guid req) d0" and "svr_expected_sequence req \<noteq> 0"
  shows "set_value_outcome req d0 status d"
proof -
  have single: "map vr_sequence (value_at st req d0) = [vr_sequence r]" if "r \<in> set (value_at st req d0)" for r
    by (rule value_at_single [OF assms(2) that])
  from assms(1) [unfolded cas_outcome_def] consider
      (ok) r where "status = status_ok" "r \<in> set (value_at st req d0)" "vr_sequence r = svr_expected_sequence req" "d = set_value st req d0"
    | (empty) "status = status_cas_failed" "d = d0" "value_at st req d0 = []"
    | (other) r where "status = status_cas_failed" "d = d0" "r \<in> set (value_at st req d0)" "vr_sequence r \<noteq> svr_expected_sequence req"
    | (fails) "storage_failure status" "d = d0"
    by blast
  then show ?thesis
  proof cases
    case ok
    have "has_key st (svr_guid req) d0 \<and> d = set_value st req d0 \<and>
        (svr_expected_sequence req \<noteq> 0 \<longrightarrow> map vr_sequence (value_at st req d0) = [svr_expected_sequence req])"
      using single [OF ok(2)] ok(3,4) assms(3) by simp
    then show ?thesis unfolding set_value_outcome_def ok(1) by (intro disjI1 conjI exI [of _ st]) simp_all
  next
    case empty
    have "map vr_sequence (value_at st req d0) \<noteq> [svr_expected_sequence req]" using empty(3) by simp
    with assms(3,4) show ?thesis
      unfolding set_value_outcome_def empty(1,2) by (intro disjI2 [OF disjI1] conjI exI [of _ st]) simp_all
  next
    case other
    have "map vr_sequence (value_at st req d0) \<noteq> [svr_expected_sequence req]" using single [OF other(3)] other(4) by simp
    with assms(3,4) show ?thesis
      unfolding set_value_outcome_def other(1,2) by (intro disjI2 [OF disjI1] conjI exI [of _ st]) simp_all
  next
    case fails
    then show ?thesis unfolding set_value_outcome_def by blast
  qed
qed

end
