(* ===== verification/Reads.thy ===== *)
theory Reads
  imports Writes Runs
begin

unbundle bit_operations_syntax

text \<open>
  What the answer to a reading request tells: the contents a lookup and an enumeration of
  children stand for, as functions of a database, and the proof that the handlers' statements
  compute them from the rows in whatever order the storage returns them
  (\<open>internal/handler/paths.go\<close>, \<open>keys.go\<close>, \<open>values.go\<close>).
\<close>

section \<open>What a read tells\<close>

definition key_meta :: "db \<Rightarrow> guid \<Rightarrow> lookup_key_meta" where
  "key_meta d g =
     (let r = hd (keys_with_guid Main g d @ keys_with_guid Volatile g d)
      in \<lparr>lkm_guid = g, lkm_sd = kr_sd r, lkm_volatile = (kr_volatile r \<noteq> 0), lkm_symlink = (kr_symlink r \<noteq> 0),
          lkm_last_write_time = kr_last_write_time r\<rparr>)"

text \<open>An entry is told unless its key record is missing.\<close>

definition told :: "db \<Rightarrow> path_row \<Rightarrow> bool" where
  "told d r \<longleftrightarrow> (case scan_target r of Some g \<Rightarrow> key_taken g d | None \<Rightarrow> True)"

definition told_entries :: "db \<Rightarrow> path_row list \<Rightarrow> lookup_path_entry list" where
  "told_entries d rows = sort_path_entries (map scan_entry (filter (told d) rows))"

definition told_metadata :: "db \<Rightarrow> path_row list \<Rightarrow> lookup_key_meta list" where
  "told_metadata d rows = map (key_meta d) (filter (\<lambda>g. key_taken g d) (sorted_guids (row_guids rows)))"

definition entries_below :: "guid \<Rightarrow> db \<Rightarrow> path_row list" where
  "entries_below g d =
     filter (\<lambda>r. pr_parent_guid r = g) (s_path_entries (db_main d)) @
     filter (\<lambda>r. pr_parent_guid r = g) (s_path_entries (db_volatile d))"

definition rows_named :: "bytes \<Rightarrow> path_row list \<Rightarrow> path_row list" where
  "rows_named folded rows = filter (\<lambda>r. pr_child_name_folded r = folded) rows"

definition told_child :: "db \<Rightarrow> path_row list \<Rightarrow> bytes \<Rightarrow> enum_children_child" where
  "told_child d rows folded =
     \<lparr>ecc_child_name = Min (pr_child_name ` set (rows_named folded rows)),
      ecc_entries = told_entries d (rows_named folded rows)\<rparr>"

definition told_children :: "db \<Rightarrow> path_row list \<Rightarrow> enum_children_child list" where
  "told_children d rows =
     filter (\<lambda>c. ecc_entries c \<noteq> [])
       (map (told_child d rows) (sort (remdups (map pr_child_name_folded rows))))"

section \<open>Metadata\<close>

lemma keys_ok_single:
  assumes "keys_ok d" and "r \<in> set (keys_with_guid Main g d @ keys_with_guid Volatile g d)"
  shows "keys_with_guid Main g d @ keys_with_guid Volatile g d = [r]"
proof (rule only_row [where g = g, OF _ assms(2)])
  show "distinct (map kr_guid (keys_with_guid Main g d @ keys_with_guid Volatile g d))"
    using assms(1) by (auto simp: keys_ok_def table_ok_def apart_iff keys_with_guid_def distinct_map_filter_key)
qed (auto simp: keys_with_guid_def)

lemma key_taken_rows: "key_taken g d \<longleftrightarrow> keys_with_guid Main g d @ keys_with_guid Volatile g d \<noteq> []"
  by (auto simp: key_taken_iff [of _ _ Main] keys_with_guid_empty)

lemma holds_read_key_meta:
  assumes "keys_ok d0"
  shows "holds (\<lambda>d. d = d0) (read_key_meta dl g) (\<lambda>m d. d = d0 \<and> key_taken g d0 \<and> m = key_meta d0 g)
    (\<lambda>e d. d = d0 \<and> (call_error e \<or> e = Err_No_Rows \<and> \<not> key_taken g d0))"
  unfolding read_key_meta_def
proof (rule holds_and_then)
  show "holds (\<lambda>d. d = d0) (sql_query_row dl (\<lambda>d. keys_with_guid Main g d @ keys_with_guid Volatile g d))
      (\<lambda>r d. d = d0 \<and> keys_with_guid Main g d0 @ keys_with_guid Volatile g d0 = [r])
      (\<lambda>e d. d = d0 \<and> (call_error e \<or> e = Err_No_Rows \<and> \<not> key_taken g d0))"
    by (rule holds_sql_query_row) (use keys_ok_single [OF assms] key_taken_rows in auto)
qed (rule holds_ok, auto simp: key_meta_def key_taken_rows Let_def)

lemma holds_read_metadata_loop:
  assumes "keys_ok d0"
  shows "holds (\<lambda>d. d = d0) (read_metadata_loop dl gs meta dangling)
    (\<lambda>p d. d = d0 \<and> p = (meta @ map (key_meta d0) (filter (\<lambda>g. key_taken g d0) gs), dangling @ filter (\<lambda>g. \<not> key_taken g d0) gs))
    (\<lambda>e d. d = d0 \<and> call_error e)"
proof (induction gs arbitrary: meta dangling)
  case (Cons g gs)
  show ?case
    unfolding read_metadata_loop.simps
  proof (rule holds_on_error [OF holds_read_key_meta [OF assms]])
    show "holds (\<lambda>d. d = d0 \<and> key_taken g d0 \<and> m = key_meta d0 g) (read_metadata_loop dl gs (meta @ [m]) dangling)
        (\<lambda>p d. d = d0 \<and> p = (meta @ map (key_meta d0) (filter (\<lambda>g. key_taken g d0) (g # gs)), dangling @ filter (\<lambda>g. \<not> key_taken g d0) (g # gs)))
        (\<lambda>e d. d = d0 \<and> call_error e)" for m
      by (cases "key_taken g d0 \<and> m = key_meta d0 g"; rule holds_impossible holds_conseq [OF Cons.IH]; auto)
    show "holds (\<lambda>d. d = d0 \<and> (call_error e \<or> e = Err_No_Rows \<and> \<not> key_taken g d0))
        (if e = Err_No_Rows then read_metadata_loop dl gs meta (dangling @ [g]) else fail e)
        (\<lambda>p d. d = d0 \<and> p = (meta @ map (key_meta d0) (filter (\<lambda>g. key_taken g d0) (g # gs)), dangling @ filter (\<lambda>g. \<not> key_taken g d0) (g # gs)))
        (\<lambda>e d. d = d0 \<and> call_error e)" for e
    proof (cases "key_taken g d0")
      case True
      show ?thesis by (rule holds_if; rule holds_impossible holds_fail) (use True in auto)
    next
      case False
      show ?thesis by (rule holds_if; rule holds_conseq [OF Cons.IH] holds_fail) (use False in auto)
    qed
  qed
qed (auto intro: holds_ok)

section \<open>Entries in canonical order\<close>

text \<open>Rows with one entry in each layer, as the primary key leaves them below one name.\<close>

definition one_per_layer :: "path_row list \<Rightarrow> bool" where
  "one_per_layer rows \<longleftrightarrow> distinct (map pr_layer rows) \<and> list_all path_row_ok rows"

lemma one_per_layer_mset: "mset rows = mset rows' \<Longrightarrow> one_per_layer rows = one_per_layer rows'"
  unfolding one_per_layer_def list_all_iff by (metis mset_eq_imp_distinct_iff mset_map set_mset_mset)

lemma told_entries_arranged:
  assumes "one_per_layer rows" and "mset rows = mset rows'"
  shows "told_entries d rows = told_entries d rows'"
  unfolding told_entries_def sort_path_entries_def
proof (rule sort_key_arrangement)
  show "mset (map scan_entry (filter (told d) rows)) = mset (map scan_entry (filter (told d) rows'))"
    by (rule mset_map_eq [OF mset_filter_eq [OF assms(2)]])
  have "inj_on pr_layer (set rows)" using assms(1) by (simp add: one_per_layer_def distinct_map)
  then show "inj_on (\<lambda>e. (lpe_layer_name e, lpe_sequence e)) (set (map scan_entry (filter (told d) rows)))"
    by (auto simp: inj_on_def scan_entry_def)
qed

lemma sorted_guids_set: "set gs = set gs' \<Longrightarrow> sorted_guids gs = sorted_guids gs'"
  unfolding sorted_guids_def by (metis sorted_list_of_set_sort_remdups)

lemma set_row_guids: "set (row_guids rows) = {g. \<exists>r \<in> set rows. scan_target r = Some g}"
  by (force simp: row_guids_def)

lemma told_metadata_arranged:
  assumes "mset rows = mset rows'"
  shows "told_metadata d rows = told_metadata d rows'"
proof -
  have "set (row_guids rows) = set (row_guids rows')" by (simp only: set_row_guids mset_eq_setD [OF assms])
  from sorted_guids_set [OF this] show ?thesis by (simp only: told_metadata_def)
qed

lemma copy16_id: "length g = 16 \<Longrightarrow> copy16 g = g"
  by (simp add: copy16_def zero_guid_def)

lemma kept_entry:
  assumes "path_row_ok r" and "\<And>g. scan_target r = Some g \<Longrightarrow> g \<in> set dangling \<longleftrightarrow> \<not> key_taken g d"
  shows "\<not> (lpe_target_type (scan_entry r) = target_guid_type \<and> lpe_target_guid (scan_entry r) \<in> set dangling) \<longleftrightarrow> told d r"
proof -
  have neq: "target_hidden_type \<noteq> target_guid_type" by (simp add: target_hidden_type_def target_guid_type_def)
  show ?thesis
    using assms neq by (cases "pr_target_guid r") (auto simp: path_row_ok_def told_def scan_target_def scan_entry_def)
qed

lemma remove_dangling_told:
  assumes "list_all path_row_ok rows" and "\<And>r g. r \<in> set rows \<Longrightarrow> scan_target r = Some g \<Longrightarrow> g \<in> set dangling \<longleftrightarrow> \<not> key_taken g d"
  shows "remove_dangling_entries (sort_path_entries (map scan_entry rows)) dangling = told_entries d rows"
proof -
  let ?P = "\<lambda>e. \<not> (lpe_target_type e = target_guid_type \<and> lpe_target_guid e \<in> set dangling)"
  have "filter (\<lambda>r. ?P (scan_entry r)) rows = filter (told d) rows"
    by (rule filter_cong [OF HOL.refl], rule kept_entry) (use assms in \<open>auto simp: list_all_iff\<close>)
  then show ?thesis
    by (simp add: remove_dangling_entries_def told_entries_def sort_path_entries_def filter_sort filter_map comp_def)
qed

lemma remove_none: "remove_dangling_entries entries [] = entries"
  by (simp add: remove_dangling_entries_def)

text \<open>The GUIDs without a key record, as the loop over the targets finds them.\<close>

definition dangling_guids :: "db \<Rightarrow> path_row list \<Rightarrow> guid list" where
  "dangling_guids d rows = filter (\<lambda>g. \<not> key_taken g d) (sorted_guids (row_guids rows))"

lemma dangling_guids_iff: "r \<in> set rows \<Longrightarrow> scan_target r = Some g \<Longrightarrow> g \<in> set (dangling_guids d rows) \<longleftrightarrow> \<not> key_taken g d"
  by (auto simp: dangling_guids_def sorted_guids_def set_row_guids)

lemma holds_referenced_metadata:
  assumes "keys_ok d0"
  shows "holds (\<lambda>d. d = d0) (read_referenced_metadata dl (row_guids rows))
    (\<lambda>p d. d = d0 \<and> p = (told_metadata d0 rows, dangling_guids d0 rows)) (\<lambda>e d. True)"
  unfolding read_referenced_metadata_def told_metadata_def dangling_guids_def
  by (rule holds_conseq [OF holds_read_metadata_loop [OF assms]]) auto

section \<open>LOOKUP\<close>

definition lookup_tells :: "lookup_request \<Rightarrow> db \<Rightarrow> lookup_path_entry list \<times> lookup_key_meta list" where
  "lookup_tells req d =
     (let rows = rows_named (fold_string (lkr_child_name req)) (entries_below (lkr_parent_guid req) d)
      in (told_entries d rows, told_metadata d rows))"

lemma child_rows_named:
  "child_rows g folded Main d @ child_rows g folded Volatile d = rows_named folded (entries_below g d)"
  by (simp add: child_rows_def rows_named_def entries_below_def conj_commute)

lemma entries_below_ok:
  assumes "paths_ok d"
  shows "list_all path_row_ok (entries_below g d)" and "distinct (map path_pk (entries_below g d))"
    and "r \<in> set (entries_below g d) \<Longrightarrow> pr_parent_guid r = g"
  using assms by (auto simp: paths_ok_def table_ok_def apart_iff entries_below_def list_all_iff distinct_map_filter_key)

lemma rows_named_ok:
  assumes "paths_ok d"
  shows "one_per_layer (rows_named folded (entries_below g d))"
proof -
  have "inj_on pr_layer (set (rows_named folded (entries_below g d)))"
    using entries_below_ok(2,3) [OF assms, where g = g]
    by (auto simp: rows_named_def path_pk_def distinct_map inj_on_def)
  moreover have "distinct (rows_named folded (entries_below g d))"
    using entries_below_ok(2) [OF assms, where g = g] by (simp add: rows_named_def distinct_map)
  ultimately show ?thesis
    using entries_below_ok(1) [OF assms, where g = g] by (auto simp: one_per_layer_def distinct_map list_all_iff rows_named_def)
qed

lemma holds_lookup:
  assumes "db_ok d0"
  shows "holds (\<lambda>d. d = d0) (lookup_act dl req) (\<lambda>p d. p = lookup_tells req d0) (\<lambda>e d. True)"
proof -
  let ?rows = "rows_named (fold_string (lkr_child_name req)) (entries_below (lkr_parent_guid req) d0)"
  have ok: "keys_ok d0" "paths_ok d0" using assms by (simp_all add: db_ok_def)
  note one = rows_named_ok [OF ok(2)]
  show ?thesis
    unfolding lookup_act_def Let_def
  proof (rule holds_and_then [OF holds_sql_query [where Q = "\<lambda>rows d. d = d0 \<and> mset rows = mset ?rows"]])
    fix rows
    show "holds (\<lambda>d. d = d0 \<and> mset rows = mset ?rows) (lookup_rows dl rows) (\<lambda>p d. p = lookup_tells req d0) (\<lambda>e d. True)"
    proof (cases "mset rows = mset ?rows")
      case True
      have "one_per_layer rows" using one one_per_layer_mset [OF True] by simp
      then have row: "list_all path_row_ok rows" by (simp add: one_per_layer_def)
      have removed: "remove_dangling_entries (sort_path_entries (map scan_entry rows)) (dangling_guids d0 rows) = told_entries d0 rows"
        by (rule remove_dangling_told [OF row]) (rule dangling_guids_iff)
      have "holds (\<lambda>d. d = d0) (lookup_rows dl rows) (\<lambda>p d. p = (told_entries d0 rows, told_metadata d0 rows)) (\<lambda>e d. True)"
        unfolding lookup_rows_def Let_def
      proof (rule holds_and_then [OF holds_referenced_metadata [OF ok(1)]])
        show "holds (\<lambda>d. d = d0 \<and> p = (told_metadata d0 rows, dangling_guids d0 rows))
            (case p of (meta, dangling) \<Rightarrow>
               ok (if dangling \<noteq> [] then remove_dangling_entries (sort_path_entries (map scan_entry rows)) dangling
                   else sort_path_entries (map scan_entry rows), meta))
            (\<lambda>p d. p = (told_entries d0 rows, told_metadata d0 rows)) (\<lambda>e d. True)" for p
          using removed remove_none [of "sort_path_entries (map scan_entry rows)"] by (cases p) (auto intro!: holds_ok)
      qed
      moreover have "told_entries d0 rows = told_entries d0 ?rows" "told_metadata d0 rows = told_metadata d0 ?rows"
        using told_entries_arranged [OF one True [symmetric]] told_metadata_arranged [OF True] by simp_all
      ultimately show ?thesis using True by (simp add: lookup_tells_def Let_def)
    qed (simp add: holds_impossible)
  qed (simp_all add: child_rows_named)
qed

section \<open>ENUM_CHILDREN\<close>

text \<open>What the groups of the rows read so far stand for.\<close>

definition child_group_of :: "path_row list \<Rightarrow> bytes \<Rightarrow> child_group option" where
  "child_group_of rows folded =
     (if folded \<in> pr_child_name_folded ` set rows
      then Some \<lparr>cg_display_name = Min (pr_child_name ` set (rows_named folded rows)),
                 cg_entries = map scan_entry (rows_named folded rows)\<rparr>
      else None)"

definition group_rows :: "path_row list \<Rightarrow> (bytes \<times> child_group) list" where
  "group_rows rows = foldl add_child_row [] rows"

lemma rows_named_snoc:
  "rows_named folded (rows @ [r]) = (if pr_child_name_folded r = folded then rows_named folded rows @ [r] else rows_named folded rows)"
  by (simp add: rows_named_def)

lemma rows_named_none: "folded \<notin> pr_child_name_folded ` set rows \<Longrightarrow> rows_named folded rows = []"
  by (auto simp: rows_named_def filter_empty_conv)

lemma rows_named_some: "folded \<in> pr_child_name_folded ` set rows \<Longrightarrow> rows_named folded rows \<noteq> []"
  by (auto simp: rows_named_def filter_empty_conv)

lemma min_insert: "finite S \<Longrightarrow> S \<noteq> {} \<Longrightarrow> Min (insert x S) = (if x < Min S then x else Min S)"
  for x :: bytes
  using Min_insert [of S x] by (metis min.absorb3 min_absorb2 not_le)

lemma add_child_row_group:
  assumes "map_of groups = child_group_of rows"
  shows "map_of (add_child_row groups r) = child_group_of (rows @ [r])"
proof
  fix f
  let ?k = "pr_child_name_folded r"
  show "map_of (add_child_row groups r) f = child_group_of (rows @ [r]) f"
  proof (cases "?k \<in> pr_child_name_folded ` set rows")
    case True
    have "Min (insert (pr_child_name r) (pr_child_name ` set (rows_named ?k rows))) =
        (if pr_child_name r < Min (pr_child_name ` set (rows_named ?k rows)) then pr_child_name r
         else Min (pr_child_name ` set (rows_named ?k rows)))"
      by (rule min_insert) (use rows_named_some [OF True] in simp_all)
    with True assms show ?thesis
      by (auto simp: add_child_row_def Let_def update_conv' child_group_of_def rows_named_snoc)
  next
    case False
    with assms rows_named_none [OF False] show ?thesis
      by (auto simp: add_child_row_def Let_def update_conv' child_group_of_def rows_named_snoc)
  qed
qed

lemma group_rows_of: "map_of (group_rows rows) = child_group_of rows \<and> distinct (map fst (group_rows rows))"
proof (induction rows rule: rev_induct)
  case Nil
  show ?case by (simp add: group_rows_def child_group_of_def fun_eq_iff)
next
  case (snoc r rows)
  have "group_rows (rows @ [r]) = add_child_row (group_rows rows) r" by (simp add: group_rows_def)
  moreover have "distinct (map fst (add_child_row (group_rows rows) r))"
    using snoc by (simp add: add_child_row_def Let_def distinct_update)
  ultimately show ?case using add_child_row_group snoc by simp
qed

text \<open>The children in the order of their folded names, each with its lowest spelling.\<close>

definition child_of :: "path_row list \<Rightarrow> bytes \<Rightarrow> enum_children_child" where
  "child_of rows folded =
     \<lparr>ecc_child_name = Min (pr_child_name ` set (rows_named folded rows)),
      ecc_entries = sort_path_entries (map scan_entry (rows_named folded rows))\<rparr>"

definition folded_names :: "path_row list \<Rightarrow> bytes list" where
  "folded_names rows = sort (remdups (map pr_child_name_folded rows))"

lemma ordered_children_of: "ordered_children (group_rows rows) = map (child_of rows) (folded_names rows)"
proof -
  note g = group_rows_of [of rows]
  have "set (map fst (group_rows rows)) = dom (map_of (group_rows rows))" by (simp add: dom_map_of_conv_image_fst)
  then have keys: "set (map fst (group_rows rows)) = set (map pr_child_name_folded rows)"
    using g by (auto simp: child_group_of_def dom_def split: if_splits)
  then have "sort (map fst (group_rows rows)) = folded_names rows"
    using g sorted_list_of_set_sort_remdups [of "map fst (group_rows rows)"]
      sorted_list_of_set_sort_remdups [of "map pr_child_name_folded rows"]
    by (simp add: folded_names_def distinct_remdups_id)
  moreover have "the (map_of (group_rows rows) f) =
      \<lparr>cg_display_name = Min (pr_child_name ` set (rows_named f rows)), cg_entries = map scan_entry (rows_named f rows)\<rparr>"
    if "f \<in> set (folded_names rows)" for f
    using g that by (simp add: child_group_of_def folded_names_def)
  ultimately show ?thesis by (auto simp: ordered_children_def child_of_def Let_def)
qed

definition enum_children_tells :: "enum_children_request \<Rightarrow> db \<Rightarrow> enum_children_child list \<times> lookup_key_meta list" where
  "enum_children_tells req d =
     (let rows = entries_below (ecr_parent_guid req) d in (told_children d rows, told_metadata d rows))"

lemma told_children_names: "told_children d rows = filter (\<lambda>c. ecc_entries c \<noteq> []) (map (told_child d rows) (folded_names rows))"
  by (simp add: told_children_def folded_names_def)

lemma remove_dangling_children_told:
  assumes "list_all path_row_ok rows"
  shows "remove_dangling_children (map (child_of rows) (folded_names rows)) (dangling_guids d rows) = told_children d rows"
proof -
  have "(child_of rows f)\<lparr>ecc_entries := remove_dangling_entries (ecc_entries (child_of rows f)) (dangling_guids d rows)\<rparr> = told_child d rows f" for f
  proof -
    have sub: "set (rows_named f rows) \<subseteq> set rows" by (auto simp: rows_named_def)
    have "list_all path_row_ok (rows_named f rows)" using assms sub by (auto simp: list_all_iff)
    then have "remove_dangling_entries (sort_path_entries (map scan_entry (rows_named f rows))) (dangling_guids d rows) = told_entries d (rows_named f rows)"
      by (rule remove_dangling_told) (use dangling_guids_iff sub in blast)
    then show ?thesis by (simp add: child_of_def told_child_def)
  qed
  then show ?thesis by (simp add: remove_dangling_children_def told_children_names comp_def)
qed

lemma remove_no_children: "remove_dangling_children (map (child_of rows) (folded_names rows)) [] = map (child_of rows) (folded_names rows)"
proof -
  have "ecc_entries (child_of rows f) \<noteq> []" if "f \<in> set (folded_names rows)" for f
    using rows_named_some [of f rows] that by (auto simp: child_of_def folded_names_def sort_path_entries_def dest!: arg_cong [of _ _ length])
  then show ?thesis by (auto simp: remove_dangling_children_def remove_none comp_def filter_id_conv)
qed

lemma told_children_arranged:
  assumes "mset rows = mset rows'" and "\<And>f. one_per_layer (rows_named f rows)"
  shows "told_children d rows = told_children d rows'"
proof -
  have same: "mset (rows_named f rows) = mset (rows_named f rows')" for f
    unfolding rows_named_def by (rule mset_filter_eq [OF assms(1)])
  have "told_child d rows = told_child d rows'"
    using told_entries_arranged [OF assms(2) same, of d] mset_eq_setD [OF same] by (simp add: told_child_def fun_eq_iff)
  moreover have "set (map pr_child_name_folded rows) = set (map pr_child_name_folded rows')"
    using mset_eq_setD [OF assms(1)] by simp
  then have "folded_names rows = folded_names rows'"
    unfolding folded_names_def using sorted_list_of_set_sort_remdups by metis
  ultimately show ?thesis by (simp add: told_children_names)
qed

lemma holds_enum_children:
  assumes "db_ok d0"
  shows "holds (\<lambda>d. d = d0) (enum_children_act dl req) (\<lambda>p d. p = enum_children_tells req d0) (\<lambda>e d. True)"
proof -
  let ?rows = "entries_below (ecr_parent_guid req) d0"
  have ok: "keys_ok d0" "paths_ok d0" using assms by (simp_all add: db_ok_def)
  show ?thesis
    unfolding enum_children_act_def
  proof (rule holds_and_then [OF holds_sql_query [where Q = "\<lambda>rows d. d = d0 \<and> mset rows = mset ?rows"]])
    fix rows
    show "holds (\<lambda>d. d = d0 \<and> mset rows = mset ?rows) (enum_rows dl rows) (\<lambda>p d. p = enum_children_tells req d0) (\<lambda>e d. True)"
    proof (cases "mset rows = mset ?rows")
      case True
      have row: "list_all path_row_ok rows"
        using entries_below_ok(1) [OF ok(2), of "ecr_parent_guid req"] mset_eq_setD [OF True] by (simp add: list_all_iff)
      have "holds (\<lambda>d. d = d0) (enum_rows dl rows) (\<lambda>p d. p = (told_children d0 rows, told_metadata d0 rows)) (\<lambda>e d. True)"
        unfolding enum_rows_def read_child_groups_def group_rows_def [symmetric] ordered_children_of Let_def prod.case
      proof (rule holds_and_then [OF holds_referenced_metadata [OF ok(1)]])
        show "holds (\<lambda>d. d = d0 \<and> p = (told_metadata d0 rows, dangling_guids d0 rows))
            (case p of (meta, dangling) \<Rightarrow>
               ok (if dangling \<noteq> [] then remove_dangling_children (map (child_of rows) (folded_names rows)) dangling
                   else map (child_of rows) (folded_names rows), meta))
            (\<lambda>p d. p = (told_children d0 rows, told_metadata d0 rows)) (\<lambda>e d. True)" for p
          using remove_dangling_children_told [OF row, of d0] remove_no_children [of rows]
          by (cases p) (auto intro!: holds_ok)
      qed
      moreover have "told_children d0 rows = told_children d0 ?rows" "told_metadata d0 rows = told_metadata d0 ?rows"
        using told_children_arranged [OF True [symmetric] rows_named_ok [OF ok(2)]] told_metadata_arranged [OF True] by simp_all
      ultimately show ?thesis using True by (simp add: enum_children_tells_def Let_def)
    qed (simp add: holds_impossible)
  qed (simp_all add: entries_below_def)
qed

section \<open>QUERY_VALUES\<close>

text \<open>
  The rows of both stores that match, each once, in the canonical order: those of the key, and
  of the one name the request asks for unless it asks for all.
\<close>

definition told_value :: "value_row \<Rightarrow> query_values_entry" where
  "told_value r =
     \<lparr>qve_value_name = vr_name r, qve_layer_name = vr_layer r, qve_type = vr_type r, qve_data = vr_data r,
      qve_sequence = vr_sequence r\<rparr>"

definition asked_value :: "query_values_request \<Rightarrow> value_row \<Rightarrow> bool" where
  "asked_value req r \<longleftrightarrow>
     vr_key_guid r = qvr_guid req \<and> (qvr_query_all req \<or> vr_name_folded r = fold_string (qvr_value_name req))"

definition told_blanket :: "blanket_row \<Rightarrow> blanket_tombstone_entry" where
  "told_blanket r = \<lparr>bte_layer_name = br_layer r, bte_sequence = br_sequence r\<rparr>"

definition values_told :: "query_values_request \<Rightarrow> db \<Rightarrow> query_values_entry list \<Rightarrow> bool" where
  "values_told req d entries \<longleftrightarrow>
     mset entries = mset (map told_value (filter (asked_value req) (s_values (db_main d) @ s_values (db_volatile d)))) \<and>
     sorted (map (\<lambda>e. (fold_string (qve_value_name e), qve_layer_name e, qve_sequence e)) entries)"

definition blankets_told :: "guid \<Rightarrow> db \<Rightarrow> blanket_tombstone_entry list \<Rightarrow> bool" where
  "blankets_told g d blankets \<longleftrightarrow>
     mset blankets = mset (map told_blanket (filter (\<lambda>r. br_key_guid r = g) (s_blankets (db_main d) @ s_blankets (db_volatile d)))) \<and>
     sorted (map (\<lambda>b. (fold_string (bte_layer_name b), bte_sequence b)) blankets)"

lemma told_rows:
  "values_told req d entries \<longleftrightarrow>
     mset entries = mset (map scan_value (value_rows req Main d @ value_rows req Volatile d)) \<and>
     sorted (map (\<lambda>e. (fold_string (qve_value_name e), qve_layer_name e, qve_sequence e)) entries)"
  "blankets_told g d blankets \<longleftrightarrow>
     mset blankets = mset (map scan_blanket (blanket_rows g Main d @ blanket_rows g Volatile d)) \<and>
     sorted (map (\<lambda>b. (fold_string (bte_layer_name b), bte_sequence b)) blankets)"
proof -
  have "scan_value = told_value" "scan_blanket = told_blanket"
    by (simp_all add: fun_eq_iff scan_value_def told_value_def scan_blanket_def told_blanket_def)
  moreover have "value_rows req st d = filter (asked_value req) (s_values (schema_of st d))" for st
    unfolding value_rows_def by (rule filter_cong) (simp_all add: asked_value_def)
  ultimately show "values_told req d entries \<longleftrightarrow>
       mset entries = mset (map scan_value (value_rows req Main d @ value_rows req Volatile d)) \<and>
       sorted (map (\<lambda>e. (fold_string (qve_value_name e), qve_layer_name e, qve_sequence e)) entries)"
    "blankets_told g d blankets \<longleftrightarrow>
       mset blankets = mset (map scan_blanket (blanket_rows g Main d @ blanket_rows g Volatile d)) \<and>
       sorted (map (\<lambda>b. (fold_string (bte_layer_name b), bte_sequence b)) blankets)"
    by (simp_all add: values_told_def blankets_told_def blanket_rows_def)
qed

lemma holds_query_values:
  "holds (\<lambda>d. d = d0) (query_values_act dl req)
     (\<lambda>p d. values_told req d0 (fst p) \<and> blankets_told (qvr_guid req) d0 (snd p)) (\<lambda>e d. True)"
proof -
  have entries: "holds (\<lambda>d. d = d0) (query_value_entries dl req) (\<lambda>entries d. d = d0 \<and> values_told req d0 entries) (\<lambda>e d. True)"
    unfolding query_value_entries_def
    by (rule holds_and_then [OF holds_sql_query [where Q = "\<lambda>rows d. d = d0 \<and> mset rows = mset (value_rows req Main d0 @ value_rows req Volatile d0)"]])
      (auto intro!: holds_ok simp: told_rows sort_values_def dest: mset_map_eq [where f = scan_value])
  have blankets: "holds (\<lambda>d. d = d0) (query_blanket_tombstones dl g) (\<lambda>blankets d. d = d0 \<and> blankets_told g d0 blankets) (\<lambda>e d. True)" for g
    unfolding query_blanket_tombstones_def
    by (rule holds_and_then [OF holds_sql_query [where Q = "\<lambda>rows d. d = d0 \<and> mset rows = mset (blanket_rows g Main d0 @ blanket_rows g Volatile d0)"]])
      (auto intro!: holds_ok simp: told_rows sort_blankets_def dest: mset_map_eq [where f = scan_blanket])
  show ?thesis
    unfolding query_values_act_def
  proof (rule holds_and_then [OF entries])
    show "holds (\<lambda>d. d = d0 \<and> values_told req d0 es) (and_then (query_blanket_tombstones dl (qvr_guid req)) (\<lambda>bs. ok (es, bs)))
        (\<lambda>p d. values_told req d0 (fst p) \<and> blankets_told (qvr_guid req) d0 (snd p)) (\<lambda>e d. True)" for es
      by (cases "values_told req d0 es") (auto intro!: holds_impossible holds_and_then [OF blankets] holds_ok)
  qed
qed

section \<open>Through the shell of a reading handler\<close>

text \<open>
  A reading request was answered from what its transaction sees of that hive, as \<open>Q\<close> says, or
  was refused without a payload, or no served hive has the key it names.
\<close>

definition tells ::
  "u64 \<Rightarrow> ('r \<times> decoder) option \<Rightarrow> ('r \<Rightarrow> guid) \<Rightarrow> ('r \<Rightarrow> db \<Rightarrow> reply \<Rightarrow> bool) \<Rightarrow> world \<Rightarrow> reply \<Rightarrow> bool" where
  "tells i dec g Q w rep \<longleftrightarrow>
     (\<exists>req d h. dec = Some (req, d) \<and> routed (g req) i h w \<and> Q req (seen i h w) rep) \<or>
     refusal (fst rep) \<and> snd rep = [] \<or>
     rep = (status_not_found, []) \<and> (\<exists>req d. dec = Some (req, d) \<and> absent (g req) i w)"

lemma refused_tells: "refusal st \<Longrightarrow> tells i dec g Q w (fst (answer st v))"
  by (simp add: tells_def answer_def)

text \<open>Finishing a request keeps the payload of an OK and can only turn a failure into another.\<close>

lemma request_tells:
  assumes "with_request header body w = (rep, w')" and "txnID header = i"
    and "\<And>req d st resp. Q req d (st, resp) \<Longrightarrow> st \<noteq> status_ok \<Longrightarrow> resp = []"
    and "\<And>r v. rq_txn r = i \<Longrightarrow> gentle i w v \<Longrightarrow> begun i w v \<Longrightarrow> tells i dec g Q w (fst (body r v))"
  shows "tells i dec g Q w rep"
proof -
  obtain res v where s: "start_request header w = (res, v)" by (cases "start_request header w")
  show ?thesis
  proof (cases res)
    case (Inl e)
    with assms(1) s show ?thesis by (auto simp: with_request_def tells_def)
  next
    case (Inr r)
    have r: "rq_txn r = i" using s Inr start_request_txn assms(2) by simp
    have g: "gentle i w v" using gentle.started [of header i w] assms(2) s by simp
    have same: "begun i w v" using start_begun [OF s] assms(2) by simp
    obtain st resp v1 where b: "body r v = ((st, resp), v1)" by (metis surj_pair)
    obtain st' v2 where f: "finish_request r st v1 = (st', v2)" by (cases "finish_request r st v1")
    have rep: "rep = (st', resp)" using assms(1) s Inr b f by (simp add: with_request_def)
    have told: "tells i dec g Q w (st, resp)" using assms(4) [OF r g same] b by simp
    from finish_cases [OF f r] consider "st' = st" | "st \<noteq> status_ok" "refusal st'"
      by (auto simp: status_defs refusal_def storage_failure_def)
    then show ?thesis
    proof cases
      case 2
      then have "resp = []" using told assms(3) by (auto simp: tells_def)
      with 2 show ?thesis by (simp add: rep tells_def)
    qed (use told rep in simp)
  qed
qed

lemma decoded_tells:
  "(\<And>req d. dec = Some (req, d) \<Longrightarrow> tells i dec g Q w (fst (k req v))) \<Longrightarrow> tells i dec g Q w (fst (decoded dec k v))"
  using refused_tells [of status_invalid] by (auto simp: decoded_def split: option.split)

lemma hive_tells:
  assumes "world_inv w" and "gentle i w v" and "begun i w v" and "rq_txn r = i" and "dec = Some (req, d)"
    and "\<And>h v'. gentle i w v' \<Longrightarrow> routed (g req) i h w \<Longrightarrow> tells i dec g Q w (fst (k h v'))"
  shows "tells i dec g Q w (fst (with_hive r (g req) k v))"
proof (rule hive_rule [where A = "\<lambda>p. tells i dec g Q w (fst p)", OF assms(1-4)])
  show "tells i dec g Q w (fst (answer status_not_found v'))" if "absent (g req) i w" for v'
    using that assms(5) by (auto simp: tells_def answer_def)
qed (use assms(6) in \<open>auto simp: refused_tells\<close>)

text \<open>The connection a read runs on shows what the transaction sees.\<close>

lemma read_q_view:
  assumes "read_q r h v = (Inr q, v')" and "rq_txn r = i" and "world_inv v"
  shows "view q v' = seen i h v' \<and> \<not> poisoned i v'"
proof -
  obtain res v1 where l: "lock_hive r v = (res, v1)" by (cases "lock_hive r v")
  have e: "env_step v v1" using env_step_calls(1) [of v "rq_deadline r"] l by (simp add: lock_hive_def)
  have inv: "world_inv v1" by (rule gentleD(2) [OF gentle_env [OF e] assms(3)])
  show ?thesis
  proof (cases "i = 0")
    case True
    with assms(1,2) l show ?thesis by (auto simp: read_q_def view_def seen_def split: sum.splits option.split)
  next
    case False
    with assms(1,2) l obtain bound where run: "get_read_querier (rq_deadline r) i h v1 = (Inr bound, v')"
      and q: "q = (if bound then Pinned i else Pool h)"
      by (auto simp: read_q_def split: sum.splits prod.splits)
    show ?thesis
    proof (cases "find_txn i v1")
      case None
      with run q show ?thesis by (simp add: get_read_querier_def view_def seen_def poisoned_def)
    next
      case (Some info)
      obtain o1 v2 where o: "open_pinned_snapshot (rq_deadline r) h (set_binding i True v1) = (o1, v2)"
        by (cases "open_pinned_snapshot (rq_deadline r) h (set_binding i True v1)")
      from run q Some o False show ?thesis
        by (cases "ti_conn info"; cases o1)
          (auto simp: get_read_querier_def view_def seen_def poisoned_def world_simps split: if_splits)
    qed
  qed
qed

lemma read_tells:
  assumes "world_inv w" and "gentle i w v" and "rq_txn r = i" and "routed (g req) i h w" and "dec = Some (req, d)"
    and "\<And>d0. db_ok d0 \<Longrightarrow> holds (\<lambda>d. d = d0) m (\<lambda>x _. Q req d0 (rep x)) (\<lambda>e _. refusal (s e) \<or> Q req d0 (s e, []))"
  shows "tells i dec g Q w (fst (op_case (read_q r h) (\<lambda>e. answer (map_read_err e)) (\<lambda>q.
    op_case (run_on q m) (\<lambda>e. answer (s e)) (\<lambda>x w. (rep x, w))) v))"
proof -
  obtain res v1 where run: "read_q r h v = (res, v1)" by (cases "read_q r h v")
  have inv: "world_inv v" by (rule gentleD(2) [OF assms(2,1)])
  have "gentle i v v1" using gentle.reading [OF gentle_known [OF assms(2) routed_owned [OF assms(4)]]] assms(3) run by (metis snd_conv)
  note g1 = gentle_trans [OF assms(2) this]
  show ?thesis
  proof (cases res)
    case (Inl e)
    have "refusal (map_read_err e)" by (simp add: map_read_err_def)
    with Inl run show ?thesis by (simp add: op_case_def refused_tells)
  next
    case (Inr q)
    from read_q_view [OF _ assms(3) inv] run Inr have "view q v1 = seen i h v1" "\<not> poisoned i v1" by auto
    then have view: "view q v1 = seen i h w" using gentleD(1) [OF g1] by (simp add: data_kept_def)
    obtain res2 e2 d2 where m: "m (w_env v1, seen i h w) = (res2, e2, d2)" by (cases "m (w_env v1, seen i h w)")
    have "holds (\<lambda>d. d = seen i h w) m (\<lambda>x _. Q req (seen i h w) (rep x)) (\<lambda>e _. refusal (s e) \<or> Q req (seen i h w) (s e, []))"
      by (rule assms(6) [OF seen_ok [OF assms(1)]])
    from holdsD [OF this HOL.refl, where e = "w_env v1"] m have out: "case res2 of Inl e \<Rightarrow> refusal (s e) \<or> Q req (seen i h w) (s e, []) | Inr x \<Rightarrow> Q req (seen i h w) (rep x)"
      by (auto split: sum.splits)
    then have "tells i dec g Q w (case res2 of Inl e \<Rightarrow> (s e, []) | Inr x \<Rightarrow> rep x)"
      using assms(4,5) unfolding tells_def by (cases res2) auto
    with run Inr m view show ?thesis by (cases res2) (simp_all add: op_case_def run_on_def answer_def)
  qed
qed

section \<open>The reading handlers\<close>

lemma lookup_answers:
  assumes "handle_lookup header payload w = (rep, w')" and "world_inv w" and "txnID header = i"
  shows "tells i (decode_lookup_request (new_decoder payload)) lkr_parent_guid
    (\<lambda>req d rep. rep = (status_ok, case lookup_tells req d of (es, ms) \<Rightarrow> encode_lookup_response es ms new_encoder)) w rep"
  by (rule request_tells [OF assms(1) [unfolded handle_lookup_def] assms(3)], simp,
      rule decoded_tells, rule hive_tells [OF assms(2)], assumption+,
      unfold case_prod_unfold,
      rule read_tells [OF assms(2)], assumption+, rule holds_conseq [OF holds_lookup]) auto

lemma enum_children_answers:
  assumes "handle_enum_children header payload w = (rep, w')" and "world_inv w" and "txnID header = i"
  shows "tells i (decode_enum_children_request (new_decoder payload)) ecr_parent_guid
    (\<lambda>req d rep. rep = (status_ok, case enum_children_tells req d of (cs, ms) \<Rightarrow> encode_enum_children_response cs ms new_encoder)) w rep"
  by (rule request_tells [OF assms(1) [unfolded handle_enum_children_def] assms(3)], simp,
      rule decoded_tells, rule hive_tells [OF assms(2)], assumption+,
      unfold case_prod_unfold,
      rule read_tells [OF assms(2)], assumption+, rule holds_conseq [OF holds_enum_children]) auto

lemma query_values_answers:
  assumes "handle_query_values header payload w = (rep, w')" and "world_inv w" and "txnID header = i"
  shows "tells i (decode_query_values_request (new_decoder payload)) qvr_guid
    (\<lambda>req d rep. \<exists>es bs. rep = (status_ok, encode_query_values_response es bs new_encoder) \<and>
       values_told req d es \<and> blankets_told (qvr_guid req) d bs) w rep"
  by (rule request_tells [OF assms(1) [unfolded handle_query_values_def] assms(3)], force,
      rule decoded_tells, rule hive_tells [OF assms(2)], assumption+,
      unfold case_prod_unfold,
      rule read_tells [OF assms(2)], assumption+, rule holds_conseq [OF holds_query_values]) auto

definition read_key_tells :: "guid \<Rightarrow> db \<Rightarrow> read_key_response" where
  "read_key_tells g d =
     (let r = hd (keys_with_guid Main g d @ keys_with_guid Volatile g d)
      in \<lparr>rkp_name = kr_name r,
          rkp_parent_guid = (case kr_parent_guid r of Some p \<Rightarrow> if length p = 16 then p else zero_guid | None \<Rightarrow> zero_guid),
          rkp_sd = kr_sd r, rkp_volatile = (kr_volatile r \<noteq> 0), rkp_symlink = (kr_symlink r \<noteq> 0),
          rkp_last_write_time = kr_last_write_time r\<rparr>)"

definition read_key_reply :: "guid \<Rightarrow> db \<Rightarrow> reply" where
  "read_key_reply g d =
     (if key_taken g d then (status_ok, encode_read_key_response (read_key_tells g d) new_encoder) else (status_not_found, []))"

lemma holds_read_key:
  assumes "db_ok d0"
  shows "holds (\<lambda>d. d = d0) (read_key_full dl g) (\<lambda>m _. key_taken g d0 \<and> m = read_key_tells g d0)
    (\<lambda>e _. call_error e \<or> e = Err_No_Rows \<and> \<not> key_taken g d0)"
  unfolding read_key_full_def
proof (rule holds_and_then)
  have "keys_ok d0" using assms by (simp add: db_ok_def)
  from keys_ok_single [OF this]
  show "holds (\<lambda>d. d = d0) (sql_query_row dl (\<lambda>d. keys_with_guid Main g d @ keys_with_guid Volatile g d))
      (\<lambda>r d. d = d0 \<and> keys_with_guid Main g d0 @ keys_with_guid Volatile g d0 = [r])
      (\<lambda>e _. call_error e \<or> e = Err_No_Rows \<and> \<not> key_taken g d0)"
    by (intro holds_sql_query_row) (use key_taken_rows in auto)
qed (rule holds_ok, auto simp: read_key_tells_def key_taken_rows Let_def)

lemma read_key_answers:
  assumes "handle_read_key header payload w = (rep, w')" and "world_inv w" and "txnID header = i"
  shows "tells i (decode_read_key_request (new_decoder payload)) rkr_guid (\<lambda>req d rep. rep = read_key_reply (rkr_guid req) d) w rep"
  by (rule request_tells [OF assms(1) [unfolded handle_read_key_def] assms(3)], force simp: read_key_reply_def split: if_splits,
      rule decoded_tells, rule hive_tells [OF assms(2)], assumption+,
      rule read_tells [OF assms(2)], assumption+, rule holds_conseq [OF holds_read_key]) (auto simp: read_key_reply_def)

section \<open>Reads in a calm environment\<close>

text \<open>Without faults and before the deadline every reading action returns a result.\<close>

definition returns :: "nat \<Rightarrow> 'a act \<Rightarrow> bool" where
  "returns dl m \<longleftrightarrow> (\<forall>e d. env_events e = [] \<and> env_now e < dl \<longrightarrow> (\<exists>x. m (e, d) = (Inr x, e, d)))"

lemma returns_query: "returns dl (sql_query dl q)"
  by (simp add: returns_def calm_simps)

lemma returns_ok: "returns dl (ok x)"
  by (simp add: returns_def ok_def)

lemma returns_then: "returns dl m \<Longrightarrow> (\<And>x. returns dl (k x)) \<Longrightarrow> returns dl (and_then m k)"
  unfolding returns_def and_then_def by (metis (no_types, lifting) old.sum.simps(6) prod.case)

lemma returns_metadata: "returns dl (read_metadata_loop dl gs meta dangling)"
proof (induction gs arbitrary: meta dangling)
  case (Cons g gs)
  have step: "(\<exists>x. read_key_meta dl g (e, d) = (Inr x, e, d)) \<or> read_key_meta dl g (e, d) = (Inl Err_No_Rows, e, d)"
    if "env_events e = [] \<and> env_now e < dl" for e :: env and d
    using that by (cases "keys_with_guid Main g d @ keys_with_guid Volatile g d")
      (auto simp: read_key_meta_def and_then_def ok_def calm_simps)
  show ?case
    unfolding returns_def
  proof (intro allI impI)
    fix e :: env and d assume e: "env_events e = [] \<and> env_now e < dl"
    from step [OF e, of d] Cons e show "\<exists>x. read_metadata_loop dl (g # gs) meta dangling (e, d) = (Inr x, e, d)"
      by (auto simp: on_error_def returns_def)
  qed
qed (simp add: returns_ok)

lemma returns_reads: "returns dl (lookup_act dl lreq)" "returns dl (enum_children_act dl ereq)" "returns dl (query_values_act dl qreq)"
  unfolding lookup_act_def lookup_rows_def enum_children_act_def enum_rows_def query_values_act_def query_value_entries_def
    query_blanket_tombstones_def read_referenced_metadata_def Let_def case_prod_unfold
  by (intro returns_then returns_query returns_ok returns_metadata)+

text \<open>A request of no transaction, in time, for a key the cache knows.\<close>

definition undisturbed_read :: "request_header \<Rightarrow> guid \<Rightarrow> world \<Rightarrow> bool" where
  "undisturbed_read hdr g w \<longleftrightarrow> calm w \<and> 0 < w_budget w \<and> session hdr = 0 \<and> txnID hdr = 0 \<and> w_cache w g \<noteq> None"

lemma calm_read:
  assumes "undisturbed_read hdr (g req) w" and "dec = Some (req, d)" and "\<And>dl. returns dl (m dl req)"
  shows "fst (fst (with_request hdr (\<lambda>r. decoded dec (\<lambda>req. with_hive r (g req) (\<lambda>h.
      op_case (read_q r h) (\<lambda>e. answer (map_read_err e)) (\<lambda>q.
        op_case (run_on q (m (rq_deadline r) req)) (\<lambda>e. answer (s e)) (\<lambda>x w. ((status_ok, rep x), w)))))) w)) = status_ok"
proof -
  from assms(1) have calm: "calm w" "0 < w_budget w" "session hdr = 0" "txnID hdr = 0"
    by (simp_all add: undisturbed_read_def)
  obtain h where h: "w_cache w (g req) = Some h" using assms(1) by (auto simp: undisturbed_read_def)
  note alive = plain_deadline_ahead [OF calm(2)]
  have "env_events (w_env w) = [] \<and> env_now (w_env w) < plain_deadline w"
    using calm(1) alive by (simp add: calm_def ctx_done_def)
  with assms(3) [of "plain_deadline w"] obtain x where "m (plain_deadline w) req (w_env w, hive_db h w) = (Inr x, w_env w, hive_db h w)"
    unfolding returns_def by blast
  then have run: "run_on (Pool h) (m (plain_deadline w) req) w = (Inr x, w)" by (simp add: run_on_def view_def put_view_def)
  have "with_request hdr (\<lambda>r. decoded dec (\<lambda>req. with_hive r (g req) (\<lambda>h.
      op_case (read_q r h) (\<lambda>e. answer (map_read_err e)) (\<lambda>q.
        op_case (run_on q (m (rq_deadline r) req)) (\<lambda>e. answer (s e)) (\<lambda>x w. ((status_ok, rep x), w)))))) w = ((status_ok, rep x), w)"
    by (rule with_request_calm)
      (use calm alive h run assms(2) in \<open>simp_all add: decoded_def resolve_hive_cached op_case_def read_q_def lock_hive_def gate_acquire_calm\<close>)
  then show ?thesis by simp
qed

lemma calm_reads:
  "decode_lookup_request (new_decoder payload) = Some (lreq, d) \<Longrightarrow> undisturbed_read hdr (lkr_parent_guid lreq) w \<Longrightarrow>
   fst (fst (handle_lookup hdr payload w)) = status_ok"
  "decode_enum_children_request (new_decoder payload) = Some (ereq, d) \<Longrightarrow> undisturbed_read hdr (ecr_parent_guid ereq) w \<Longrightarrow>
   fst (fst (handle_enum_children hdr payload w)) = status_ok"
  "decode_query_values_request (new_decoder payload) = Some (qreq, d) \<Longrightarrow> undisturbed_read hdr (qvr_guid qreq) w \<Longrightarrow>
   fst (fst (handle_query_values hdr payload w)) = status_ok"
  unfolding handle_lookup_def handle_enum_children_def handle_query_values_def case_prod_unfold
  by (rule calm_read; assumption?; rule returns_reads)+

section \<open>Truthful reads\<close>

text \<open>
  OK: the payload says \<open>Q\<close> of what the transaction sees of the hive of the key.  NOT_FOUND: no
  served hive has the key.  Any other answer is a refusal without payload, which an undisturbed
  request never gets.
\<close>

definition truthful_read ::
  "request_header \<Rightarrow> ('r \<times> decoder) option \<Rightarrow> ('r \<Rightarrow> guid) \<Rightarrow> ('r \<Rightarrow> db \<Rightarrow> bytes \<Rightarrow> bool) \<Rightarrow> world \<Rightarrow> reply \<Rightarrow> bool" where
  "truthful_read hdr dec g Q w rep \<longleftrightarrow>
     (if fst rep = status_ok
      then \<exists>req d h. dec = Some (req, d) \<and> routed (g req) (txnID hdr) h w \<and> Q req (seen (txnID hdr) h w) (snd rep)
      else snd rep = [] \<and> (\<forall>req d. dec = Some (req, d) \<longrightarrow> \<not> undisturbed_read hdr (g req) w) \<and>
        (fst rep \<in> {status_invalid, status_txn_busy, status_storage_error} \<or>
         fst rep = status_not_found \<and> (\<exists>req d. dec = Some (req, d) \<and> absent (g req) (txnID hdr) w)))"

lemma tells_truthful:
  assumes "tells (txnID hdr) dec g Q' w rep"
    and "\<And>req d rep. Q' req d rep \<Longrightarrow> fst rep = status_ok \<and> Q req d (snd rep)"
    and "\<And>req d. dec = Some (req, d) \<Longrightarrow> undisturbed_read hdr (g req) w \<Longrightarrow> fst rep = status_ok"
  shows "truthful_read hdr dec g Q w rep"
proof (cases "fst rep = status_ok")
  case True
  with assms(1) have "\<exists>req d h. dec = Some (req, d) \<and> routed (g req) (txnID hdr) h w \<and> Q' req (seen (txnID hdr) h w) rep"
    using refusal_not_ok by (auto simp: tells_def status_defs)
  with True assms(2) show ?thesis unfolding truthful_read_def by metis
next
  case False
  with assms(1,2) have "snd rep = [] \<and> (refusal (fst rep) \<or>
      fst rep = status_not_found \<and> (\<exists>req d. dec = Some (req, d) \<and> absent (g req) (txnID hdr) w))"
    by (cases rep) (auto simp: tells_def)
  with False assms(3) show ?thesis by (auto simp: truthful_read_def refusal_def storage_failure_def)
qed

end
