(* ===== verification/Statuses.thy ===== *)
theory Statuses
  imports Txn_Laws
begin

unbundle bit_operations_syntax

text \<open>
  The replies a handler can give: seven of the ten statuses of the interface, and a payload only
  with OK.  The rules follow the shell every handler has (\<open>request.go\<close>, \<open>routing.go\<close>); an
  action that computes a status is covered by what it yields, whatever the storage does.
\<close>

definition reply_statuses :: "u32 set" where
  "reply_statuses = {status_ok, status_not_found, status_already_exists, status_storage_error, status_txn_busy, status_invalid, status_cas_failed}"

definition proper :: "reply \<Rightarrow> bool" where
  "proper rep \<longleftrightarrow> fst rep \<in> reply_statuses \<and> (fst rep \<noteq> status_ok \<longrightarrow> snd rep = [])"

lemma reply_statuses_mem [simp]:
  "status_ok \<in> reply_statuses" "status_not_found \<in> reply_statuses" "status_already_exists \<in> reply_statuses"
  "status_storage_error \<in> reply_statuses" "status_txn_busy \<in> reply_statuses" "status_invalid \<in> reply_statuses"
  "status_cas_failed \<in> reply_statuses" "storage_status e \<in> reply_statuses" "map_write_err e \<in> reply_statuses"
  "map_read_err e \<in> reply_statuses"
  by (simp_all add: reply_statuses_def storage_status_def map_write_err_def map_read_err_def)

section \<open>Actions that compute a status\<close>

definition yields :: "'a act \<Rightarrow> ('a \<Rightarrow> bool) \<Rightarrow> bool" where
  "yields m Q \<longleftrightarrow> (\<forall>s x s'. m s = (Inr x, s') \<longrightarrow> Q x)"

lemma yieldsD: "yields m Q \<Longrightarrow> m s = (Inr x, s') \<Longrightarrow> Q x"
  unfolding yields_def by blast

lemma yields_rules [act_rules]:
  "Q x \<Longrightarrow> yields (ok x) Q" "yields (fail e) Q"
  by (simp_all add: yields_def ok_def fail_def)

lemma yields_on_error [act_rules]:
  "(\<And>e. yields (h e) Q) \<Longrightarrow> (\<And>x. yields (k x) Q) \<Longrightarrow> yields (on_error m h k) Q"
  unfolding yields_def on_error_def by (force split: sum.splits prod.splits)

lemma yields_if [act_rules]: "yields m Q \<Longrightarrow> yields m' Q \<Longrightarrow> yields (if c then m else m') Q"
  by simp

abbreviation status_act :: "u32 act \<Rightarrow> bool" where
  "status_act m \<equiv> yields m (\<lambda>st. st \<in> reply_statuses)"

lemma status_acts:
  "status_act (create_entry_act dl req)" "status_act (create_key_act dl creq now)" "status_act (write_key_act dl wreq)"
  "status_act (set_value_cas dl st folded sreq)" "status_act (set_blanket_act dl breq)"
  unfolding create_entry_act_def create_entry_in_def create_key_act_def write_key_act_def write_key_in_def rows_status_def
    set_value_cas_def set_blanket_act_def Let_def
  by (intro act_rules; simp)+

lemma run_on_yields: "yields m Q \<Longrightarrow> run_on q m w = (Inr x, w') \<Longrightarrow> Q x"
  by (auto simp: run_on_def dest: yieldsD split: prod.splits)

section \<open>The shell\<close>

named_theorems reply_rules \<open>rules for the parts of a handler\<close>

lemma proper_answer [reply_rules]: "st \<in> reply_statuses \<Longrightarrow> proper (fst (answer st w))"
  by (simp add: answer_def proper_def)

lemma proper_payload [reply_rules]: "proper (fst ((status_ok, resp), w))"
  by (simp add: proper_def)

lemma proper_decoded [reply_rules]: "(\<And>req d w. proper (fst (k req w))) \<Longrightarrow> proper (fst (decoded dec k w))"
  by (auto simp: decoded_def intro: reply_rules split: option.split)

lemma proper_hive [reply_rules]: "(\<And>h w. proper (fst (k h w))) \<Longrightarrow> proper (fst (with_hive r g k w))"
  by (auto simp: with_hive_def resolve_hive_status_def intro!: proper_answer split: prod.split sum.split option.split)

lemma proper_case [reply_rules]:
  "(\<And>e w. proper (fst (h e w))) \<Longrightarrow> (\<And>x w. proper (fst (k x w))) \<Longrightarrow> proper (fst (op_case m h k w))"
  by (auto simp: op_case_def split: prod.split sum.split)

lemma proper_act [reply_rules]:
  "status_act m \<Longrightarrow> (\<And>e w. proper (fst (h e w))) \<Longrightarrow> (\<And>st w. st \<in> reply_statuses \<Longrightarrow> proper (fst (k st w))) \<Longrightarrow>
   proper (fst (op_case (run_on q m) h k w))"
  by (auto simp: op_case_def dest: run_on_yields split: prod.split sum.split)

lemma proper_if [reply_rules]:
  "proper (fst (p w)) \<Longrightarrow> proper (fst (p' w)) \<Longrightarrow> proper (fst ((if c then p else p') w))"
  "proper (fst x) \<Longrightarrow> proper (fst y) \<Longrightarrow> proper (fst (if c then x else y))"
  by simp_all

lemma proper_option [reply_rules]:
  "proper (fst (p w)) \<Longrightarrow> (\<And>x. proper (fst (k x w))) \<Longrightarrow> proper (fst ((case o1 of None \<Rightarrow> p | Some x \<Rightarrow> k x) w))"
  "proper (fst u) \<Longrightarrow> (\<And>x. proper (fst (v x))) \<Longrightarrow> proper (fst (case o1 of None \<Rightarrow> u | Some x \<Rightarrow> v x))"
  "(\<And>x. proper (fst (v x))) \<Longrightarrow> proper (fst u) \<Longrightarrow> proper (fst (case o1 of Some x \<Rightarrow> v x | None \<Rightarrow> u))"
  by (simp_all split: option.split)

lemma proper_pair [reply_rules]:
  "(\<And>x y. proper (fst (f x y w))) \<Longrightarrow> proper (fst ((case p of (x, y) \<Rightarrow> f x y) w))"
  by (simp split: prod.split)

lemma finish_proper: "finish_request r st w = (st', w') \<Longrightarrow> proper (st, resp) \<Longrightarrow> proper (st', resp)"
  by (auto simp: finish_request_def proper_def Let_def status_defs reply_statuses_def split: if_splits prod.splits bool.splits)

lemma proper_request [reply_rules]:
  assumes "\<And>r w. proper (fst (body r w))"
  shows "proper (fst (with_request header body w))"
proof -
  obtain res v where s: "start_request header w = (res, v)" by (cases "start_request header w")
  show ?thesis
  proof (cases res)
    case (Inl e)
    with s show ?thesis by (simp add: with_request_def proper_def)
  next
    case (Inr r)
    obtain st resp v1 where b: "body r v = ((st, resp), v1)" by (metis surj_pair)
    obtain st' v2 where f: "finish_request r st v1 = (st', v2)" by (cases "finish_request r st v1")
    from finish_proper [OF f] assms [of r v] have "proper (st', resp)" by (simp add: b)
    with s Inr b f show ?thesis by (simp add: with_request_def)
  qed
qed

section \<open>The handlers\<close>

lemma proper_reads:
  "proper (fst (handle_lookup header payload w))" "proper (fst (handle_enum_children header payload w))"
  "proper (fst (handle_read_key header payload w))" "proper (fst (handle_query_values header payload w))"
  "proper (fst (handle_flush header payload w))"
  unfolding handle_lookup_def handle_enum_children_def handle_read_key_def handle_query_values_def handle_flush_def Let_def
  by (intro reply_rules; simp)+

lemma proper_writes:
  "proper (fst (handle_create_entry header payload w))" "proper (fst (handle_delete_entry header payload w))"
  "proper (fst (handle_write_key header payload w))" "proper (fst (handle_delete_value_entry header payload w))"
  "proper (fst (handle_set_blanket_tombstone header payload w))" "proper (fst (handle_hide_entry header payload w))"
  "proper (fst (handle_create_key header payload w))" "proper (fst (handle_drop_key header payload w))"
  unfolding handle_create_entry_def handle_delete_entry_def handle_write_key_def handle_delete_value_entry_def
    handle_set_blanket_tombstone_def handle_hide_entry_def handle_create_key_def handle_drop_key_def Let_def
  by (intro reply_rules status_acts; simp)+

lemma local_cas_status: "fst (set_value_local_cas dl h st folded req w) \<in> reply_statuses"
proof -
  have "x \<in> reply_statuses" if "set_value_cas dl st folded req s = (Inr x, s')" for s s' x
    using yieldsD [OF status_acts(4) that] .
  then show ?thesis
    by (auto simp: set_value_local_cas_def Let_def split: sum.split prod.split)
qed

lemma proper_set_value: "proper (fst (handle_set_value header payload w))"
proof -
  have local: "proper (fst (let (status, w) = set_value_local_cas dl h st folded req w in answer status w))" for dl h st folded req w
    using local_cas_status [of dl h st folded req w] by (auto simp: proper_answer split: prod.split)
  show ?thesis
    unfolding handle_set_value_def Let_def [of "fold_string _"]
    by (intro reply_rules status_acts local; simp)
qed

lemma delete_layer_loop_status: "delete_layer_loop dl layer hs os w = (Inl st, w') \<Longrightarrow> st \<in> reply_statuses"
  by (induction dl layer hs os w rule: delete_layer_loop.induct) (auto split: sum.splits prod.splits if_splits)

lemma proper_delete_layer: "proper (fst (handle_delete_layer header payload w))"
  unfolding handle_delete_layer_def
  by (intro reply_rules)
    (auto dest: delete_layer_loop_status simp: answer_def proper_def Let_def split: sum.split prod.split)

lemma proper_control:
  "proper (fst (handle_begin_transaction header payload w))" "proper (fst (handle_abort_transaction header payload w))"
  "proper (fst (handle_commit_transaction header payload w))"
  unfolding handle_begin_transaction_def handle_abort_transaction_def handle_commit_transaction_def Let_def
  by (intro reply_rules; simp)+

lemma handlers_proper:
  assumes "register_handlers new_dispatcher op = Some h"
  shows "proper (fst (h header payload w))"
  using handler_cases [OF assms] proper_reads proper_writes proper_set_value proper_delete_layer proper_control by auto

end
