(* ===== verification/Write_Answers.thy ===== *)
theory Write_Answers
  imports Writes
begin

unbundle bit_operations_syntax

text \<open>
  The handlers that write in two ways, or in more than one table or hive: HIDE_ENTRY and
  SET_VALUE (a local transaction outside a transaction), CREATE_KEY, the deletions, DROP_KEY
  and DELETE_LAYER.  Each answer is shown to be one of the outcomes stated for its request.
\<close>

section \<open>HIDE_ENTRY and SET_VALUE\<close>

lemma local_answers:
  assumes "gentle i w v" and "i = 0" and "owned (g req) i h w" and "dec = Some (req, d)"
    and "holds (\<lambda>d. d = seen i h w) m (\<lambda>_ d'. Q req (seen i h w) status_ok d') (\<lambda>_ _. True)"
  shows "replies i dec g Q w (op_case (local_txn dl h m) (\<lambda>e. answer (storage_status e)) (\<lambda>_. answer status_ok) v)"
proof -
  obtain res v1 where run: "local_txn dl h m v = (res, v1)" by (cases "local_txn dl h m v")
  have "holds (\<lambda>d. d = hive_db h w) m (\<lambda>_ d'. Q req (seen i h w) status_ok d') (\<lambda>_ _. True)"
    using assms(2,5) by simp
  note out = local_txn_cases [OF run assms(1) [unfolded assms(2)] owned_served [OF assms(3)] this]
  show ?thesis
  proof (cases res)
    case (Inl e)
    with out have "gentle i w v1" using assms(2) by simp
    from refused [OF this, of "storage_status e"] run Inl show ?thesis by (simp add: op_case_def)
  next
    case (Inr x)
    with out assms(2) obtain d' where "Q req (seen i h w) status_ok d'" "rewrote i h d' w v1" by auto
    with run Inr assms(3,4) show ?thesis by (auto simp: op_case_def answer_def answers_def)
  qed
qed

lemma act_pinned:
  assumes "gentle i w v" and "writable i q h v" and "owned (g req) i h w" and "dec = Some (req, d)"
    and "holds (\<lambda>d. d = seen i h w) m (\<lambda>_ d'. Q req (seen i h w) status_ok d') (\<lambda>e d'. Q req (seen i h w) (storage_status e) d')"
  shows "replies i dec g Q w (op_case (run_on q m) (\<lambda>e. answer (storage_status e)) (\<lambda>_. answer status_ok) v)"
  by (rule act_answers [where st = "\<lambda>_. status_ok" and Q = Q and s = storage_status and g = g, OF assms])

text \<open>The probe for the key's store, shared by the two: a missing key is answered NOT_FOUND.\<close>

lemma store_probe_answers:
  assumes "gentle i w v" and "writable i q h v" and "owned (g req) i h w" and "dec = Some (req, d)"
    and "\<not> key_taken (g req) (seen i h w) \<Longrightarrow> Q req (seen i h w) status_not_found (seen i h w)"
    and "\<And>st v'. gentle i w v' \<Longrightarrow> writable i q h v' \<Longrightarrow> has_key st (g req) (seen i h w) \<Longrightarrow> replies i dec g Q w (k st v')"
  shows "replies i dec g Q w
    (op_case (run_on q (is_volatile_q dl (g req)))
       (\<lambda>e. answer (if e = Err_Key_Not_Found then status_not_found else storage_status e)) k v)"
proof (rule probe_answers [OF pure_is_volatile assms(1,2) _ assms(6)])
  let ?v = "snd (run_on q (is_volatile_q dl (g req)) v)"
  have "env_step v ?v" by (rule run_on_pure [OF pure_is_volatile])
  then have g1: "gentle i w ?v" by (rule gentle_trans [OF assms(1) gentle_env])
  have "\<not> poisoned i ?v" using writable_sound [OF assms(2)] seen_env [OF \<open>env_step v ?v\<close>] by simp
  then have same: "rewrote i h (seen i h w) w ?v"
    using gentleD(1) [OF g1] by (simp add: data_kept_def rewrote_def hives_kept_def)
  have none: "replies i dec g Q w (answer status_not_found ?v)" if "\<not> key_taken (g req) (seen i h w)"
    using same assms(3,4) assms(5) [OF that] by (auto simp: answers_def answer_def)
  have failed: "replies i dec g Q w (answer (storage_status e) ?v)" for e by (rule refused [OF g1]) simp
  show "holds (\<lambda>d. d = seen i h w) (is_volatile_q dl (g req)) (\<lambda>x _. has_key x (g req) (seen i h w))
     (\<lambda>e _. unchanged i w ?v \<longrightarrow> replies i dec g Q w (answer (if e = Err_Key_Not_Found then status_not_found else storage_status e) ?v))"
    by (rule holds_conseq [OF holds_is_volatile [where P = "\<lambda>d. d = seen i h w"]])
      (use none failed in \<open>auto simp: key_taken_def\<close>)
qed assumption+

lemma hide_entry_answers:
  assumes "handle_hide_entry header payload w = ((st, resp), w')" and "world_inv w" and "txnID header = i"
  shows "answers i (decode_hide_entry_request (new_decoder payload)) her_parent_guid hide_outcome w st w'"
proof (rule request_answers [OF assms(1) [unfolded handle_hide_entry_def Let_def] assms(3) set_outcome_blind(1)],
    rule decoded_answers, assumption, rule hive_answers [OF assms(2)], assumption+,
    rule write_answers, assumption+, rule gentle_known, assumption+,
    rule store_probe_answers [where g = her_parent_guid], assumption+)
  fix req :: hide_entry_request and h assume "\<not> key_taken (her_parent_guid req) (seen i h w)"
  then show "hide_outcome req (seen i h w) status_not_found (seen i h w)" by (simp add: hide_outcome_def)
next
  fix r :: request and v and req :: hide_entry_request and d h and q v1 v' sto v2
  assume "rq_txn r = i" and dec: "decode_hide_entry_request (new_decoder payload) = Some (req, d)" and served: "owned (her_parent_guid req) i h w"
    and key: "has_key sto (her_parent_guid req) (seen i h w)" and g: "gentle i w v2" and q: "writable i q h v2"
  have run: "holds (\<lambda>d. d = seen i h w) (replace_hidden_entry dl sto (fold_string (her_child_name req)) req)
      (\<lambda>_ d'. hide_outcome req (seen i h w) status_ok d') (\<lambda>e d'. hide_outcome req (seen i h w) (storage_status e) d')" for dl
    by (rule holds_conseq [OF holds_hide_entry]) (use key in \<open>auto simp: hide_outcome_def\<close>)
  have loc: "holds (\<lambda>d. d = seen i h w) (replace_hidden_entry dl sto (fold_string (her_child_name req)) req)
      (\<lambda>_ d'. hide_outcome req (seen i h w) status_ok d') (\<lambda>_ _. True)" for dl
    by (rule holds_conseq [OF run]) auto
  show "replies i (decode_hide_entry_request (new_decoder payload)) her_parent_guid hide_outcome w
      (op_case (if rq_txn r \<noteq> 0 then run_on q (replace_hidden_entry (rq_deadline r) sto (fold_string (her_child_name req)) req)
          else hide_entry_locally (rq_deadline r) h sto (fold_string (her_child_name req)) req)
        (\<lambda>e. answer (storage_status e)) (\<lambda>_. answer status_ok) v2)"
    using act_pinned [where Q = hide_outcome and g = her_parent_guid, OF g q served dec run] local_answers [where Q = hide_outcome and g = her_parent_guid, OF g _ served dec loc] \<open>rq_txn r = i\<close>
    by (simp add: hide_entry_locally_def)
qed

lemma local_cas_answers:
  assumes "gentle 0 w v" and "owned (g req) 0 h w" and "dec = Some (req, d)" and "db_ok (hive_db h w)"
    and "has_key sto (svr_guid req) (hive_db h w)" and "svr_expected_sequence req \<noteq> 0"
    and "set_value_local_cas dl h sto (fold_string (svr_value_name req)) req v = (st, v')"
  shows "answers 0 dec g set_value_outcome w st v'"
proof -
  let ?cas = "set_value_cas dl sto (fold_string (svr_value_name req)) req"
  obtain r1 w1 where a: "storage_call dl v = (r1, w1)" by (cases "storage_call dl v")
  obtain r2 w2 where b: "storage_call dl w1 = (r2, w2)" by (cases "storage_call dl w1")
  obtain r3 e3 d where c: "?cas (w_env w2, hive_db h w2) = (r3, e3, d)" by (cases "?cas (w_env w2, hive_db h w2)")
  obtain r4 w4 where f: "commit_conn dl (w2\<lparr>w_env := e3\<rparr>) = (r4, w4)" by (cases "commit_conn dl (w2\<lparr>w_env := e3\<rparr>)")
  have e1: "env_step v w1" using env_step_calls(2) [of v dl] a by simp
  have e2: "env_step v w2" using env_step_trans [OF e1] env_step_calls(2) [of w1 dl] b by simp
  have e3: "env_step v (w2\<lparr>w_env := e3\<rparr>)" by (rule env_step_trans [OF e2 env_stepI])
  have e4: "env_step v w4" using env_step_trans [OF e3] env_step_calls(3) [of "w2\<lparr>w_env := e3\<rparr>" dl] f by simp
  note g = gentle_trans [OF assms(1) gentle_env]
  have view: "hive_db h w2 = hive_db h w" using gentleD(1) [OF g [OF e2]] by (simp add: data_kept_def hives_kept_def)
  obtain status where r3: "r3 = Inr status" and out: "set_value_outcome req (hive_db h w) status d"
    using holdsD [OF holds_set_value_cas [of "hive_db h w" dl sto req] HOL.refl, of "w_env w2"] c view
      cas_is_outcome [OF _ assms(4,5,6)] by (cases r3) auto
  have same: "answers 0 dec g set_value_outcome w s u" if "gentle 0 w u" "set_value_outcome req (hive_db h w) s (hive_db h w)" for s u
    using gentle_rewrote [OF that(1) HOL.refl, of h] that(2) assms(2,3) by (auto simp: answers_def)
  have refuse: "answers 0 dec g set_value_outcome w s u" if "gentle 0 w u" "refusal s" for s u
    using that by (simp add: answers_def gentle_unchanged)
  have done_ok: "answers 0 dec g set_value_outcome w status_ok (publish h d w4)" if "status = status_ok"
  proof -
    have "find_hive h w4 \<noteq> None" using gentleD(1) [OF g [OF e4]] owned_served [OF assms(2)] by (simp add: data_kept_def)
    then have "rewrote 0 h d w4 (publish h d w4)" by (simp add: rewrote_def world_simps)
    then have "rewrote 0 h d w (publish h d w4)" using rewrote_after [OF g [OF e4]] poisoned_zero by blast
    with out that assms(2,3) show ?thesis by (auto simp: answers_def)
  qed
  have failed: "answers 0 dec g set_value_outcome w status (w2\<lparr>w_env := e3\<rparr>)" if "status \<noteq> status_ok"
  proof -
    have "d = hive_db h w" using out that by (auto simp: set_value_outcome_def)
    with same [OF g [OF e3]] out show ?thesis by simp
  qed
  show ?thesis
    using assms(7) a b c f r3 refuse [OF g [OF e1]] refuse [OF g [OF e2]] refuse [OF g [OF e4]] done_ok failed
    by (cases r1; cases r2; cases r4) (auto simp: set_value_local_cas_def Let_def split: if_splits)
qed

lemma set_value_answers:
  assumes "handle_set_value header payload w = ((st, resp), w')" and "world_inv w" and "txnID header = i"
  shows "answers i (decode_set_value_request (new_decoder payload)) svr_guid set_value_outcome w st w'"
proof (rule request_answers [OF assms(1) [unfolded handle_set_value_def Let_def] assms(3) set_outcome_blind(2)],
    rule decoded_answers, assumption, rule hive_answers [OF assms(2)], assumption+,
    rule write_answers, assumption+, rule gentle_known, assumption+,
    rule store_probe_answers [where g = svr_guid], assumption+)
  fix req :: set_value_request and h assume "\<not> key_taken (svr_guid req) (seen i h w)"
  then show "set_value_outcome req (seen i h w) status_not_found (seen i h w)" by (simp add: set_value_outcome_def)
next
  fix r :: request and v and req :: set_value_request and d h and q v1 v' sto v2
  assume r: "rq_txn r = i" and dec: "decode_set_value_request (new_decoder payload) = Some (req, d)" and served: "owned (svr_guid req) i h w"
    and key: "has_key sto (svr_guid req) (seen i h w)" and g: "gentle i w v2" and q: "writable i q h v2"
  let ?f = "fold_string (svr_value_name req)"
  have cas: "holds (\<lambda>d. d = seen i h w) (set_value_cas dl sto ?f req)
      (\<lambda>s d'. set_value_outcome req (seen i h w) s d') (\<lambda>_ _. False)" if "svr_expected_sequence req \<noteq> 0" for dl
    by (rule holds_conseq [OF holds_set_value_cas]) (use cas_is_outcome [OF _ seen_ok [OF assms(2)] key that] in auto)
  have plain: "holds (\<lambda>d. d = seen i h w) (sql_exec dl (\<lambda>d. Some (replace_value sto (set_value_row req ?f) d)))
      (\<lambda>_ d'. set_value_outcome req (seen i h w) status_ok d') (\<lambda>e d'. set_value_outcome req (seen i h w) (storage_status e) d')"
    if "svr_expected_sequence req = 0" for dl
    by (rule holds_conseq [OF holds_exec_total])
      (use key that in \<open>auto simp: set_value_outcome_def set_value_code\<close>)
  have local: "replies i (decode_set_value_request (new_decoder payload)) svr_guid set_value_outcome w
      (case set_value_local_cas dl h sto ?f req v2 of (status, u) \<Rightarrow> answer status u)"
    if "i = 0" "svr_expected_sequence req \<noteq> 0" for dl
    using local_cas_answers [where g = svr_guid, OF g [unfolded that(1)] served [unfolded that(1)] dec _ _ that(2), of sto dl] seen_ok [OF assms(2), of i h] key that(1)
    by (auto simp: answer_def split: prod.split)
  have in_txn: "replies i (decode_set_value_request (new_decoder payload)) svr_guid set_value_outcome w
      (op_case (run_on q (set_value_cas dl sto ?f req)) (\<lambda>e. answer (storage_status e)) answer v2)"
    if "svr_expected_sequence req \<noteq> 0" for dl
    by (rule act_answers [where Q = set_value_outcome and s = storage_status and g = svr_guid, OF g q served dec], rule holds_conseq [OF cas [OF that]]) auto
  show "replies i (decode_set_value_request (new_decoder payload)) svr_guid set_value_outcome w
      (if svr_expected_sequence req \<noteq> 0
       then if rq_txn r = 0
         then case set_value_local_cas (rq_deadline r) h sto ?f req v2 of (status, u) \<Rightarrow> answer status u
         else op_case (run_on q (set_value_cas (rq_deadline r) sto ?f req)) (\<lambda>e. answer (storage_status e)) answer v2
       else op_case (run_on q (sql_exec (rq_deadline r) (\<lambda>d. Some (replace_value sto (set_value_row req ?f) d))))
              (\<lambda>e. answer (storage_status e)) (\<lambda>_. answer status_ok) v2)"
    using local in_txn act_pinned [where Q = set_value_outcome and g = svr_guid, OF g q served dec plain] r by simp
qed

section \<open>CREATE_KEY\<close>

definition key_outcome :: "create_key_request \<Rightarrow> db \<Rightarrow> u32 \<Rightarrow> db \<Rightarrow> bool" where
  "key_outcome req d0 status d \<longleftrightarrow> (\<exists>now. create_key_outcome req now d0 status d)"

lemma key_outcome_blind: "storage_blind key_outcome"
  by (auto simp: storage_blind_def key_outcome_def create_key_outcome_def storage_failure_def status_defs)

lemma answers_bookkeeping:
  assumes "answers i dec g Q w st v"
    and "\<And>h d. rewrote i h d w v \<Longrightarrow> rewrote i h d w v'" and "unchanged i w v \<Longrightarrow> unchanged i w v'"
  shows "answers i dec g Q w st v'"
  using assms unfolding answers_def by blast

lemma unchanged_updates:
  "unchanged i w v \<Longrightarrow> unchanged i w (cache_store g k v)"
  "unchanged i w v \<Longrightarrow> unchanged i w (cache_delete g v)"
  "unchanged i w v \<Longrightarrow> unchanged i w (add_abort_hook i g v)"
  "unchanged i w v \<Longrightarrow> unchanged i w (add_commit_hook i g v)"
proof -
  have hooked: "poisoned i v \<Longrightarrow> poisoned i (add_abort_hook i g v)" "poisoned i v \<Longrightarrow> poisoned i (add_commit_hook i g v)"
    "seen i k (add_abort_hook i g v) = seen i k v" "seen i k (add_commit_hook i g v) = seen i k v"
    "hive_db k (add_abort_hook i g v) = hive_db k v" "hive_db k (add_commit_hook i g v) = hive_db k v" for k
  proof -
    show "seen i k (add_abort_hook i g v) = seen i k v" "seen i k (add_commit_hook i g v) = seen i k v"
      by (auto simp: add_abort_hook_def add_commit_hook_def seen_put world_simps split: option.split) (simp_all add: seen_def)
  qed (auto simp: poisoned_def add_abort_hook_def add_commit_hook_def world_simps split: option.split)
  show "unchanged i w v \<Longrightarrow> unchanged i w (add_abort_hook i g v)" "unchanged i w v \<Longrightarrow> unchanged i w (add_commit_hook i g v)"
    using hooked by (auto simp: unchanged_def hives_kept_def)
qed (simp_all add: unchanged_def hives_kept_def world_simps)

lemma resolve_parent_gentle: "gentle (rq_txn r) w (snd (resolve_parent r g w))"
  using gentle.resolved [of "rq_txn r" w r g] gentle_trans [OF _ gentle.elapsed]
  by (auto simp: resolve_parent_def case_prod_beta split: sum.split option.split)

lemma resolve_parent_none:
  "resolve_parent r g w = (Inr None, w') \<Longrightarrow> world_inv w \<Longrightarrow> absent g (rq_txn r) w"
  using resolve_hive_located [of r g w None]
  by (cases "resolve_hive r g w") (auto simp: resolve_parent_def split: sum.splits option.splits prod.splits)

lemma find_root_listed:
  "find_root g hs = Some h \<Longrightarrow> set hs = set (w_hives w) \<Longrightarrow> (h, g) \<in> set (roots w)"
proof -
  assume found: "find_root g hs = Some h" and "set hs = set (w_hives w)"
  from found obtain hv where "find (\<lambda>(k, hv). hv_root_guid hv = g) hs = Some (h, hv)"
    unfolding find_root_def by auto
  then obtain n where "n < length hs" "hv_root_guid hv = g" "hs ! n = (h, hv)"
    unfolding find_Some_iff by auto
  with nth_mem [of n hs] \<open>set hs = _\<close> show ?thesis by (force simp: roots_def)
qed

lemma resolve_parent_owned:
  assumes "resolve_parent r g w = (Inr (Some h), w')" and "world_inv w"
  shows "w_cache w g = Some h \<or> key_taken g (seen (rq_txn r) h w) \<or> (h, g) \<in> set (roots w)"
proof -
  obtain res w1 where run: "resolve_hive r g w = (res, w1)" by (cases "resolve_hive r g w")
  consider (found) "res = Inr (Some h)" | (root) "res = Inr None" "(h, g) \<in> set (roots w1)"
    using assms(1) run
    by (auto simp: resolve_parent_def elapse_def dest!: find_root_listed [where w = w1] split: sum.splits option.splits prod.splits)
  then show ?thesis
  proof cases
    case found
    with resolve_hive_located [of r g w "Some h" w1] run assms(2) show ?thesis by auto
  next
    case root
    moreover have "roots w1 = roots w"
      using gentleD(1) [OF gentle.resolved [of "rq_txn r" w r g]] run by (simp add: data_kept_def)
    ultimately show ?thesis by simp
  qed
qed

lemma create_key_answers:
  assumes "handle_create_key header payload w = ((st, resp), w')" and "world_inv w" and "txnID header = i"
  shows "answers i (decode_create_key_request (new_decoder payload)) ckr_parent_guid key_outcome w st w'"
proof (rule request_answers [OF assms(1) [unfolded handle_create_key_def] assms(3) key_outcome_blind], rule decoded_answers, assumption)
  fix r :: request and v req d
  assume r: "rq_txn r = i" and g: "gentle i w v" and same: "begun i w v"
    and dec: "decode_create_key_request (new_decoder payload) = Some (req, d)"
  let ?A = "replies i (decode_create_key_request (new_decoder payload)) ckr_parent_guid key_outcome w"
  let ?settle = "\<lambda>h status w. if status = status_ok
      then let w = cache_store (ckr_guid req) h w;
               w = (if rq_txn r \<noteq> 0 then add_abort_hook (rq_txn r) (ckr_guid req) w else w)
           in answer status_ok w
      else answer status w"
  have settled: "?A (?settle h status u)" if "?A (answer status u)" for h status u
  proof -
    have 1: "?A (answer status (cache_store (ckr_guid req) h u))"
      using answers_bookkeeping [OF that] rewrote_updates(1) unchanged_updates(1) by (simp add: answer_def)
    have 2: "?A (answer status (add_abort_hook i (ckr_guid req) (cache_store (ckr_guid req) h u)))"
      using answers_bookkeeping [OF 1] rewrote_updates(4) unchanged_updates(3) by (simp add: answer_def)
    show ?thesis using that 1 2 r by (cases "status = status_ok"; cases "i = 0") (simp_all add: Let_def)
  qed
  have body: "?A (op_case (write_q r h) (\<lambda>e. answer (map_write_err e)) (\<lambda>q w.
      op_case (run_on q (create_key_act (rq_deadline r) req (unix_nano w))) (\<lambda>e. answer (storage_status e)) (?settle h) w) v1)"
    if g1: "gentle i w v1" and served: "owned (ckr_parent_guid req) i h w" for h v1
  proof (rule write_answers [OF g1 r gentle_known [OF g1 served]])
    fix q v2 assume g2: "gentle i w v2" and q: "writable i q h v2"
    have "holds (\<lambda>d. d = seen i h w) (create_key_act (rq_deadline r) req (unix_nano v2))
        (\<lambda>s d'. key_outcome req (seen i h w) s d') (\<lambda>e d'. key_outcome req (seen i h w) (storage_status e) d')"
      by (rule holds_conseq [OF holds_create_key]) (auto simp: key_outcome_def)
    from act_answers [where Q = key_outcome and s = storage_status and g = ckr_parent_guid and st = "\<lambda>x. x", OF g2 q served dec this]
    have *: "?A (op_case (run_on q (create_key_act (rq_deadline r) req (unix_nano v2))) (\<lambda>e. answer (storage_status e)) answer v2)" .
    show "?A (op_case (run_on q (create_key_act (rq_deadline r) req (unix_nano v2))) (\<lambda>e. answer (storage_status e)) (?settle h) v2)"
    proof (cases "run_on q (create_key_act (rq_deadline r) req (unix_nano v2)) v2")
      case (Pair res u)
      show ?thesis
      proof (cases res)
        case (Inr status)
        with Pair * have "?A (answer status u)" by (simp add: op_case_def)
        from settled [OF this] Pair Inr show ?thesis by (simp add: op_case_def)
      qed (use * Pair in \<open>simp add: op_case_def\<close>)
    qed
  qed
  obtain res v1 where run: "resolve_parent r (ckr_parent_guid req) v = (res, v1)" by (cases "resolve_parent r (ckr_parent_guid req) v")
  have g1: "gentle i w v1" using gentle_trans [OF g] resolve_parent_gentle [of r v "ckr_parent_guid req"] run r by simp
  consider (err) e where "res = Inl e" | (none) "res = Inr None" | (found) h where "res = Inr (Some h)"
    by (cases res; auto)
  then show "?A (op_case (resolve_parent r (ckr_parent_guid req)) (\<lambda>e. answer (storage_status e)) (\<lambda>found.
      case found of None \<Rightarrow> answer status_not_found
      | Some h \<Rightarrow> op_case (write_q r h) (\<lambda>e. answer (map_write_err e)) (\<lambda>q w.
          op_case (run_on q (create_key_act (rq_deadline r) req (unix_nano w))) (\<lambda>e. answer (storage_status e)) (?settle h) w)) v)"
  proof cases
    case err
    with run refused [OF g1, of "storage_status e"] show ?thesis by (simp add: op_case_def)
  next
    case none
    from resolve_parent_none [of r _ v v1] run none gentleD(2) [OF g assms(2)] r have "absent (ckr_parent_guid req) i v" by simp
    from begun_absent [OF same g this] none run dec gentle_unchanged [OF g1] show ?thesis by (simp add: op_case_def answers_def answer_def)
  next
    case found
    have "known h v1" by (rule inv.resolve_parent_known) (use run found in simp)
    from gentle_served [OF g1 assms(2) this] resolve_parent_owned [of r _ v h v1] run found gentleD [OF g] assms(2) same r
    have "owned (ckr_parent_guid req) i h w" by (auto simp: owned_def routed_def begun_def data_kept_def)
    from body [OF g1 this] run found show ?thesis by (simp add: op_case_def)
  qed
qed

section \<open>Deletions\<close>

definition without_key :: "guid \<Rightarrow> schema \<Rightarrow> schema" where
  "without_key g s =
     \<lparr>s_keys = filter (\<lambda>r. kr_guid r \<noteq> g) (s_keys s),
      s_path_entries = filter (\<lambda>r. pr_target_guid r \<noteq> Some g) (s_path_entries s),
      s_values = filter (\<lambda>r. vr_key_guid r \<noteq> g) (s_values s),
      s_blankets = filter (\<lambda>r. br_key_guid r \<noteq> g) (s_blankets s)\<rparr>"

definition without_layer :: "bytes \<Rightarrow> schema \<Rightarrow> schema" where
  "without_layer layer s = s\<lparr>
     s_path_entries := filter (\<lambda>r. pr_layer r \<noteq> layer) (s_path_entries s),
     s_values := filter (\<lambda>r. vr_layer r \<noteq> layer) (s_values s),
     s_blankets := filter (\<lambda>r. br_layer r \<noteq> layer) (s_blankets s)\<rparr>"

definition without_entry :: "guid \<Rightarrow> bytes \<Rightarrow> bytes \<Rightarrow> schema \<Rightarrow> schema" where
  "without_entry g folded layer s = s\<lparr>s_path_entries := filter (\<lambda>r. \<not> path_key g folded layer r) (s_path_entries s)\<rparr>"

definition without_value :: "guid \<Rightarrow> bytes \<Rightarrow> bytes \<Rightarrow> schema \<Rightarrow> schema" where
  "without_value g folded layer s = s\<lparr>s_values := filter (\<lambda>r. \<not> value_key g folded layer r) (s_values s)\<rparr>"

definition both :: "(schema \<Rightarrow> schema) \<Rightarrow> db \<Rightarrow> db" where
  "both f d = \<lparr>db_main = f (db_main d), db_volatile = f (db_volatile d)\<rparr>"

lemma apply_drop: "apply_all (drop_deletes g) d = both (without_key g) d"
  by (cases d; cases "db_main d"; cases "db_volatile d") (simp add: drop_deletes_def both_def without_key_def delete_where_def)

lemma apply_layer: "apply_all (layer_deletes layer) d = both (without_layer layer) d"
  by (cases d; cases "db_main d"; cases "db_volatile d") (simp add: layer_deletes_def both_def without_layer_def delete_where_def)

lemma apply_delete_entry:
  "apply_all [delete_entry_key Main g folded layer, delete_entry_key Volatile g folded layer] d = both (without_entry g folded layer) d"
  by (cases d; cases "db_main d"; cases "db_volatile d") (simp add: delete_entry_key_def both_def without_entry_def delete_where_def)

lemma apply_delete_value:
  "apply_all [delete_value_key Main g folded layer, delete_value_key Volatile g folded layer] d = both (without_value g folded layer) d"
  by (cases d; cases "db_main d"; cases "db_volatile d") (simp add: delete_value_key_def both_def without_value_def delete_where_def)

text \<open>A deletion that ended: all of its statements ran when it answers OK, the first few otherwise.\<close>

definition deletion_outcome :: "('r \<Rightarrow> (db \<Rightarrow> db) list) \<Rightarrow> 'r \<Rightarrow> db \<Rightarrow> u32 \<Rightarrow> db \<Rightarrow> bool" where
  "deletion_outcome fs req d0 status d \<longleftrightarrow>
     status = status_ok \<and> d = apply_all (fs req) d0 \<or> storage_failure status \<and> run_prefix (fs req) d0 d"

lemma deletion_blind: "storage_blind (deletion_outcome fs)"
  by (auto simp: storage_blind_def deletion_outcome_def storage_failure_def status_defs)

lemma holds_deletion:
  "holds (\<lambda>d. d = d0) (exec_all dl (fs req)) (\<lambda>_ d'. deletion_outcome fs req d0 status_ok d')
     (\<lambda>e d'. deletion_outcome fs req d0 (storage_status e) d')"
  by (rule holds_conseq [OF holds_exec_all]) (auto simp: deletion_outcome_def)

abbreviation entry_deletions :: "delete_entry_request \<Rightarrow> (db \<Rightarrow> db) list" where
  "entry_deletions req \<equiv>
     [delete_entry_key Main (der_parent_guid req) (fold_string (der_child_name req)) (der_layer_name req),
      delete_entry_key Volatile (der_parent_guid req) (fold_string (der_child_name req)) (der_layer_name req)]"

abbreviation value_deletions :: "delete_value_entry_request \<Rightarrow> (db \<Rightarrow> db) list" where
  "value_deletions req \<equiv>
     [delete_value_key Main (dvr_guid req) (fold_string (dvr_value_name req)) (dvr_layer_name req),
      delete_value_key Volatile (dvr_guid req) (fold_string (dvr_value_name req)) (dvr_layer_name req)]"

lemma delete_entry_answers:
  assumes "handle_delete_entry header payload w = ((st, resp), w')" and "world_inv w" and "txnID header = i"
  shows "answers i (decode_delete_entry_request (new_decoder payload)) der_parent_guid (deletion_outcome entry_deletions) w st w'"
  by (rule request_answers [OF assms(1) [unfolded handle_delete_entry_def delete_entry_is_exec_all] assms(3) deletion_blind],
      rule decoded_answers, assumption, rule hive_answers [OF assms(2)], assumption+,
      rule write_answers, assumption+, rule gentle_known, assumption+,
      rule act_pinned, assumption+, rule holds_deletion)

lemma delete_value_answers:
  assumes "handle_delete_value_entry header payload w = ((st, resp), w')" and "world_inv w" and "txnID header = i"
  shows "answers i (decode_delete_value_entry_request (new_decoder payload)) dvr_guid (deletion_outcome value_deletions) w st w'"
  by (rule request_answers [OF assms(1) [unfolded handle_delete_value_entry_def delete_value_is_exec_all] assms(3) deletion_blind],
      rule decoded_answers, assumption, rule hive_answers [OF assms(2)], assumption+,
      rule write_answers, assumption+, rule gentle_known, assumption+,
      rule act_pinned, assumption+, rule holds_deletion)

section \<open>DROP_KEY\<close>

abbreviation key_deletions :: "drop_key_request \<Rightarrow> (db \<Rightarrow> db) list" where
  "key_deletions req \<equiv> drop_deletes (dkr_guid req)"

text \<open>Dropping a key no hive has is answered OK and changes nothing.\<close>

definition drop_answers :: "u64 \<Rightarrow> bytes \<Rightarrow> world \<Rightarrow> u32 \<Rightarrow> world \<Rightarrow> bool" where
  "drop_answers i payload w st w' \<longleftrightarrow>
     answers i (decode_drop_key_request (new_decoder payload)) dkr_guid (deletion_outcome key_deletions) w st w' \<or>
     st = status_ok \<and> unchanged i w w' \<and>
       (\<exists>req d. decode_drop_key_request (new_decoder payload) = Some (req, d) \<and> absent (dkr_guid req) i w)"

lemma drop_key_answers:
  assumes "handle_drop_key header payload w = ((st, resp), w')" and "world_inv w" and "txnID header = i"
  shows "drop_answers i payload w st w'"
proof (rule request_rule [OF assms(1) [unfolded handle_drop_key_def] assms(3), where A = "drop_answers i payload w"])
  show "drop_answers i payload w (map_write_err e) v" if "gentle i w v" for e v
    unfolding drop_answers_def by (rule disjI1, rule refusal_answers [OF that]) simp
next
  fix r :: request and st v st' v'
  assume A: "drop_answers i payload w st v" and f: "finish_request r st v = (st', v')" and r: "rq_txn r = i"
  note fin = finish_cases [OF f r]
  show "drop_answers i payload w st' v'"
  proof (cases "answers i (decode_drop_key_request (new_decoder payload)) dkr_guid (deletion_outcome key_deletions) w st v")
    case True
    from finish_answers [OF this f r deletion_blind] show ?thesis by (simp add: drop_answers_def)
  next
    case False
    with A have ok: "st = status_ok" "unchanged i w v"
      "\<exists>req d. decode_drop_key_request (new_decoder payload) = Some (req, d) \<and> absent (dkr_guid req) i w"
      by (auto simp: drop_answers_def)
    have "unchanged i w v'" using ok(2) fin by (auto simp: unchanged_def gentle_def data_kept_def hives_kept_def)
    moreover have "st' = status_ok" using fin ok(1) by (auto simp: status_defs)
    ultimately show ?thesis using ok(3) by (simp add: drop_answers_def)
  qed
next
  fix r :: request and v
  assume r: "rq_txn r = i" and g: "gentle i w v" and same: "begun i w v"
  let ?dec = "decode_drop_key_request (new_decoder payload)"
  let ?A = "replies i ?dec dkr_guid (deletion_outcome key_deletions) w"
  let ?run = "\<lambda>req h q. if rq_txn r = 0 then local_txn (rq_deadline r) h (tx_exec_all (rq_deadline r) (drop_deletes (dkr_guid req)))
      else run_on q (exec_all (rq_deadline r) (drop_deletes (dkr_guid req)))"
  let ?settle = "\<lambda>req w. answer status_ok (if rq_txn r \<noteq> 0 then add_commit_hook (rq_txn r) (dkr_guid req) w else cache_delete (dkr_guid req) w)"
  let ?found = "\<lambda>req found. case found of None \<Rightarrow> answer status_ok
      | Some h \<Rightarrow> op_case (write_q r h) (\<lambda>e. answer (map_write_err e)) (\<lambda>q.
          op_case (?run req h q) (\<lambda>e. answer (storage_status e)) (\<lambda>_. ?settle req))"
  have settled: "?A (?settle req u)" if "?A (answer status_ok u)" for req u
  proof -
    have "?A (answer status_ok (cache_delete (dkr_guid req) u))"
      using answers_bookkeeping [OF that] rewrote_updates(2) unchanged_updates(2) by (simp add: answer_def)
    moreover have "?A (answer status_ok (add_commit_hook i (dkr_guid req) u))"
      using answers_bookkeeping [OF that] rewrote_updates(5) unchanged_updates(4) by (simp add: answer_def)
    ultimately show ?thesis using r by (cases "i = 0") simp_all
  qed
  have body: "?A (op_case (write_q r h) (\<lambda>e. answer (map_write_err e)) (\<lambda>q.
      op_case (?run req h q) (\<lambda>e. answer (storage_status e)) (\<lambda>_. ?settle req)) v1)"
    if dec: "?dec = Some (req, d)" and g1: "gentle i w v1" and served: "owned (dkr_guid req) i h w" for req d h v1
  proof (rule write_answers [OF g1 r gentle_known [OF g1 served]])
    fix q v2 assume g2: "gentle i w v2" and q: "writable i q h v2"
    have loc: "holds (\<lambda>d. d = seen i h w) (tx_exec_all (rq_deadline r) (drop_deletes (dkr_guid req)))
        (\<lambda>_ d'. deletion_outcome key_deletions req (seen i h w) status_ok d') (\<lambda>_ _. True)"
      by (rule holds_conseq [OF holds_tx_exec_all]) (auto simp: deletion_outcome_def)
    note done_local = local_answers [where Q = "deletion_outcome key_deletions" and g = dkr_guid, OF g2 _ served dec loc]
    note done_pinned = act_pinned [where Q = "deletion_outcome key_deletions" and g = dkr_guid, OF g2 q served dec holds_deletion]
    have *: "?A (op_case (?run req h q) (\<lambda>e. answer (storage_status e)) (\<lambda>_. answer status_ok) v2)"
      using done_local done_pinned r by (cases "i = 0") simp_all
    show "?A (op_case (?run req h q) (\<lambda>e. answer (storage_status e)) (\<lambda>_. ?settle req) v2)"
    proof (cases "?run req h q v2")
      case (Pair res u)
      with * settled [of u req] show ?thesis by (cases res) (simp_all add: op_case_def)
    qed
  qed
  let ?p = "decoded ?dec (\<lambda>req. op_case (resolve_hive r (dkr_guid req)) (\<lambda>e. answer (storage_status e)) (?found req)) v"
  show "drop_answers i payload w (fst (fst ?p)) (snd ?p)"
  proof (cases ?dec)
    case None
    then show ?thesis
      unfolding drop_answers_def by (intro disjI1) (simp add: decoded_def answer_def refusal_answers [OF g])
  next
    case (Some rd)
    then obtain req d where dec: "?dec = Some (req, d)" by (cases rd) simp
    obtain res v1 where run: "resolve_hive r (dkr_guid req) v = (res, v1)" by (cases "resolve_hive r (dkr_guid req) v")
    have g1: "gentle i w v1" using gentle_trans [OF g gentle.resolved] run by (metis snd_conv)
    consider (err) e where "res = Inl e" | (none) "res = Inr None" | (found) h where "res = Inr (Some h)"
      by (cases res; auto)
    then show ?thesis
    proof cases
      case err
      with run dec show ?thesis
        unfolding drop_answers_def by (intro disjI1) (simp add: decoded_def op_case_def answer_def refusal_answers [OF g1])
    next
      case none
      from resolve_hive_located [of r _ v None v1] run none gentleD(2) [OF g assms(2)] r have "absent (dkr_guid req) i v" by simp
      from begun_absent [OF same g this] none run dec gentle_unchanged [OF g1] show ?thesis
        by (simp add: drop_answers_def decoded_def op_case_def answer_def)
    next
      case found
      have "known h v1" by (rule resolve_hive_known) (use run found in simp)
      from gentle_served [OF g1 assms(2) this] resolve_hive_located [of r _ v "Some h" v1] run found gentleD(2) [OF g assms(2)] same r
      have "owned (dkr_guid req) i h w" by (auto simp: owned_def routed_def begun_def)
      from body [OF dec g1 this] run found dec show ?thesis
        by (simp add: drop_answers_def decoded_def op_case_def)
    qed
  qed
qed

section \<open>DELETE_LAYER\<close>

lemma local_txn_registry: "find_hive k (snd (local_txn dl h m w)) = None \<longleftrightarrow> find_hive k w = None"
proof -
  have step: "find_hive k (snd (m w)) = None \<longleftrightarrow> find_hive k w = None" if "env_step w (snd (m w))" for m :: "world \<Rightarrow> 'x \<times> world" and w
    using env_step_sees(2) [OF that] by simp
  have calls: "find_hive k (snd (storage_call dl w)) = find_hive k w" "find_hive k (snd (commit_conn dl w)) = find_hive k w" for w
    using env_step_sees(2) [OF env_step_calls(2)] env_step_sees(2) [OF env_step_calls(3)] by blast+
  show ?thesis
    using calls by (auto simp: local_txn_def and_then_def world_simps case_prod_beta split: sum.split)
qed

text \<open>The GUIDs a database would no longer reach without the layer.\<close>

definition layer_orphan :: "bytes \<Rightarrow> db \<Rightarrow> guid \<Rightarrow> bool" where
  "layer_orphan layer d g \<longleftrightarrow>
     (\<exists>st. \<exists>r\<in>set (s_path_entries (schema_of st d)). pr_layer r = layer \<and> pr_target_guid r = Some g) \<and>
     (\<forall>st. \<forall>r\<in>set (s_path_entries (schema_of st d)). pr_target_guid r = Some g \<longrightarrow> pr_layer r = layer)"

lemma path_rows_ok: "db_ok d \<Longrightarrow> r \<in> set (s_path_entries (schema_of st d)) \<Longrightarrow> path_row_ok r"
  unfolding db_ok_cases [of _ st] by (auto simp: table_ok_def list_all_iff)

lemma ex_store: "(\<exists>st. P st) \<longleftrightarrow> P Main \<or> P Volatile"
  by (metis store.exhaust)

lemma layer_targets_iff:
  assumes "db_ok d"
  shows "t \<in> set (layer_targets P Main d @ layer_targets P Volatile d) \<longleftrightarrow>
    (\<exists>g st. t = Some g \<and> (\<exists>r\<in>set (s_path_entries (schema_of st d)). P (pr_layer r) \<and> pr_target_guid r = Some g))"
proof -
  have "pr_target_type r = target_guid_type \<longleftrightarrow> (\<exists>g. pr_target_guid r = Some g)" if "r \<in> set (s_path_entries (schema_of st d))" for r st
    using path_rows_ok [OF assms that] by (auto simp: path_row_ok_def target_guid_type_def target_hidden_type_def split: option.splits)
  then have "t \<in> set (layer_targets P st d) \<longleftrightarrow>
      (\<exists>g. t = Some g \<and> (\<exists>r\<in>set (s_path_entries (schema_of st d)). P (pr_layer r) \<and> pr_target_guid r = Some g))" for st
    by (auto simp: layer_targets_def image_iff) force+
  then show ?thesis unfolding set_append Un_iff by (auto simp only: ex_store)
qed

lemma orphan_rows_exact:
  assumes "db_ok d"
  shows "set (map scan_orphan (orphan_rows layer d)) = {g. layer_orphan layer d g}"
proof -
  let ?here = "layer_targets (\<lambda>l. l = layer) Main d @ layer_targets (\<lambda>l. l = layer) Volatile d"
  let ?other = "layer_targets (\<lambda>l. l \<noteq> layer) Main d @ layer_targets (\<lambda>l. l \<noteq> layer) Volatile d"
  note targets = layer_targets_iff [OF assms]
  have "None \<notin> set ?other" using targets by blast
  then have not_in: "sql_not_in (Some g) ?other \<longleftrightarrow> Some g \<notin> set ?other" for g
    unfolding sql_not_in_def by (metis empty_iff list.set(1) option.discI)
  have here: "t \<in> set (orphan_rows layer d) \<longleftrightarrow> (\<exists>g. t = Some g \<and> layer_orphan layer d g)" for t
  proof -
    have "t \<in> set (orphan_rows layer d) \<longleftrightarrow> t \<in> set ?here \<and> sql_not_in t ?other"
      unfolding orphan_rows_def Let_def by auto
    also have "\<dots> \<longleftrightarrow> (\<exists>g. t = Some g \<and> Some g \<in> set ?here \<and> Some g \<notin> set ?other)"
      using not_in targets [of t "\<lambda>l. l = layer"] by blast
    finally show ?thesis unfolding targets layer_orphan_def by blast
  qed
  have len: "length g = 16" if g: "layer_orphan layer d g" for g
  proof -
    obtain st r where "r \<in> set (s_path_entries (schema_of st d))" "pr_target_guid r = Some g" using g by (auto simp: layer_orphan_def)
    with path_rows_ok [OF assms] show ?thesis by (fastforce simp: path_row_ok_def)
  qed
  show ?thesis
  proof (intro set_eqI iffI)
    fix g assume "g \<in> {g. layer_orphan layer d g}"
    then have "Some g \<in> set (orphan_rows layer d)" "scan_orphan (Some g) = g" by (simp_all add: here scan_orphan_def len)
    then show "g \<in> set (map scan_orphan (orphan_rows layer d))" by force
  qed (auto simp: here scan_orphan_def len)
qed

lemma both_layer_ok: "db_ok d \<Longrightarrow> db_ok (both (without_layer layer) d)"
  unfolding apply_layer [symmetric] by (elim apply_all_keeps) (auto simp: layer_deletes_def intro: db_ok_delete)

lemma schema_of_both: "schema_of st (both f d) = f (schema_of st d)"
  by (cases st) (simp_all add: both_def)

lemma both_layer_twice: "both (without_layer layer) (both (without_layer layer) d) = both (without_layer layer) d"
  by (simp add: both_def without_layer_def)

lemma no_more_orphans: "\<not> layer_orphan layer (both (without_layer layer) d) g"
  by (auto simp: layer_orphan_def schema_of_both without_layer_def)

lemma delete_layer_loop_result:
  assumes "delete_layer_loop dl layer hs os w = (Inr os', w')" and "world_inv w" and "\<And>h. h \<in> set hs \<Longrightarrow> find_hive h w \<noteq> None"
  shows "(\<forall>h. hive_db h w' = (if h \<in> set hs then both (without_layer layer) (hive_db h w) else hive_db h w)) \<and>
    set os' = set os \<union> {g. \<exists>h\<in>set hs. layer_orphan layer (hive_db h w) g}"
  using assms
proof (induction hs arbitrary: os w)
  case (Cons h hs)
  obtain r1 w1 where a: "gate_acquire dl w = (r1, w1)" by (cases "gate_acquire dl w")
  have e: "env_step w w1" using env_step_calls(1) [of w dl] a by simp
  have g: "gentle 0 w w1" by (rule gentle_env [OF e])
  obtain r2 w2 where b: "delete_layer_from_hive dl h layer w1 = (r2, w2)" by (cases "delete_layer_from_hive dl h layer w1")
  from Cons.prems(1) a b obtain os1 where r2: "r2 = Inr os1" and free: "\<not> other_writer h 0 w1"
    and rest: "delete_layer_loop dl layer hs (os @ os1) w2 = (Inr os', w')"
    by (auto split: sum.splits if_splits)
  have ok: "db_ok (hive_db k w)" for k using Cons.prems(2) by (simp add: world_inv_def)
  have "case r2 of Inl e \<Rightarrow> gentle 0 w w2
      | Inr os \<Rightarrow> \<exists>d'. (d' = apply_all (layer_deletes layer) (hive_db h w) \<and> mset os = mset (map scan_orphan (orphan_rows layer (hive_db h w)))) \<and>
          rewrote 0 h d' w w2"
    by (rule local_txn_cases [OF b [unfolded delete_layer_from_hive_def] g _ holds_delete_layer]) (use Cons.prems(3) in simp)
  then have os1: "mset os1 = mset (map scan_orphan (orphan_rows layer (hive_db h w)))"
    and rew: "rewrote 0 h (both (without_layer layer) (hive_db h w)) w w2"
    using r2 by (auto simp: apply_layer)
  have dbs: "hive_db k w2 = (if k = h then both (without_layer layer) (hive_db h w) else hive_db k w)" for k
    using rew by (auto simp: rewrote_def)
  have orphans: "set os1 = {g. layer_orphan layer (hive_db h w) g}"
    using orphan_rows_exact [OF ok] mset_eq_setD [OF os1] by simp
  have inv1: "world_inv w1" by (rule gentleD(2) [OF g Cons.prems(2)])
  have inv2: "world_inv w2"
  proof -
    have "keeps_inv w1 (snd (local_txn dl h (delete_layer_act dl layer) w1))"
      using inv.local_transaction [where me = 0, OF succeeds_delete_layer _ free] by (simp add: mutation_allowed_def)
    with inv1 b show ?thesis by (simp add: keeps_inv_def delete_layer_from_hive_def)
  qed
  have served: "find_hive k w2 \<noteq> None" if "k \<in> set hs" for k
  proof -
    have "find_hive k w2 = None \<longleftrightarrow> find_hive k w1 = None"
      using local_txn_registry [of k dl h "delete_layer_act dl layer" w1] b by (simp add: delete_layer_from_hive_def)
    with Cons.prems(3) [of k] that env_step_sees(2) [OF e] show ?thesis by simp
  qed
  from Cons.IH [OF rest inv2 served] show ?case
    using orphans no_more_orphans by (auto simp: dbs both_layer_twice)
qed simp

lemma hives_after_eviction: "hive_db h (foldl (\<lambda>w g. cache_delete g w) w gs) = hive_db h w"
  by (induction gs arbitrary: w) (simp_all add: world_simps)

lemma refuse_not_ok: "map_write_err e \<noteq> status_ok" "storage_status e \<noteq> status_ok" "status_txn_busy \<noteq> status_ok"
  by (rule refusal_not_ok, simp)+

lemma delete_layer_loop_refuses: "delete_layer_loop dl layer hs os x = (Inl st, x') \<Longrightarrow> st \<noteq> status_ok"
proof (induction hs arbitrary: os x)
  case (Cons h hs)
  obtain r1 w1 where a: "gate_acquire dl x = (r1, w1)" by (cases "gate_acquire dl x")
  obtain r2 w2 where b: "delete_layer_from_hive dl h layer w1 = (r2, w2)" by (cases "delete_layer_from_hive dl h layer w1")
  show ?case
  proof (cases "\<exists>os1. r1 = Inr () \<and> \<not> other_writer h 0 w1 \<and> r2 = Inr os1")
    case True
    with Cons.prems a b show ?thesis using Cons.IH by auto
  next
    case False
    with Cons.prems a b have "st \<in> {status_txn_busy} \<union> range map_write_err \<union> range storage_status"
      by (auto split: sum.splits if_splits)
    then show ?thesis using refuse_not_ok refuse_not_ok [symmetric] by auto
  qed
qed simp

lemma delete_layer_ok:
  assumes run: "handle_delete_layer header payload w = ((status_ok, resp), w')" and inv: "world_inv w"
  shows "\<exists>req d orphans. decode_delete_layer_request (new_decoder payload) = Some (req, d) \<and>
    resp = encode_delete_layer_response orphans new_encoder \<and> sorted orphans \<and>
    set orphans = {g. \<exists>h. layer_orphan (dlr_layer_name req) (hive_db h w) g} \<and>
    (\<forall>h. hive_db h w' = both (without_layer (dlr_layer_name req)) (hive_db h w))"
proof -
  obtain res v where s: "start_request header w = (res, v)" by (cases "start_request header w")
  have g: "gentle (txnID header) w v" using gentle.started [of header "txnID header" w] s by simp
  note refuse = refuse_not_ok
  from run s refuse obtain r where r: "res = Inr r" by (cases res) (auto simp: with_request_def handle_delete_layer_def)
  let ?body = "decoded (decode_delete_layer_request (new_decoder payload)) (\<lambda>req w.
         case mutation_allowed (rq_txn r) w of
           Some e \<Rightarrow> answer (map_write_err e) w
         | None \<Rightarrow>
             if any_write_bound w then answer status_txn_busy w
             else
               let (ev, w) = elapse w in
               (case delete_layer_loop (rq_deadline r) (dlr_layer_name req)
                       (arrange (ev_order ev) (map fst (w_hives w))) [] w of
                  (Inl status, w) \<Rightarrow> answer status w
                | (Inr orphans, w) \<Rightarrow>
                    (let orphans = sort orphans; w = foldl (\<lambda>w g. cache_delete g w) w orphans
                     in ((status_ok, encode_delete_layer_response orphans new_encoder), w))))"
  obtain p where p: "?body v = p" by (rule that [OF HOL.refl])
  obtain st1 resp1 v1 where "p = ((st1, resp1), v1)" by (metis surj_pair)
  with p have b: "?body v = ((st1, resp1), v1)" by (rule HOL.trans)
  obtain st2 v2 where f: "finish_request r st1 v1 = (st2, v2)" by (cases "finish_request r st1 v1")
  from run s r b f have fin: "st2 = status_ok" "resp = resp1" "w' = v2" by (simp_all add: handle_delete_layer_def with_request_def)
  have "st1 = status_ok" "env_step v1 v2"
    using finish_cases [OF f HOL.refl] fin(1) by (auto simp: status_defs)
  obtain ev u where ev: "elapse v = (ev, u)" by (cases "elapse v")
  have e: "env_step v u" using env_step_elapse [of v] ev by simp
  let ?hs = "arrange (ev_order ev) (map fst (w_hives u))"
  have "status_invalid \<noteq> status_ok" by (simp add: status_defs)
  with b \<open>st1 = status_ok\<close> obtain req d where dec: "decode_delete_layer_request (new_decoder payload) = Some (req, d)"
    by (cases "decode_delete_layer_request (new_decoder payload)") (auto simp: decoded_def answer_def)
  obtain lres u1 where loop: "delete_layer_loop (rq_deadline r) (dlr_layer_name req) ?hs [] u = (lres, u1)"
    by (cases "delete_layer_loop (rq_deadline r) (dlr_layer_name req) ?hs [] u")
  have allowed: "mutation_allowed (rq_txn r) v = None" "\<not> any_write_bound v"
    using b dec \<open>st1 = status_ok\<close> refuse by (auto simp: decoded_def answer_def split: option.splits if_splits)
  obtain os where lres: "lres = Inr os"
  proof (cases lres)
    case (Inl st)
    with b dec ev loop allowed have "st = st1" by (simp add: decoded_def answer_def)
    with delete_layer_loop_refuses [OF loop [unfolded Inl]] \<open>st1 = status_ok\<close> show ?thesis by simp
  qed
  with b dec ev loop allowed have
    out: "resp1 = encode_delete_layer_response (sort os) new_encoder" "v1 = foldl (\<lambda>w g. cache_delete g w) u1 (sort os)"
    by (simp_all add: decoded_def Let_def)
  have "gentle (txnID header) w u" by (rule gentle_trans [OF g gentle_env [OF e]])
  then have same: "hive_db h u = hive_db h w" "find_hive h u = None \<longleftrightarrow> find_hive h w = None" and inv_u: "world_inv u" for h
    using gentleD [of "txnID header" w u] inv by (auto simp: data_kept_def hives_kept_def)
  have listed: "h \<in> set ?hs \<longleftrightarrow> find_hive h u \<noteq> None" for h
    by (simp add: find_hive_def map_of_eq_None_iff)
  from delete_layer_loop_result [OF loop [unfolded lres] inv_u] listed
  have res: "hive_db h u1 = (if h \<in> set ?hs then both (without_layer (dlr_layer_name req)) (hive_db h u) else hive_db h u)"
    "set os = {g. \<exists>h\<in>set ?hs. layer_orphan (dlr_layer_name req) (hive_db h u) g}" for h
    by auto
  have unserved: "hive_db h u = empty_db" if "h \<notin> set ?hs" for h using that unfolding listed by (simp add: hive_db_def)
  have empty: "both (without_layer layer) empty_db = empty_db" "\<not> layer_orphan layer empty_db g" for layer g
    by (auto simp: both_def without_layer_def empty_db_def empty_schema_def layer_orphan_def ex_store)
  have "hive_db h w' = both (without_layer (dlr_layer_name req)) (hive_db h w)" for h
  proof -
    have "hive_db h w' = hive_db h u1"
      using env_step_sees(3) [OF \<open>env_step v1 v2\<close>] fin(3) out(2) by (simp add: hives_after_eviction)
    also have "\<dots> = both (without_layer (dlr_layer_name req)) (hive_db h u)"
      using res(1) [of h] unserved [of h] empty(1) by (cases "h \<in> set ?hs") simp_all
    finally show ?thesis by (simp add: same)
  qed
  moreover have "set (sort os) = {g. \<exists>h. layer_orphan (dlr_layer_name req) (hive_db h w) g}"
  proof -
    have "layer_orphan (dlr_layer_name req) (hive_db h u) g \<Longrightarrow> h \<in> set ?hs" for h g
      using unserved [of h] empty(2) by (cases "h \<in> set ?hs") simp_all
    then show ?thesis by (auto simp: res(2) same)
  qed
  ultimately show ?thesis using dec out(1) fin(2) sorted_sort [of os] by blast
qed

end
