(* ===== verification/Write_Props.thy ===== *)
theory Write_Props
  imports Write_Answers Txn_Props
begin

unbundle bit_operations_syntax

text \<open>
  The truth of the answers to writing requests, in every state the daemon reaches and under
  every behaviour of the storage, the clock and the deadlines.
\<close>

section \<open>Consequences shared by the claims\<close>

lemma served_inv: "served w \<Longrightarrow> world_inv w"
  by (rule daemon.reachable_inv)

lemma answers_ok:
  "answers i dec g Q w status_ok w' \<Longrightarrow>
   \<exists>req d h d'. dec = Some (req, d) \<and> owned (g req) i h w \<and> Q req (seen i h w) status_ok d' \<and> rewrote i h d' w w'"
  unfolding answers_def using refusal_not_ok [of status_ok] by (auto simp: status_defs)

lemma answers_unchanged:
  assumes "answers i dec g Q w st w'" and "\<And>req d d'. Q req d st d' \<Longrightarrow> d' = d"
  shows "unchanged i w w'"
  using assms(1) unfolding answers_def
proof (elim disjE exE conjE)
  fix req d h d' assume "Q req (seen i h w) st d'" and "rewrote i h d' w w'"
  with assms(2) show ?thesis using rewrote_same by blast
qed

lemma answers_cases [consumes 1, case_names ran refused absent]:
  assumes "answers i dec g Q w st w'"
  obtains (ran) req d h d' where "dec = Some (req, d)" "owned (g req) i h w" "Q req (seen i h w) st d'" "rewrote i h d' w w'"
    | (refused) "refusal st"
    | (absent) req d where "st = status_not_found" "dec = Some (req, d)" "absent (g req) i w"
  using assms unfolding answers_def by blast

text \<open>A handler of the usual shape, outside a transaction, in the small calm daemon.\<close>

lemma run_autocommit:
  assumes "dec = Some (req, d)" and "g req = run_guid"
    and "k \<lparr>rq_txn = 0, rq_deadline = plain_deadline run_start\<rparr> req [] (Autocommit []) run_start = (rep, w')"
    and "calm w'" and "\<not> ctx_done (plain_deadline run_start) w'"
  shows "with_request (run_header op 0) (\<lambda>r. decoded dec (\<lambda>req. with_hive r (g req) (\<lambda>h.
      op_case (write_q r h) (\<lambda>e. answer (map_write_err e)) (k r req h)))) run_start = (rep, w')"
proof (rule with_request_calm)
  let ?r = "\<lparr>rq_txn = txnID (run_header op 0), rq_deadline = plain_deadline run_start\<rparr>"
  have alive: "\<not> ctx_done (rq_deadline ?r) run_start"
    using plain_deadline_ahead [of run_start] by (simp add: request_timeout_def)
  have "write_q ?r [] run_start = (Inr (Autocommit []), run_start)"
    by (rule write_q_calm(1) [OF _ alive]) (simp_all add: other_writer_def)
  with assms show "decoded dec (\<lambda>req. with_hive ?r (g req) (\<lambda>h. op_case (write_q ?r h) (\<lambda>e. answer (map_write_err e)) (k ?r req h))) run_start = (rep, w')"
    by (simp add: decoded_def resolve_hive_cached op_case_def)
qed (use assms in \<open>simp_all add: request_timeout_def\<close>)

lemma run_alive: "\<not> ctx_done (plain_deadline run_start) run_start" "env_events (w_env run_start) = []"
    "\<not> plain_deadline run_start \<le> env_now (w_env run_start)"
  using plain_deadline_ahead [of run_start] run_start_sees(1) by (simp_all add: request_timeout_def ctx_done_def calm_def)

lemma run_keys: "keys_with_guid Main run_guid run_db = [run_root]" "keys_with_guid Volatile run_guid run_db = []"
  by (simp_all add: keys_with_guid_def run_db_def empty_db_def empty_schema_def run_root_def)

lemma run_probe: "run_on (Autocommit []) (is_volatile_q (plain_deadline run_start) run_guid) run_start = (Inr Main, run_start)"
  using run_alive publish_same [of "[]" run_start]
  by (simp add: run_on_def view_def put_view_def is_volatile_q_def calm_simps run_keys)

lemma run_exec:
  "run_on (Autocommit []) (sql_exec (plain_deadline run_start) (\<lambda>d. Some (f d))) run_start = (Inr (), publish [] (f run_db) run_start)"
  using run_alive by (simp add: run_on_def view_def put_view_def calm_simps)

lemma run_act:
  "m (w_env run_start, run_db) = (res, w_env run_start, d) \<Longrightarrow> run_on (Autocommit []) m run_start = (res, publish [] d run_start)"
  by (simp add: run_on_def view_def put_view_def)

lemma run_empty:
  "s_path_entries (schema_of st run_db) = []" "s_values (schema_of st run_db) = []" "s_blankets (schema_of st run_db) = []"
  "s_keys (schema_of Volatile run_db) = []" "s_keys (schema_of Main run_db) = [run_root]"
  by (cases st; simp add: run_db_def empty_db_def empty_schema_def)+

lemma run_published: "calm (publish [] d run_start)" "\<not> ctx_done (plain_deadline run_start) (publish [] d run_start)"
  "hive_db [] (publish [] d run_start) = d"
  using run_alive by (simp_all add: calm_simps world_simps)

section \<open>Failure\<close>

text \<open>C5: a request that reads, creates, sets, hides or flushes (LOOKUP, ENUM_CHILDREN, READ_KEY,
  QUERY_VALUES, FLUSH, CREATE_ENTRY, CREATE_KEY, WRITE_KEY, SET_VALUE, HIDE_ENTRY,
  SET_BLANKET_TOMBSTONE) and is answered with anything but OK has changed nothing: every hive
  is as before, and its transaction sees what it saw or, when the request ran out of time, has
  lost its connection and can only be aborted.  Nothing is claimed here of BEGIN, COMMIT and
  ABORT, or of the deletions, which can fail between two of their statements.\<close>

theorem failed_request_changes_nothing:
  assumes "served w" and "register_handlers new_dispatcher (opCode hdr) = Some handler"
    and "opCode hdr \<notin> {op_begin_transaction, op_commit_transaction, op_abort_transaction,
      op_delete_entry, op_delete_value_entry, op_drop_key, op_delete_layer}"
    and "handler hdr payload w = ((st, resp), w')" and "st \<noteq> status_ok"
  shows "unchanged (txnID hdr) w w'"
proof -
  note inv = served_inv [OF assms(1)]
  have read: "unchanged (txnID hdr) w w'" if "gentle (txnID hdr) w (snd (handler hdr payload w))"
    using gentle_unchanged [OF that] assms(4) by simp
  have "handler \<in> {handle_lookup, handle_enum_children, handle_read_key, handle_query_values, handle_flush,
      handle_create_entry, handle_hide_entry, handle_create_key, handle_write_key, handle_set_value, handle_set_blanket_tombstone}"
    using assms(2,3) by (simp add: handler_table split: if_splits)
  then consider "handler \<in> {handle_lookup, handle_enum_children, handle_read_key, handle_query_values, handle_flush}"
    | "handler = handle_create_entry" | "handler = handle_create_key" | "handler = handle_write_key" | "handler = handle_set_value"
    | "handler = handle_hide_entry" | "handler = handle_set_blanket_tombstone" by blast
  then show ?thesis
  proof cases
    case 1
    then show ?thesis
      using read gentle.handler_lookup gentle.handler_enum_children gentle.handler_read_key gentle.handler_query_values gentle.handler_flush
      by blast
  next
    case 2
    show ?thesis by (rule answers_unchanged [OF create_entry_answers [OF assms(4) [unfolded 2] inv HOL.refl]])
      (use assms(5) in \<open>auto simp: create_entry_outcome_def\<close>)
  next
    case 3
    show ?thesis by (rule answers_unchanged [OF create_key_answers [OF assms(4) [unfolded 3] inv HOL.refl]])
      (use assms(5) in \<open>auto simp: key_outcome_def create_key_outcome_def\<close>)
  next
    case 4
    show ?thesis by (rule answers_unchanged [OF write_key_answers [OF assms(4) [unfolded 4] inv HOL.refl]])
      (use assms(5) in \<open>auto simp: write_key_outcome_def\<close>)
  next
    case 5
    show ?thesis by (rule answers_unchanged [OF set_value_answers [OF assms(4) [unfolded 5] inv HOL.refl]])
      (use assms(5) in \<open>auto simp: set_value_outcome_def\<close>)
  next
    case 6
    show ?thesis by (rule answers_unchanged [OF hide_entry_answers [OF assms(4) [unfolded 6] inv HOL.refl]])
      (use assms(5) in \<open>auto simp: hide_outcome_def\<close>)
  next
    case 7
    show ?thesis by (rule answers_unchanged [OF set_blanket_answers [OF assms(4) [unfolded 7] inv HOL.refl]])
      (use assms(5) in \<open>auto simp: set_blanket_outcome_def\<close>)
  qed
qed

text \<open>An empty payload is refused.\<close>

lemma empty_payload: "decode_set_value_request (new_decoder []) = None"
  by code_simp

theorem failed_request_changes_nothing_witness:
  "unchanged 0 run_start (snd (handle_set_value (run_header op_set_value 0) [] run_start))"
proof -
  have run: "handle_set_value (run_header op_set_value 0) [] run_start = ((status_invalid, []), run_start)"
    unfolding handle_set_value_def
    by (rule with_request_calm) (use run_alive in \<open>simp_all add: decoded_def answer_def empty_payload request_timeout_def\<close>)
  have "register_handlers new_dispatcher (opCode (run_header op_set_value 0)) = Some handle_set_value"
    by (simp add: handler_table op_defs)
  from failed_request_changes_nothing [OF run_reach(1) this _ run] run show ?thesis
    by (simp add: op_defs status_defs)
qed

section \<open>SET_VALUE\<close>

text \<open>C4: SET_VALUE is truthful, in a transaction or not.  OK: the key existed, a compare-and-swap
  found exactly the expected sequence, and the one value row under the key, the folded name
  and the layer has the name, the type, the data and the sequence of the request; everything
  else is as before.  Any other answer has changed nothing.  CAS_FAILED: it was a
  compare-and-swap, and the row was missing or had another sequence.  NOT_FOUND: the key is
  not in the hive it was looked for in, or in none.  That hive is a served one that the GUID
  cache names for the key, or that has the key, or whose root it is.\<close>

theorem set_value_truthful:
  assumes "served w" and "handle_set_value hdr payload w = ((st, resp), w')" and "i = txnID hdr"
  shows "st \<in> {status_ok, status_not_found, status_cas_failed, status_invalid, status_txn_busy, status_storage_error} \<and>
    (st = status_ok \<longrightarrow> (\<exists>req d h sto. decode_set_value_request (new_decoder payload) = Some (req, d) \<and>
       owned (svr_guid req) i h w \<and> has_key sto (svr_guid req) (seen i h w) \<and>
       (svr_expected_sequence req \<noteq> 0 \<longrightarrow> map vr_sequence (value_at sto req (seen i h w)) = [svr_expected_sequence req]) \<and>
       rewrote i h (set_value sto req (seen i h w)) w w')) \<and>
    (st \<noteq> status_ok \<longrightarrow> unchanged i w w') \<and>
    (st = status_cas_failed \<longrightarrow> (\<exists>req d h sto. decode_set_value_request (new_decoder payload) = Some (req, d) \<and>
       owned (svr_guid req) i h w \<and> svr_expected_sequence req \<noteq> 0 \<and> has_key sto (svr_guid req) (seen i h w) \<and>
       map vr_sequence (value_at sto req (seen i h w)) \<noteq> [svr_expected_sequence req])) \<and>
    (st = status_not_found \<longrightarrow> (\<exists>req d. decode_set_value_request (new_decoder payload) = Some (req, d) \<and>
       ((\<exists>h. owned (svr_guid req) i h w \<and> \<not> key_taken (svr_guid req) (seen i h w)) \<or> absent (svr_guid req) i w)))"
proof -
  note ans = set_value_answers [OF assms(2) served_inv [OF assms(1)] assms(3) [symmetric]]
  have kept: "unchanged i w w'" if "st \<noteq> status_ok"
    by (rule answers_unchanged [OF ans]) (use that in \<open>auto simp: set_value_outcome_def\<close>)
  from ans show ?thesis
  proof (cases rule: answers_cases)
    case (ran req d h d')
    note facts = ran(1,2,4)
    from ran(3) [unfolded set_value_outcome_def] consider
      (ok) sto where "st = status_ok" "has_key sto (svr_guid req) (seen i h w)" "d' = set_value sto req (seen i h w)"
        "svr_expected_sequence req \<noteq> 0 \<longrightarrow> map vr_sequence (value_at sto req (seen i h w)) = [svr_expected_sequence req]"
      | (cas) sto where "st = status_cas_failed" "svr_expected_sequence req \<noteq> 0" "has_key sto (svr_guid req) (seen i h w)"
        "map vr_sequence (value_at sto req (seen i h w)) \<noteq> [svr_expected_sequence req]"
      | (none) "st = status_not_found" "\<not> key_taken (svr_guid req) (seen i h w)"
      | (fails) "storage_failure st" by (elim disjE exE conjE)
    then show ?thesis
    proof cases
      case ok
      with facts show ?thesis unfolding ok(1,3) by (simp add: status_defs) (rule exI [of _ h], simp, rule exI [of _ sto], simp)
    next
      case cas
      with facts show ?thesis using kept unfolding cas(1) by (simp add: status_defs) (rule exI [of _ h], simp, rule exI [of _ sto], simp)
    next
      case none
      with facts show ?thesis using kept unfolding none(1) by (simp add: status_defs) (rule disjI1, rule exI [of _ h], simp)
    qed (use kept in \<open>auto simp: storage_failure_def status_defs\<close>)
  qed (use kept in \<open>auto simp: refusal_def storage_failure_def status_defs\<close>)
qed

definition run_value :: set_value_request where
  "run_value = \<lparr>svr_guid = run_guid, svr_value_name = [], svr_layer_name = [], svr_type = 4, svr_data = [1],
     svr_sequence = 7, svr_expected_sequence = 0\<rparr>"

definition run_set :: bytes where "run_set = set_value_frame run_value"

lemma run_set_step:
  "handle_set_value (run_header op_set_value 0) run_set run_start =
     ((status_ok, []), publish [] (set_value Main run_value run_db) run_start)"
proof -
  obtain d where dec: "decode_set_value_request (new_decoder run_set) = Some (run_value, d)"
    using set_value_codec.dec_new [of run_value "[]"] by (auto simp: run_set_def set_value_ok_def run_value_def run_guid_def)
  show ?thesis
    unfolding handle_set_value_def Let_def
    by (rule run_autocommit [OF dec])
      (use run_alive in \<open>simp_all add: run_value_def op_case_def run_probe run_exec answer_def calm_simps set_value_code [of Main run_value, unfolded run_value_def, simplified]\<close>)
qed

theorem set_value_truthful_witness:
  "\<exists>h sto. has_key sto run_guid (hive_db h run_start) \<and>
     hive_db h (snd (handle_set_value (run_header op_set_value 0) run_set run_start)) = set_value sto run_value (hive_db h run_start)"
proof -
  obtain d where dec: "decode_set_value_request (new_decoder run_set) = Some (run_value, d)"
    using set_value_codec.dec_new [of run_value "[]"] by (auto simp: run_set_def set_value_ok_def run_value_def run_guid_def)
  from set_value_truthful [OF run_reach(1) run_set_step HOL.refl] dec show ?thesis
    by (auto simp: run_set_step rewrote_def run_value_def)
qed

section \<open>CREATE_ENTRY and CREATE_KEY\<close>

text \<open>C16: CREATE_ENTRY is truthful: OK exactly adds the entry, in the store of the child's key, and
  only when no layer entry of the same parent, folded name and layer existed in either store
  of the hive, which is one that the cache names for the parent, or that has it;
  ALREADY_EXISTS is answered only when one did, and nothing has changed.\<close>

theorem create_entry_truthful:
  assumes "served w" and "handle_create_entry hdr payload w = ((st, resp), w')" and "i = txnID hdr"
    and "st = status_ok \<or> st = status_already_exists"
  shows "\<exists>req d h. decode_create_entry_request (new_decoder payload) = Some (req, d) \<and> owned (cer_parent_guid req) i h w \<and>
    (if st = status_ok
     then \<not> entry_taken req (seen i h w) \<and>
       rewrote i h (add_entry (entry_store req (seen i h w)) (created_entry req) (seen i h w)) w w'
     else entry_taken req (seen i h w) \<and> unchanged i w w')"
proof -
  note ans = create_entry_answers [OF assms(2) served_inv [OF assms(1)] assms(3) [symmetric]]
  then show ?thesis
  proof (cases rule: answers_cases)
    case (ran req d h d')
    then have "if st = status_ok
       then \<not> entry_taken req (seen i h w) \<and> d' = add_entry (entry_store req (seen i h w)) (created_entry req) (seen i h w)
       else entry_taken req (seen i h w) \<and> d' = seen i h w"
      using assms(4) by (auto simp: create_entry_outcome_def storage_failure_def status_defs)
    with ran rewrote_same show ?thesis by (intro exI [of _ req] exI [of _ d] exI [of _ h]) (auto split: if_splits)
  qed (use assms(4) in \<open>auto simp: refusal_def storage_failure_def status_defs\<close>)
qed

definition run_entry :: create_entry_request where
  "run_entry = \<lparr>cer_parent_guid = run_guid, cer_child_name = [], cer_layer_name = [], cer_child_guid = run_guid, cer_sequence = 1\<rparr>"

lemma run_entry_step:
  "handle_create_entry (run_header op_create_entry 0) (create_entry_frame run_entry) run_start =
     ((status_ok, []), publish [] (add_entry Main (created_entry run_entry) run_db) run_start)"
proof -
  obtain d where dec: "decode_create_entry_request (new_decoder (create_entry_frame run_entry)) = Some (run_entry, d)"
    using create_entry_codec.dec_new [of run_entry "[]"] by (auto simp: create_entry_ok_def run_entry_def run_guid_def)
  have run: "run_on (Autocommit []) (create_entry_act (plain_deadline run_start) run_entry) run_start =
      (Inr status_ok, publish [] (add_entry Main (created_entry run_entry) run_db) run_start)"
    using run_alive
    by (intro run_act) (simp add: create_entry_act_def create_entry_in_def is_volatile_q_def path_entry_exists_in_q_def insert_entry_def calm_simps
        run_keys run_empty run_entry_def created_entry_def add_entry_def insert_row_def Let_def del: schema_of.simps)
  show ?thesis
    unfolding handle_create_entry_def
    by (rule run_autocommit [OF dec]) (use run run_published in \<open>simp_all add: op_case_def answer_def\<close>, simp add: run_entry_def)
qed

theorem create_entry_truthful_witness:
  "\<exists>h. hive_db h (snd (handle_create_entry (run_header op_create_entry 0) (create_entry_frame run_entry) run_start)) =
     add_entry (entry_store run_entry (hive_db h run_start)) (created_entry run_entry) (hive_db h run_start)"
proof -
  obtain d where dec: "decode_create_entry_request (new_decoder (create_entry_frame run_entry)) = Some (run_entry, d)"
    using create_entry_codec.dec_new [of run_entry "[]"] by (auto simp: create_entry_ok_def run_entry_def run_guid_def)
  from create_entry_truthful [OF run_reach(1) run_entry_step HOL.refl] dec show ?thesis
    by (auto simp: run_entry_step rewrote_def)
qed

text \<open>C17: CREATE_KEY is truthful: OK exactly adds one key row, with the GUID, the name, the parent,
  the descriptor and the flags of the request, in the store the request asks for of
  the parent's hive (that the cache names for it, that has it, or whose root it is), and
  only when neither store had a key with its GUID; ALREADY_EXISTS is answered only when one
  had, and nothing has changed.  The time of the last write in the row is left open.\<close>

theorem create_key_truthful:
  assumes "served w" and "handle_create_key hdr payload w = ((st, resp), w')" and "i = txnID hdr"
    and "st = status_ok \<or> st = status_already_exists"
  shows "\<exists>req d h now. decode_create_key_request (new_decoder payload) = Some (req, d) \<and> owned (ckr_parent_guid req) i h w \<and>
    (if st = status_ok
     then \<not> key_taken (ckr_guid req) (seen i h w) \<and>
       rewrote i h (add_key (key_store req) (created_key req now) (seen i h w)) w w'
     else key_taken (ckr_guid req) (seen i h w) \<and> unchanged i w w')"
proof -
  note ans = create_key_answers [OF assms(2) served_inv [OF assms(1)] assms(3) [symmetric]]
  then show ?thesis
  proof (cases rule: answers_cases)
    case (ran req d h d')
    from ran(3) obtain now where "create_key_outcome req now (seen i h w) st d'" by (auto simp: key_outcome_def)
    then have "if st = status_ok
       then \<not> key_taken (ckr_guid req) (seen i h w) \<and> d' = add_key (key_store req) (created_key req now) (seen i h w)
       else key_taken (ckr_guid req) (seen i h w) \<and> d' = seen i h w"
      using assms(4) by (auto simp: create_key_outcome_def storage_failure_def status_defs)
    with ran rewrote_same show ?thesis
      by (intro exI [of _ req] exI [of _ d] exI [of _ h] exI [of _ now]) (auto split: if_splits)
  qed (use assms(4) in \<open>auto simp: refusal_def storage_failure_def status_defs\<close>)
qed

text \<open>A symbolic link below the root, under a new GUID.\<close>

definition run_new :: create_key_request where
  "run_new = \<lparr>ckr_guid = replicate 16 9, ckr_name = [65], ckr_parent_guid = run_guid, ckr_sd = [1], ckr_volatile = False, ckr_symlink = True\<rparr>"

lemma run_new_step:
  "handle_create_key (run_header op_create_key 0) (create_key_frame run_new) run_start =
     ((status_ok, []), cache_store (ckr_guid run_new) [] (publish [] (add_key Main (created_key run_new (unix_nano run_start)) run_db) run_start))"
proof -
  obtain d where dec: "decode_create_key_request (new_decoder (create_key_frame run_new)) = Some (run_new, d)"
    using create_key_codec.dec_new [of run_new "[]"] by (auto simp: create_key_ok_def run_new_def run_guid_def)
  have fresh: "\<not> ckr_volatile run_new" "ckr_parent_guid run_new = run_guid" "ckr_guid run_new \<noteq> run_guid"
    by (simp_all add: run_new_def run_guid_def)
  have absent: "keys_with_guid Volatile (ckr_guid run_new) run_db = []"
    by (simp add: keys_with_guid_def run_empty del: schema_of.simps)
  have run: "run_on (Autocommit []) (create_key_act (plain_deadline run_start) run_new now) run_start =
      (Inr status_ok, publish [] (add_key Main (created_key run_new now) run_db) run_start)" for now
    using run_alive fresh
    by (intro run_act) (simp add: create_key_act_def key_exists_in_q_def insert_key_def calm_simps absent run_empty create_key_row_created
        add_key_def insert_row_def run_root_def created_key_def Let_def del: schema_of.simps)
  let ?r = "\<lparr>rq_txn = txnID (run_header op_create_key 0), rq_deadline = plain_deadline run_start\<rparr>"
  have "write_q ?r [] run_start = (Inr (Autocommit []), run_start)"
    by (rule write_q_calm(1)) (use run_alive in \<open>simp_all add: other_writer_def\<close>)
  moreover have "resolve_parent ?r run_guid run_start = (Inr (Some []), run_start)"
    by (simp add: resolve_parent_def resolve_hive_def)
  ultimately show ?thesis
    unfolding handle_create_key_def
    by (intro with_request_calm)
      (use run run_alive run_published dec fresh in \<open>simp_all add: decoded_def op_case_def answer_def request_timeout_def calm_simps Let_def\<close>)
qed

theorem create_key_truthful_witness:
  "\<exists>h now. \<not> key_taken (ckr_guid run_new) (hive_db h run_start) \<and>
     hive_db h (snd (handle_create_key (run_header op_create_key 0) (create_key_frame run_new) run_start)) =
       add_key Main (created_key run_new now) (hive_db h run_start)"
proof -
  obtain d where dec: "decode_create_key_request (new_decoder (create_key_frame run_new)) = Some (run_new, d)"
    using create_key_codec.dec_new [of run_new "[]"] by (auto simp: create_key_ok_def run_new_def run_guid_def)
  have "key_store run_new = Main" by (simp add: key_store_def run_new_def)
  with create_key_truthful [OF run_reach(1) run_new_step HOL.refl] dec show ?thesis
    by (auto simp: run_new_step rewrote_def)
qed

section \<open>HIDE_ENTRY\<close>

text \<open>C15: HIDE_ENTRY answered OK leaves exactly one row under the parent, the folded name and the
  layer: the HIDDEN one of the request, in the store of the parent's key; the row it masks is
  gone from the other store too, and no other row has changed; the hive is one that the cache
  names for the parent, or that has it.  Any other answer has changed
  nothing, whichever of its statements failed.\<close>

theorem hide_entry_exact:
  assumes "served w" and "handle_hide_entry hdr payload w = ((st, resp), w')" and "i = txnID hdr"
  shows "if st = status_ok
    then \<exists>req d h sto. decode_hide_entry_request (new_decoder payload) = Some (req, d) \<and>
      owned (her_parent_guid req) i h w \<and> has_key sto (her_parent_guid req) (seen i h w) \<and> rewrote i h (hide_entry sto req (seen i h w)) w w' \<and>
      (\<forall>sto'. set (s_path_entries (schema_of sto' (hide_entry sto req (seen i h w)))) =
         {r \<in> set (s_path_entries (schema_of sto' (seen i h w))).
            \<not> (pr_parent_guid r = her_parent_guid req \<and> pr_child_name_folded r = fold_string (her_child_name req) \<and>
               pr_layer r = her_layer_name req)} \<union>
         (if sto' = sto then {hidden_marker req} else {}))
    else unchanged i w w'"
proof -
  note ans = hide_entry_answers [OF assms(2) served_inv [OF assms(1)] assms(3) [symmetric]]
  have rows: "set (s_path_entries (schema_of sto' (hide_entry sto req d0))) =
      {r \<in> set (s_path_entries (schema_of sto' d0)).
         \<not> (pr_parent_guid r = her_parent_guid req \<and> pr_child_name_folded r = fold_string (her_child_name req) \<and>
            pr_layer r = her_layer_name req)} \<union>
      (if sto' = sto then {hidden_marker req} else {})" for sto' sto req d0
    by (cases "sto' = sto")
      (auto simp: hide_entry_def masked_def sql_simps, (metis other_store.elims)+)
  show ?thesis
  proof (cases "st = status_ok")
    case True
    with answers_ok [of i "decode_hide_entry_request (new_decoder payload)" her_parent_guid hide_outcome w w'] ans
    obtain req d h d' where out: "decode_hide_entry_request (new_decoder payload) = Some (req, d)"
      "owned (her_parent_guid req) i h w" "hide_outcome req (seen i h w) status_ok d'" "rewrote i h d' w w'" by auto
    then obtain sto where "has_key sto (her_parent_guid req) (seen i h w)" "d' = hide_entry sto req (seen i h w)"
      by (auto simp: hide_outcome_def storage_failure_def status_defs)
    with out True show ?thesis by (simp add: rows) (rule exI [of _ h], simp, rule exI [of _ sto], simp)
  next
    case False
    then show ?thesis using answers_unchanged [OF ans] by (auto simp: hide_outcome_def)
  qed
qed

definition run_hide :: hide_entry_request where
  "run_hide = \<lparr>her_parent_guid = run_guid, her_child_name = [], her_layer_name = [], her_sequence = 1\<rparr>"

lemma local_txn_calm:
  assumes "m (w_env run_start, run_db) = (Inr x, w_env run_start, d)"
  shows "local_txn (plain_deadline run_start) [] m run_start = (Inr x, publish [] d run_start)"
  using assms run_alive by (simp add: local_txn_def and_then_def calm_simps)

lemma run_hide_step:
  "handle_hide_entry (run_header op_hide_entry 0) (hide_entry_frame run_hide) run_start =
     ((status_ok, []), publish [] (hide_entry Main run_hide run_db) run_start)"
proof -
  obtain d where dec: "decode_hide_entry_request (new_decoder (hide_entry_frame run_hide)) = Some (run_hide, d)"
    using hide_entry_codec.dec_new [of run_hide "[]"] by (auto simp: hide_entry_ok_def run_hide_def run_guid_def)
  have run: "hide_entry_locally (plain_deadline run_start) [] Main [] run_hide run_start =
      (Inr (), publish [] (hide_entry Main run_hide run_db) run_start)"
    unfolding hide_entry_locally_def
    by (rule local_txn_calm) (use run_alive in \<open>simp add: replace_hidden_entry_def calm_simps hide_entry_code [symmetric] run_hide_def\<close>)
  show ?thesis
    unfolding handle_hide_entry_def Let_def
    by (rule run_autocommit [OF dec])
      (use run run_published run_probe in \<open>simp_all add: op_case_def answer_def\<close>, simp_all add: run_hide_def op_case_def answer_def)
qed

theorem hide_entry_exact_witness:
  "\<exists>h sto. has_key sto run_guid (hive_db h run_start) \<and>
     hive_db h (snd (handle_hide_entry (run_header op_hide_entry 0) (hide_entry_frame run_hide) run_start)) =
       hide_entry sto run_hide (hive_db h run_start)"
proof -
  obtain d where dec: "decode_hide_entry_request (new_decoder (hide_entry_frame run_hide)) = Some (run_hide, d)"
    using hide_entry_codec.dec_new [of run_hide "[]"] by (auto simp: hide_entry_ok_def run_hide_def run_guid_def)
  from hide_entry_exact [OF run_reach(1) run_hide_step HOL.refl] dec obtain h sto where
    "has_key sto (her_parent_guid run_hide) (hive_db h run_start)"
    "rewrote 0 h (hide_entry sto run_hide (hive_db h run_start)) run_start (publish [] (hide_entry Main run_hide run_db) run_start)"
    unfolding if_P [OF HOL.refl] by (simp only: option.inject prod.inject run_header_fields seen_zero) blast
  then show ?thesis
    by (intro exI [of _ h] exI [of _ sto]) (simp add: run_hide_step rewrote_def, simp add: run_hide_def)
qed

section \<open>DROP_KEY and DELETE_LAYER\<close>

text \<open>C14: DROP_KEY answered OK has removed the key, in the hive that the cache names for it or that has
  it, in one step: its row, every entry
  that points at it, its values and its blanket tombstones, from both stores, and nothing
  else; a key no hive has is answered OK and nothing is changed.\<close>

theorem drop_key_exact:
  assumes "served w" and "handle_drop_key hdr payload w = ((status_ok, resp), w')" and "i = txnID hdr"
  shows "\<exists>req d. decode_drop_key_request (new_decoder payload) = Some (req, d) \<and>
    ((\<exists>h. owned (dkr_guid req) i h w \<and> rewrote i h (both (without_key (dkr_guid req)) (seen i h w)) w w') \<or>
     absent (dkr_guid req) i w \<and> unchanged i w w')"
proof -
  from drop_key_answers [OF assms(2) served_inv [OF assms(1)] assms(3) [symmetric]] show ?thesis
    unfolding drop_answers_def
  proof (elim disjE exE conjE)
    assume "answers i (decode_drop_key_request (new_decoder payload)) dkr_guid (deletion_outcome key_deletions) w status_ok w'"
    from answers_ok [OF this] obtain req d h d' where out: "decode_drop_key_request (new_decoder payload) = Some (req, d)" "owned (dkr_guid req) i h w"
      "deletion_outcome key_deletions req (seen i h w) status_ok d'" "rewrote i h d' w w'" by blast
    then have "d' = both (without_key (dkr_guid req)) (seen i h w)"
      by (auto simp: deletion_outcome_def storage_failure_def status_defs apply_drop)
    with out show ?thesis by blast
  qed blast
qed

lemma run_drop_step:
  "handle_drop_key (run_header op_drop_key 0) (drop_key_frame \<lparr>dkr_guid = run_guid\<rparr>) run_start =
     ((status_ok, []), cache_delete run_guid (publish [] (both (without_key run_guid) run_db) run_start))"
proof -
  obtain d where dec: "decode_drop_key_request (new_decoder (drop_key_frame \<lparr>dkr_guid = run_guid\<rparr>)) = Some (\<lparr>dkr_guid = run_guid\<rparr>, d)"
    using drop_key_codec.dec_new [of "\<lparr>dkr_guid = run_guid\<rparr>" "[]"] by (auto simp: drop_key_ok_def run_guid_def)
  have all: "tx_exec_all (plain_deadline run_start) fs (w_env run_start, d) = (Inr (), w_env run_start, apply_all fs d)" for fs d
    using run_alive by (induction fs arbitrary: d) (simp_all add: calm_simps)
  have run: "local_txn (plain_deadline run_start) [] (tx_exec_all (plain_deadline run_start) (drop_deletes run_guid)) run_start =
      (Inr (), publish [] (both (without_key run_guid) run_db) run_start)"
    by (rule local_txn_calm) (simp add: all apply_drop)
  let ?r = "\<lparr>rq_txn = txnID (run_header op_drop_key 0), rq_deadline = plain_deadline run_start\<rparr>"
  have "write_q ?r [] run_start = (Inr (Autocommit []), run_start)"
    by (rule write_q_calm(1)) (use run_alive in \<open>simp_all add: other_writer_def\<close>)
  moreover have "resolve_hive ?r run_guid run_start = (Inr (Some []), run_start)"
    by (simp add: resolve_hive_def)
  ultimately show ?thesis
    unfolding handle_drop_key_def
    by (intro with_request_calm)
      (use run run_alive dec run_published in \<open>simp_all add: decoded_def op_case_def answer_def request_timeout_def calm_simps\<close>)
qed

theorem drop_key_exact_witness:
  "(\<exists>h. find_hive h run_start \<noteq> None \<and>
      hive_db h (snd (handle_drop_key (run_header op_drop_key 0) (drop_key_frame \<lparr>dkr_guid = run_guid\<rparr>) run_start)) =
        both (without_key run_guid) (hive_db h run_start)) \<or> absent run_guid 0 run_start"
proof -
  obtain d where dec: "decode_drop_key_request (new_decoder (drop_key_frame \<lparr>dkr_guid = run_guid\<rparr>)) = Some (\<lparr>dkr_guid = run_guid\<rparr>, d)"
    using drop_key_codec.dec_new [of "\<lparr>dkr_guid = run_guid\<rparr>" "[]"] by (auto simp: drop_key_ok_def run_guid_def)
  from drop_key_exact [OF run_reach(1) run_drop_step HOL.refl] dec show ?thesis
    by (auto simp: run_drop_step rewrote_def dest!: owned_served)
qed

text \<open>C13: DELETE_LAYER answered OK has removed the layer's entries, values and blanket tombstones from
  both stores of every hive and changed nothing else, and its response lists, in ascending
  order, exactly the GUIDs that some hive had entries for in that layer and in no other.\<close>

theorem delete_layer_exact:
  assumes "served w" and "handle_delete_layer hdr payload w = ((status_ok, resp), w')"
  shows "\<exists>req d orphans. decode_delete_layer_request (new_decoder payload) = Some (req, d) \<and>
    resp = encode_delete_layer_response orphans new_encoder \<and> sorted orphans \<and>
    set orphans = {g. \<exists>h. layer_orphan (dlr_layer_name req) (hive_db h w) g} \<and>
    (\<forall>h. hive_db h w' = both (without_layer (dlr_layer_name req)) (hive_db h w))"
  by (rule delete_layer_ok [OF assms(2) served_inv [OF assms(1)]])

lemma run_layer_step:
  "\<exists>resp w'. handle_delete_layer (run_header op_delete_layer 0) (delete_layer_frame \<lparr>dlr_layer_name = []\<rparr>) run_start = ((status_ok, resp), w')"
proof -
  obtain d where dec: "decode_delete_layer_request (new_decoder (delete_layer_frame \<lparr>dlr_layer_name = []\<rparr>)) = Some (\<lparr>dlr_layer_name = []\<rparr>, d)"
    using delete_layer_codec.dec_new [of "\<lparr>dlr_layer_name = []\<rparr>" "[]"] by (auto simp: delete_layer_ok_def)
  have all: "exec_all (plain_deadline run_start) fs (w_env run_start, d) = (Inr (), w_env run_start, apply_all fs d)" for fs d
    using run_alive by (induction fs arbitrary: d) (simp_all add: calm_simps)
  have "delete_layer_act (plain_deadline run_start) [] (w_env run_start, run_db) =
      (Inr (map scan_orphan (orphan_rows [] run_db)), w_env run_start, apply_all (layer_deletes []) run_db)"
    using run_alive by (simp add: delete_layer_act_def find_layer_orphans_def calm_simps all)
  from local_txn_calm [where m = "delete_layer_act (plain_deadline run_start) []", OF this]
  have run: "delete_layer_from_hive (plain_deadline run_start) [] [] run_start =
      (Inr (map scan_orphan (orphan_rows [] run_db)), publish [] (apply_all (layer_deletes []) run_db) run_start)"
    by (simp add: delete_layer_from_hive_def)
  have hives: "map fst (w_hives run_start) = [[]]" by (simp add: run_start_def new_handler_def run_hive_def cache_store_def)
  have kept: "calm (foldl (\<lambda>w g. cache_delete g w) v gs) = calm v" "ctx_done dl (foldl (\<lambda>w g. cache_delete g w) v gs) = ctx_done dl v" for v gs dl
    by (induction gs arbitrary: v) (simp_all add: calm_simps)
  show ?thesis
    unfolding handle_delete_layer_def
    by (intro exI, rule with_request_calm)
      (use run run_alive dec run_published hives in \<open>simp_all add: decoded_def mutation_allowed_def any_write_bound_def calm_simps
         other_writer_def request_timeout_def kept Let_def\<close>, simp_all add: kept run_published)
qed

theorem delete_layer_exact_witness:
  "hive_db [] (snd (handle_delete_layer (run_header op_delete_layer 0) (delete_layer_frame \<lparr>dlr_layer_name = []\<rparr>) run_start)) =
     both (without_layer []) run_db"
proof -
  obtain d where dec: "decode_delete_layer_request (new_decoder (delete_layer_frame \<lparr>dlr_layer_name = []\<rparr>)) = Some (\<lparr>dlr_layer_name = []\<rparr>, d)"
    using delete_layer_codec.dec_new [of "\<lparr>dlr_layer_name = []\<rparr>" "[]"] by (auto simp: delete_layer_ok_def)
  obtain resp w' where run: "handle_delete_layer (run_header op_delete_layer 0) (delete_layer_frame \<lparr>dlr_layer_name = []\<rparr>) run_start = ((status_ok, resp), w')"
    using run_layer_step by blast
  from delete_layer_exact [OF run_reach(1) run] dec run show ?thesis by auto
qed

end
