(* ===== verification/Read_Props.thy ===== *)
theory Read_Props
  imports Reads Statuses Write_Props
begin

unbundle bit_operations_syntax

text \<open>
  The truth of the answers to reading requests, in every state the daemon reaches and under
  every behaviour of the storage, the clock and the deadlines, and the replies any request
  can get.
\<close>

section \<open>Replies\<close>

text \<open>C6: whatever the request, the state and the environment, the dispatcher answers with one
  response frame of the request's id and op code, whose status is one of the seven the
  interface documents for this source, and which carries a payload only with OK.\<close>

theorem replies_documented:
  "\<exists>st resp. fst (dispatch (register_handlers new_dispatcher) hdr payload w) = write_response (requestID hdr) (opCode hdr) st resp \<and>
     st \<in> {status_ok, status_not_found, status_already_exists, status_storage_error, status_txn_busy, status_invalid, status_cas_failed} \<and>
     (st = status_ok \<or> resp = [])"
proof (cases "register_handlers new_dispatcher (opCode hdr)")
  case None
  then show ?thesis by (intro exI [of _ status_invalid] exI [of _ "[]"]) (simp add: dispatch_def)
next
  case (Some h)
  obtain st resp v where run: "h hdr payload w = ((st, resp), v)" by (metis surj_pair)
  from handlers_proper [OF Some, of hdr payload w] run have "proper (st, resp)" by simp
  with Some run show ?thesis
    by (intro exI [of _ st] exI [of _ resp]) (auto simp: dispatch_def proper_def reply_statuses_def)
qed

section \<open>Enumerations\<close>

text \<open>C8: a LOOKUP answered OK lists exactly the entries its transaction sees under the folded child
  name in both stores, in the canonical order and without those whose key record is missing,
  and the metadata of exactly the keys they target, by ascending GUID: the bytes are a
  function of the data, whatever order the rows come in.  NOT_FOUND says that no served hive
  has the parent, any other answer is a refusal without payload, and a request of no
  transaction that meets no fault and knows its hive is answered OK.\<close>

theorem lookup_exact:
  assumes "served w" and "handle_lookup hdr payload w = (rep, w')"
  shows "truthful_read hdr (decode_lookup_request (new_decoder payload)) lkr_parent_guid
    (\<lambda>req d resp. resp = (case lookup_tells req d of (entries, meta) \<Rightarrow> encode_lookup_response entries meta new_encoder)) w rep"
  by (rule tells_truthful [OF lookup_answers [OF assms(2) served_inv [OF assms(1)] HOL.refl]])
    (use calm_reads(1) [of payload _ _ hdr w] assms(2) in auto)

text \<open>The small daemon with one entry below its root, and one value of it.\<close>

definition run_child :: path_row where "run_child = created_entry run_entry"

definition run_listed :: world where
  "run_listed = publish [] (add_entry Main run_child run_db) run_start"

lemma run_listed_served: "served run_listed"
proof -
  have "snd (serve (run_header op_create_entry 0) (create_entry_frame run_entry) run_start) = run_listed"
    by (simp add: dispatch_world handler_table op_defs run_entry_step [unfolded op_defs] run_listed_def run_child_def)
  then show ?thesis using move [OF run_reach(1) request] by metis
qed

lemma published_sees:
  assumes "w = publish [] d run_start"
  shows "undisturbed_read (run_header op 0) run_guid w" and "routed g 0 h w \<Longrightarrow> seen 0 h w = d"
proof -
  have only: "find_hive h run_start = None" if "h \<noteq> []" for h
    using that by (simp add: run_start_def new_handler_def run_hive_def find_hive_def cache_store_def)
  show "undisturbed_read (run_header op 0) run_guid w"
    using assms run_published(1) [of d] by (simp add: undisturbed_read_def world_simps request_timeout_def publish_def)
  show "seen 0 h w = d" if "routed g 0 h w"
    using that assms only run_published(3) [of d] by (cases "h = []") (auto simp: routed_def world_simps)
qed

definition run_look :: lookup_request where "run_look = \<lparr>lkr_parent_guid = run_guid, lkr_child_name = []\<rparr>"

lemma run_look_parent: "lkr_parent_guid run_look = run_guid"
  by (simp add: run_look_def)

lemma run_look_decodes: "\<exists>d. decode_lookup_request (new_decoder (lookup_frame run_look)) = Some (run_look, d)"
  using lookup_codec.dec_new [of run_look "[]"] by (auto simp: lookup_ok_def run_look_def run_guid_def)

lemma run_listed_tells:
  "lookup_tells run_look (add_entry Main run_child run_db) =
     ([\<lparr>lpe_layer_name = [], lpe_target_type = target_guid_type, lpe_target_guid = run_guid, lpe_sequence = 1\<rparr>],
      [\<lparr>lkm_guid = run_guid, lkm_sd = [], lkm_volatile = False, lkm_symlink = False, lkm_last_write_time = 0\<rparr>])"
  by code_simp

theorem lookup_exact_witness:
  "fst (handle_lookup (run_header op_lookup 0) (lookup_frame run_look) run_listed) =
     (status_ok, encode_lookup_response
        [\<lparr>lpe_layer_name = [], lpe_target_type = target_guid_type, lpe_target_guid = run_guid, lpe_sequence = 1\<rparr>]
        [\<lparr>lkm_guid = run_guid, lkm_sd = [], lkm_volatile = False, lkm_symlink = False, lkm_last_write_time = 0\<rparr>] new_encoder)"
proof -
  let ?run = "handle_lookup (run_header op_lookup 0) (lookup_frame run_look) run_listed"
  have "?run = (fst ?run, snd ?run)" by simp
  from lookup_exact [OF run_listed_served this] run_look_decodes published_sees [OF run_listed_def] run_listed_tells
    run_look_parent show ?thesis by (intro prod_eqI) (auto simp: truthful_read_def split: if_splits)
qed

text \<open>C9: an ENUM_CHILDREN answered OK lists the children its transaction sees below the parent, one
  block for each folded name in ascending order, with the lowest of its spellings and its
  entries from both stores in the canonical order; entries whose key record is missing are
  left out, with the child when it has no other, and the metadata is that of exactly the keys
  they target.  The bytes are a function of the data, whatever order the rows come in;
  failures are told as for LOOKUP.\<close>

theorem enum_children_exact:
  assumes "served w" and "handle_enum_children hdr payload w = (rep, w')"
  shows "truthful_read hdr (decode_enum_children_request (new_decoder payload)) ecr_parent_guid
    (\<lambda>req d resp. resp = (case enum_children_tells req d of (children, meta) \<Rightarrow> encode_enum_children_response children meta new_encoder)) w rep"
  by (rule tells_truthful [OF enum_children_answers [OF assms(2) served_inv [OF assms(1)] HOL.refl]])
    (use calm_reads(2) [of payload _ _ hdr w] assms(2) in auto)

definition run_below :: enum_children_request where "run_below = \<lparr>ecr_parent_guid = run_guid\<rparr>"

lemma run_below_parent: "ecr_parent_guid run_below = run_guid"
  by (simp add: run_below_def)

lemma run_below_decodes: "\<exists>d. decode_enum_children_request (new_decoder (enum_children_frame run_below)) = Some (run_below, d)"
  using enum_children_codec.dec_new [of run_below "[]"] by (auto simp: enum_children_ok_def run_below_def run_guid_def)

lemma run_below_tells:
  "enum_children_tells run_below (add_entry Main run_child run_db) =
     ([\<lparr>ecc_child_name = [],
        ecc_entries = [\<lparr>lpe_layer_name = [], lpe_target_type = target_guid_type, lpe_target_guid = run_guid, lpe_sequence = 1\<rparr>]\<rparr>],
      [\<lparr>lkm_guid = run_guid, lkm_sd = [], lkm_volatile = False, lkm_symlink = False, lkm_last_write_time = 0\<rparr>])"
  by code_simp

theorem enum_children_exact_witness:
  "fst (handle_enum_children (run_header op_enum_children 0) (enum_children_frame run_below) run_listed) =
     (status_ok, encode_enum_children_response
        [\<lparr>ecc_child_name = [],
          ecc_entries = [\<lparr>lpe_layer_name = [], lpe_target_type = target_guid_type, lpe_target_guid = run_guid, lpe_sequence = 1\<rparr>]\<rparr>]
        [\<lparr>lkm_guid = run_guid, lkm_sd = [], lkm_volatile = False, lkm_symlink = False, lkm_last_write_time = 0\<rparr>] new_encoder)"
proof -
  let ?run = "handle_enum_children (run_header op_enum_children 0) (enum_children_frame run_below) run_listed"
  have "?run = (fst ?run, snd ?run)" by simp
  from enum_children_exact [OF run_listed_served this] run_below_decodes published_sees [OF run_listed_def] run_below_tells
    run_below_parent show ?thesis by (intro prod_eqI) (auto simp: truthful_read_def split: if_splits)
qed

section \<open>Values\<close>

text \<open>C10: a QUERY_VALUES answered OK lists each value row its transaction sees in either store under
  the key, and under the name it asks for unless it asks for all, exactly once, with its name,
  layer, type, data and sequence, ordered by folded name, layer and sequence, and each blanket
  tombstone of the key exactly once, ordered by folded layer name and sequence; failures are told as
  for LOOKUP.\<close>

theorem query_values_exact:
  assumes "served w" and "handle_query_values hdr payload w = (rep, w')"
  shows "truthful_read hdr (decode_query_values_request (new_decoder payload)) qvr_guid
    (\<lambda>req d resp. \<exists>entries blankets. resp = encode_query_values_response entries blankets new_encoder \<and>
       values_told req d entries \<and> blankets_told (qvr_guid req) d blankets) w rep"
  by (rule tells_truthful [OF query_values_answers [OF assms(2) served_inv [OF assms(1)] HOL.refl]])
    (use calm_reads(3) [of payload _ _ hdr w] assms(2) in \<open>auto, blast\<close>)

definition run_valued :: world where
  "run_valued = publish [] (set_value Main run_value run_db) run_start"

lemma run_valued_served: "served run_valued"
proof -
  have "snd (serve (run_header op_set_value 0) run_set run_start) = run_valued"
    by (simp add: dispatch_world handler_table op_defs run_set_step [unfolded op_defs] run_valued_def)
  then show ?thesis using move [OF run_reach(1) request] by metis
qed

definition run_all :: query_values_request where
  "run_all = \<lparr>qvr_guid = run_guid, qvr_value_name = [], qvr_query_all = True\<rparr>"

lemma run_all_guid: "qvr_guid run_all = run_guid"
  by (simp add: run_all_def)

lemma run_all_decodes: "\<exists>d. decode_query_values_request (new_decoder (query_values_frame run_all)) = Some (run_all, d)"
  using query_values_codec.dec_new [of run_all "[]"] by (auto simp: query_values_ok_def run_all_def run_guid_def)

lemma run_valued_rows:
  "map told_value (filter (asked_value run_all)
       (s_values (db_main (set_value Main run_value run_db)) @ s_values (db_volatile (set_value Main run_value run_db)))) =
     [\<lparr>qve_value_name = [], qve_layer_name = [], qve_type = 4, qve_data = [1], qve_sequence = 7\<rparr>]"
  "map told_blanket (filter (\<lambda>r. br_key_guid r = run_guid)
       (s_blankets (db_main (set_value Main run_value run_db)) @ s_blankets (db_volatile (set_value Main run_value run_db)))) = []"
  by code_simp+

theorem query_values_exact_witness:
  "fst (handle_query_values (run_header op_query_values 0) (query_values_frame run_all) run_valued) =
     (status_ok, encode_query_values_response
        [\<lparr>qve_value_name = [], qve_layer_name = [], qve_type = 4, qve_data = [1], qve_sequence = 7\<rparr>] [] new_encoder)"
proof -
  let ?run = "handle_query_values (run_header op_query_values 0) (query_values_frame run_all) run_valued"
  have entries: "entries = [\<lparr>qve_value_name = [], qve_layer_name = [], qve_type = 4, qve_data = [1], qve_sequence = 7\<rparr>]"
    if "values_told run_all (set_value Main run_value run_db) entries" for entries
  proof -
    from that have "mset entries = mset [\<lparr>qve_value_name = [], qve_layer_name = [], qve_type = 4, qve_data = [1], qve_sequence = 7\<rparr>]"
      by (simp only: values_told_def run_valued_rows)
    then show ?thesis by simp
  qed
  have blankets: "blankets = []" if "blankets_told run_guid (set_value Main run_value run_db) blankets" for blankets
    using that by (simp only: blankets_told_def run_valued_rows) simp
  have "?run = (fst ?run, snd ?run)" by simp
  from query_values_exact [OF run_valued_served this] run_all_decodes published_sees [OF run_valued_def]
    run_all_guid show ?thesis by (intro prod_eqI) (auto simp: truthful_read_def dest!: entries blankets split: if_splits)
qed

end
