(* ===== verification/Divergences.thy ===== *)
theory Divergences
  imports Read_Props
begin

unbundle bit_operations_syntax

text \<open>
  Places where the code and what is said of it part, each shown on the small daemon or on a
  concrete database.
\<close>

section \<open>The name of a volatile key outlives it\<close>

text \<open>
  The kernel sends CREATE_ENTRY before CREATE_KEY, so the child of a volatile key's entry is in
  neither store and \<open>handleCreateEntry\<close> writes the entry to the persistent one.  After a restart,
  which empties the volatile store, LOOKUP leaves the entry out and the child reads as absent,
  while CREATE_ENTRY of the same name finds it taken.
\<close>

definition volatile_entry :: create_entry_request where
  "volatile_entry = \<lparr>cer_parent_guid = run_guid, cer_child_name = [0x61], cer_layer_name = [], cer_child_guid = replicate 16 2, cer_sequence = 1\<rparr>"

definition volatile_key :: create_key_request where
  "volatile_key = \<lparr>ckr_guid = replicate 16 2, ckr_name = [0x61], ckr_parent_guid = run_guid, ckr_sd = [], ckr_volatile = True, ckr_symlink = False\<rparr>"

definition with_volatile_key :: db where
  "with_volatile_key =
     add_key (key_store volatile_key) (created_key volatile_key 0)
       (add_entry (entry_store volatile_entry run_db) (created_entry volatile_entry) run_db)"

abbreviation look_volatile :: lookup_request where
  "look_volatile \<equiv> \<lparr>lkr_parent_guid = run_guid, lkr_child_name = [0x61]\<rparr>"

theorem volatile_name_outlives_key:
  "map lpe_target_guid (fst (lookup_tells look_volatile with_volatile_key)) = [replicate 16 2]"
  "lookup_tells look_volatile (with_volatile_key\<lparr>db_volatile := empty_schema\<rparr>) = ([], [])"
  "entry_taken volatile_entry (with_volatile_key\<lparr>db_volatile := empty_schema\<rparr>)"
  unfolding entry_taken_def by (code_simp, code_simp, intro exI [of _ Main], code_simp)

section \<open>A purge that fails in a transaction can be committed by half\<close>

text \<open>
  Inside a transaction the eight DELETE statements of DROP_KEY run without a savepoint: when the
  third fails the answer is a storage error, but the transaction keeps the first two and COMMIT
  publishes them.
\<close>

theorem drop_key_half_purged:
  "exec_all 10 (drop_deletes run_guid)
     (\<lparr>env_now = 0, env_epoch = 0, env_events = [quiet, quiet, quiet\<lparr>ev_fault := Some 10\<rparr>]\<rparr>, set_value Main run_value run_db) =
   (Inl (Err_Sqlite 10), \<lparr>env_now = 0, env_epoch = 0, env_events = []\<rparr>,
    map_schema Main (\<lambda>s. s\<lparr>s_keys := []\<rparr>) (set_value Main run_value run_db))"
  by code_simp

section \<open>DROP_KEY of an unknown key under a read-only transaction is answered OK\<close>

theorem drop_unknown_read_only_ok:
  "fst (handle_drop_key (run_header op_drop_key 1) (drop_key_frame \<lparr>dkr_guid = replicate 16 2\<rparr>) (run_begun True)) = (status_ok, [])"
proof -
  obtain d where dec: "decode_drop_key_request (new_decoder (drop_key_frame \<lparr>dkr_guid = replicate 16 2\<rparr>)) = Some (\<lparr>dkr_guid = replicate 16 2\<rparr>, d)"
    using drop_key_codec.dec_new [of "\<lparr>dkr_guid = replicate 16 2\<rparr>" "[]"] by (auto simp: drop_key_ok_def)
  have begun: "find_txn 1 (run_begun True) = Some (new_txn True 0 0 0)" "calm (run_begun True)"
    "w_cache (run_begun True) (replicate 16 2) = None" "hive_db [] (run_begun True) = run_db" "map fst (w_hives (run_begun True)) = [[]]"
    "w_budget (run_begun True) = request_timeout"
    by (simp_all add: run_begun_def world_simps calm_simps)
      (simp_all add: put_txn_def run_start_def new_handler_def cache_store_def run_hive_def run_guid_def)
  define r where "r = \<lparr>rq_txn = 1 :: u64, rq_deadline = plain_deadline (run_begun True)\<rparr>"
  have alive: "\<not> ctx_done (rq_deadline r) (run_begun True)" "rq_txn r = 1"
    using plain_deadline_ahead [of "run_begun True"] begun(6) by (simp_all add: r_def request_timeout_def)
  have rows: "keys_with_guid Main (replicate 16 2) run_db @ keys_with_guid Volatile (replicate 16 2) run_db = []"
    by code_simp
  have "resolve_hive r (replicate 16 2) (run_begun True) = (Inr None, run_begun True)"
    using begun alive
    by (simp add: resolve_hive_def elapse_calm arrange_quiet gate_acquire_calm bound_querier_def new_txn_def run_on_def view_def put_view_def
        calm_simps rows calm_def ctx_done_def not_le)
  then have "handle_drop_key (run_header op_drop_key 1) (drop_key_frame \<lparr>dkr_guid = replicate 16 2\<rparr>) (run_begun True) = ((status_ok, []), run_begun True)"
    unfolding handle_drop_key_def
    by (intro with_request_calm)
      (use dec begun alive in \<open>simp_all add: decoded_def op_case_def r_def new_txn_def request_timeout_def answer_def\<close>)
  then show ?thesis by simp
qed

section \<open>Blanket tombstones of layers that differ in case only\<close>

text \<open>
  Layer names are compared as bytes, but the blanket tombstones are ordered by the folded name:
  two layers that fold alike, at one sequence, keep the order of the rows.
\<close>

theorem blanket_order_ties:
  defines "a \<equiv> \<lparr>bte_layer_name = [0x61], bte_sequence = 1\<rparr>" and "b \<equiv> \<lparr>bte_layer_name = [0x41], bte_sequence = 1\<rparr>"
  shows "sort_blankets [a, b] = [a, b]" "sort_blankets [b, a] = [b, a]" "a \<noteq> b"
  unfolding a_def b_def by code_simp+

section \<open>An interrupted transaction is still admitted by the operations that cannot join it\<close>

text \<open>
  \<open>mutationAllowed\<close>, which DELETE_LAYER and FLUSH ask, does not look at the failed flag on which
  \<open>getOrBindWrite\<close> refuses every other mutation.
\<close>

theorem failed_txn_still_admitted:
  assumes "find_txn i w = Some info" and "ti_failed info" and "\<not> ti_read_only info"
  shows "mutation_allowed i w = None" and "get_or_bind_write dl i h w = (Inl Err_Interrupted_Txn, w)"
  using assms by (simp_all add: mutation_allowed_def get_or_bind_write_def)

end
