(* ===== verification/Spec2Isabelle.thy ===== *)
theory Spec2Isabelle
  imports Rsi_Codecs Fold_Laws Config Sd Gate Startup_Laws Divergences
begin

text \<open>
  loregd, the registry source daemon: the model, its properties, and what is left out.

  \<^bold>\<open>The program.\<close>  The kernel's registry (LCS) sends requests over \<open>/dev/pkm_registry\<close>; loregd keeps
  the hives, one SQLite database each with a persistent schema \<open>main\<close> and an attached schema
  \<open>volatile\<close> on tmpfs.  \<open>main.go\<close> parses the hive declarations (\<open>internal/config\<close>), prepares the
  runtime directory and opens the hives (\<open>internal/hivedb\<close>), registers them and negotiates the
  lifetime protocol (\<open>internal/device\<close>), and runs the request loop.  Each message is framed and
  decoded by \<open>internal/rsi\<close> and dispatched to a handler of \<open>internal/handler\<close>, which finds the hive
  of the GUID it names, takes a connection (the read pool, the write connection, or the one
  its transaction has pinned) and runs SQL statements on it.  Names are compared by the simple
  case folding of \<open>internal/fold\<close>.

  \<^bold>\<open>The theories.\<close>  In import order, each with the source it models.

  \<^item> \<open>Prelude\<close>: bytes, little-endian words, sorting; the collections \<open>codec_simps\<close>, \<open>sql_simps\<close> and
    \<open>inv_intros\<close>.  \<open>Transitions\<close>: reachable states, the interface \<open>invariant_system\<close>.
  \<^item> \<open>Rsi_Wire\<close> (\<open>rsi/wire.go\<close>, \<open>constants.go\<close>): encoder and decoder as an append and a cursor, framing
    with the 16 MiB bound.  \<open>Rsi_Messages\<close> (\<open>messages.go\<close>): the request decoders and response
    encoders.  \<open>Rsi_Codecs\<close>: every message through the interface \<open>field_codec\<close>.
  \<^item> \<open>Fold_Table\<close>, \<open>Fold\<close> (\<open>fold/casefold_table.go\<close>, \<open>fold.go\<close>): the generated tables row by row, both
    binary searches, Go's UTF-8 range loop.  \<open>Fold_Laws\<close>: the searches find exactly the table's rows;
    two names fold alike exactly when they agree up to case.
  \<^item> \<open>Config\<close> (\<open>config/config.go\<close>), \<open>Sd\<close> (\<open>sd/sd.go\<close>): the command line and the default descriptor.
  \<^item> \<open>Gate\<close> (\<open>hivedb/gate.go\<close>): the publication gate as its critical sections, interleaved by any
    number of requests: exclusion, no lost wake-up, priority of waiting writers.
  \<^item> \<open>Store\<close> (\<open>hivedb/schema.go\<close> and the SQL text of the handlers): the four tables of a schema as row
    lists with their primary keys (interface \<open>keyed_table\<close>), SQL's NULL in \<open>NOT IN\<close>, the errors, the
    environment of a statement, and actions, which fail or return a value and a new view.
  \<^item> \<open>World\<close> (\<open>handler.go\<close>, \<open>rsi/clock.go\<close>): the state of the daemon: hives by folded name, GUID cache,
    transaction table, clock.  \<open>Txn\<close> (\<open>txn.go\<close>, \<open>lease.go\<close>): the transaction manager and the lease turn.
    \<open>Routing\<close> (\<open>routing.go\<close>, \<open>request.go\<close>, \<open>querier.go\<close>): admission, hive resolution, the connection of a
    statement.  \<open>Paths\<close>, \<open>Keys\<close>, \<open>Values\<close>, \<open>Txn_Handlers\<close> (\<open>paths.go\<close>, \<open>keys.go\<close>, \<open>values.go\<close>,
    \<open>txn_handlers.go\<close>): the eighteen handlers.  \<open>Dispatch\<close> (\<open>rsi/dispatch.go\<close>): their table.
  \<^item> \<open>Device\<close> (\<open>device/device.go\<close>, \<open>lifetime.go\<close>): the registration image, negotiation, request deadlines
    and the request loop as the step relation \<open>serve_step\<close>: a message is read, the handler of a
    request in flight runs, its reply is written or refused by the device, a lease turn, the end.
  \<^item> \<open>Hivedb\<close> (\<open>hivedb/hivedb.go\<close>): schema version, root key, orphan cleanup, maximum sequence.
    \<open>Startup\<close> (\<open>main.go\<close>, \<open>hivedb/runtime.go\<close>, the connections of \<open>hivedb.go\<close>): the start and stop of the
    process over a host with files, directory entries, a lock and open connections.

  A Go function is a HOL function of its name in snake case; a method that changes shared state
  takes and returns it, errors are \<open>Inl\<close>, and every early return of the source is a branch.

  \<^bold>\<open>The environment.\<close>  SQLite, \<open>database/sql\<close>, the operating system and the kernel are not in the
  repository.  Every blocking call consumes an event of \<open>env_events\<close>: the time that passes, an
  engine error code or none, the order of the rows of an unordered query or of a Go map, and the
  busy column of a checkpoint.  The list is arbitrary, so the theorems hold for every behaviour of
  the storage and the clock; when it is used up the environment is quiet.  Random GUIDs, directory
  names, buffer addresses, the answers of ioctls and the renewal of a lease are arguments.  Time is
  in nanoseconds of the monotonic clock; the wall clock is it plus an epoch.

  \<^bold>\<open>What is shown.\<close>  The lemma groups and the theories that hold them:

  \<^item> \<open>Acts\<close>, \<open>Db_Inv\<close>: a logic of actions (\<open>holds\<close>) and the integrity of a database (\<open>db_ok\<close>: unique
    keys in each store, GUIDs and entry triples in one store only, folded columns, targets that
    match their type), kept by every writing action from each of its outcomes.
  \<^item> \<open>Effects\<close>, \<open>Txn_Laws\<close>, \<open>Isolation\<close>: the interfaces \<open>read_effects\<close>, \<open>bind_effects\<close> and
    \<open>write_effects\<close> say which changes of the state a request may make; a relation closed under
    them holds of every handler.  They are interpreted for the invariant (\<open>inv\<close>), the view of
    another transaction (\<open>iso\<close>), pinned snapshots and \<open>gentle\<close> bookkeeping.
  \<^item> \<open>Daemon\<close>, \<open>Txn_Props\<close>: the daemon as a transition system of requests and lease turns; integrity
    of every reachable state, commit all or nothing, isolation, stable snapshots, read-only and
    expired transactions, cleanup.  \<open>Runs\<close>: a small run on which claims are witnessed.
  \<^item> \<open>Writes\<close>, \<open>Write_Answers\<close>, \<open>Write_Props\<close>: what the answer to a writing request says about the
    data a transaction sees (\<open>seen\<close>) in the hive that owns the GUID (\<open>owned\<close>): OK did exactly its
    change, with the rows spelled out from the request (\<open>set_value\<close>, \<open>created_entry\<close>, \<open>created_key\<close>,
    \<open>hidden_marker\<close>, \<open>without_key\<close>, \<open>without_layer\<close>); a failure of any but a deletion changed nothing.
  \<^item> \<open>Reads\<close>, \<open>Read_Props\<close>: a LOOKUP and an ENUM_CHILDREN answered OK are functions of the data, not
    of the row order; QUERY_VALUES lists each row once, sorted; an undisturbed request is
    answered OK.  \<open>Statuses\<close>: the seven statuses, payloads only with OK.
  \<^item> \<open>Device_Laws\<close>: every run of the loop has a serial order (\<open>play\<close>) of the accepted requests and the
    lease turns that gives its state and its replies; it answers each accepted request once, and
    shuts down; the kernel reads back the registration.
  \<^item> \<open>Hivedb_Laws\<close>, \<open>Startup_Laws\<close>: the exact file after an opening and after a failed one, starting
    all or nothing, one daemon at a time, no residue of an earlier run, a stop that gives back
    what the start took.
  \<^item> \<open>Divergences\<close>: where the code and what is said of it part.

  \<^bold>\<open>Choices.\<close>  A handler is one atomic step of the daemon: the loop interleaves handlers, the writing
  of replies and lease turns, but not the statements of two handlers.  In the source the
  statements of one action run under the hive's gate (shared for reads, exclusive for writes and
  commits), which \<open>Gate\<close> proves exclusive, and requests of one transaction under that transaction's
  gate.  Between two acquisitions of one handler others may act: after \<open>resolveHive\<close> has released
  the gate and before the connection is taken, and, in DELETE_LAYER and FLUSH, between two hives.
  These interleavings are not in the model, and the claims are about runs without them.  The
  cleanups \<open>maintainLeases\<close> starts run to their end within its turn.  No fuel is used: the loops
  recurse on lists, the decoders on counts bounded by the bytes left, the binary searches on the
  interval.  Sequences are 64-bit words; a driver that refuses one from \<open>2 ^ 63\<close> on is the case of
  an error of the statement, a driver that stores it the other one, and both are covered.  The
  failure of a savepoint's own rollback and of a discarded connection, and an automatic rollback
  by the engine, appear only as the error of the statement.  A hive is identified by its folded
  name.  The tables of an open hive are those of its \<open>hv_db\<close>, replaced at each commit; the file of
  the host is read when the hive is opened, so that SQLite has the committed tables on disk is
  taken for granted and not claimed.  The journal mode of a file, set by every connection before
  the schema version is read, is not part of \<open>hive_file\<close>.

  \<^bold>\<open>Not modelled.\<close>  Signals, the readiness datagram and log lines are pure I/O; a signal reaches
  the loop as a closed device.  The ticker of \<open>EnableLeases\<close> is the choice of when a lease turn
  happens.  \<open>Dispatcher.Serve\<close>, which reads from a byte stream, is used by tests only: the daemon
  serves through \<open>ServeWithLifetime\<close>.  Access checks, layer resolution and ownership are the kernel's.
\<close>

end
